(* ===== verification/Prelude.thy ===== *)
theory Prelude
  imports Main "HOL-Library.Sublist"
begin

text \<open>
  Shared vocabulary of the development: the collections of hints, 64-bit signed arithmetic
  written out on \<^typ>\<open>int\<close>, and generic lemmas about lists, sums and options that the
  component theories use.

  Conventions. A Go \<open>string\<close> and a Go \<open>[]byte\<close> are both a \<^typ>\<open>string\<close> of Isabelle, that is
  a list of bytes. A Go call that returns \<open>(T, error)\<close> is a value of the sum \<open>error + T\<close> with
  \<open>Inl\<close> for the error. A Go call that returns only an \<open>error\<close> is an \<open>option\<close> with \<open>None\<close> for
  \<open>nil\<close>. A Go \<open>int\<close> or \<open>int64\<close> is an \<^typ>\<open>int\<close>; wherever the code multiplies or adds such
  numbers in a way that can leave the 64-bit range, the result goes through \<open>i64\<close>.
\<close>

subsection \<open>Collections of facts\<close>

named_theorems go_string \<open>equations that evaluate byte-string operations\<close>
named_theorems ok_iff \<open>when an operation succeeds, as an equivalence\<close>
named_theorems inv_intro \<open>an operation keeps an invariant\<close>

subsection \<open>Results\<close>

abbreviation is_err :: "'e + 'a \<Rightarrow> bool" where
  "is_err r \<equiv> (\<exists>e. r = Inl e)"

abbreviation is_ok :: "'e + 'a \<Rightarrow> bool" where
  "is_ok r \<equiv> (\<exists>x. r = Inr x)"

lemma sum_not_ok_iff: "(\<not> is_ok r) \<longleftrightarrow> is_err r"
  by (cases r) auto

lemma case_sum_Inr_iff [ok_iff]:
  "(case r of Inl e \<Rightarrow> Inl e | Inr x \<Rightarrow> f x) = Inr y \<longleftrightarrow> (\<exists>x. r = Inr x \<and> f x = Inr y)"
  by (cases r) auto

subsection \<open>Signed 64-bit integers\<close>

text \<open>
  Go's \<open>int64\<close> arithmetic (\<open>time.Duration\<close>, \<open>int\<close> on the supported platforms) wraps around in
  two's complement. \<open>i64\<close> reduces a mathematical integer to that range.
\<close>

definition i64 :: "int \<Rightarrow> int" where
  "i64 x = (x + 2 ^ 63) mod 2 ^ 64 - 2 ^ 63"

definition in_i64 :: "int \<Rightarrow> bool" where
  "in_i64 x \<longleftrightarrow> - (2 ^ 63) \<le> x \<and> x < 2 ^ 63"

lemma i64_id [simp]: "in_i64 x \<Longrightarrow> i64 x = x"
  by (simp add: i64_def in_i64_def)

lemma in_i64_i64 [simp]: "in_i64 (i64 x)"
proof -
  have "0 \<le> (x + 2 ^ 63) mod 2 ^ 64" and "(x + 2 ^ 63) mod 2 ^ 64 < (2 ^ 64 :: int)"
    by simp_all
  then show ?thesis by (simp add: i64_def in_i64_def)
qed

lemma i64_bounds: "- (2 ^ 63) \<le> i64 x" "i64 x < 2 ^ 63"
  using in_i64_i64 [of x] by (simp_all add: in_i64_def)

lemma i64_idem [simp]: "i64 (i64 x) = i64 x"
  by simp

subsection \<open>Lists\<close>

lemma dropWhile_all: "list_all P xs \<Longrightarrow> dropWhile P xs = []"
  by (induction xs) auto

lemma dropWhile_none: "list_all (\<lambda>x. \<not> P x) xs \<Longrightarrow> dropWhile P xs = xs"
  by (cases xs) auto

lemma dropWhile_map': "dropWhile P (map f xs) = map f (dropWhile (P \<circ> f) xs)"
  by (induction xs) auto

lemma list_all_rev [simp]: "list_all P (rev xs) = list_all P xs"
  by (simp add: list_all_iff)

lemma takeWhile_all: "list_all P xs \<Longrightarrow> takeWhile P xs = xs"
  by (induction xs) auto

lemma list_all_append_iff: "list_all P (xs @ ys) \<longleftrightarrow> list_all P xs \<and> list_all P ys"
  by (rule list_all_append)

lemma last_in_list_all: "list_all P xs \<Longrightarrow> xs \<noteq> [] \<Longrightarrow> P (last xs)"
  by (auto simp: list_all_iff)

end
