(* ===== verification/Go_Strings.thy ===== *)
theory Go_Strings
  imports Go_Unicode
begin

text \<open>
  Go strings as byte lists, with the operations of the packages \<^verbatim>\<open>strings\<close>, \<^verbatim>\<open>unicode/utf8\<close> and
  \<^verbatim>\<open>strconv\<close> that the program calls. \<open>runes\<close> is what a Go \<open>range\<close> loop over a string sees:
  the code points with the bytes they were read from; a byte that starts no valid UTF-8
  sequence is read as U+FFFD (65533) and is one byte wide.
\<close>

definition byte :: "char \<Rightarrow> nat" where
  "byte c = of_char c"

definition is_ascii :: "char \<Rightarrow> bool" where
  "is_ascii c \<longleftrightarrow> byte c < 128"

definition chr :: "nat \<Rightarrow> char" where
  "chr n = char_of n"

lemma byte_less [simp]: "byte c < 256"
  by (simp add: byte_def)

lemma chr_byte [simp]: "chr (byte c) = c"
  by (simp add: chr_def byte_def)

lemma byte_chr [simp]: "n < 256 \<Longrightarrow> byte (chr n) = n"
  by (simp add: chr_def byte_def)

lemma byte_inject [simp]: "byte c = byte d \<longleftrightarrow> c = d"
  by (metis chr_byte)

subsection \<open>UTF-8\<close>

definition cont_byte :: "char \<Rightarrow> bool" where
  "cont_byte c \<longleftrightarrow> 128 \<le> byte c \<and> byte c < 192"

definition rune_error :: rune where
  "rune_error = 65533"

text \<open>
  \<^verbatim>\<open>utf8.DecodeRuneInString\<close>: the rune and its width. The second byte of a three or four byte
  sequence has a narrower range after E0, ED, F0 and F4 (no overlong forms, no surrogates,
  nothing above U+10FFFF).
\<close>

definition second_ok :: "nat \<Rightarrow> char \<Rightarrow> bool" where
  "second_ok b c \<longleftrightarrow>
     (if b = 224 then 160 \<le> byte c else if b = 240 then 144 \<le> byte c else 128 \<le> byte c)
     \<and> (if b = 237 then byte c < 160 else if b = 244 then byte c < 144 else byte c < 192)"

definition low6 :: "char \<Rightarrow> nat" where
  "low6 c = byte c - 128"

fun decode_rune :: "string \<Rightarrow> rune \<times> nat" where
  "decode_rune [] = (rune_error, 0)"
| "decode_rune (c # cs) =
     (let b = byte c in
      if b < 128 then (b, 1)
      else if 194 \<le> b \<and> b \<le> 223 then
        (case cs of
           c1 # _ \<Rightarrow> if cont_byte c1 then ((b - 192) * 64 + low6 c1, 2) else (rune_error, 1)
         | _ \<Rightarrow> (rune_error, 1))
      else if 224 \<le> b \<and> b \<le> 239 then
        (case cs of
           c1 # c2 # _ \<Rightarrow>
             if second_ok b c1 \<and> cont_byte c2
             then ((b - 224) * 4096 + low6 c1 * 64 + low6 c2, 3) else (rune_error, 1)
         | _ \<Rightarrow> (rune_error, 1))
      else if 240 \<le> b \<and> b \<le> 244 then
        (case cs of
           c1 # c2 # c3 # _ \<Rightarrow>
             if second_ok b c1 \<and> cont_byte c2 \<and> cont_byte c3
             then ((b - 240) * 262144 + low6 c1 * 4096 + low6 c2 * 64 + low6 c3, 4)
             else (rune_error, 1)
         | _ \<Rightarrow> (rune_error, 1))
      else (rune_error, 1))"

text \<open>\<^verbatim>\<open>utf8.AppendRune\<close>: surrogates and numbers beyond U+10FFFF are written as U+FFFD.\<close>

definition encode_rune :: "rune \<Rightarrow> string" where
  "encode_rune r =
     (let r = (if 55296 \<le> r \<and> r \<le> 57343 \<or> 1114111 < r then rune_error else r) in
      if r < 128 then [chr r]
      else if r < 2048 then [chr (192 + r div 64), chr (128 + r mod 64)]
      else if r < 65536 then
        [chr (224 + r div 4096), chr (128 + r div 64 mod 64), chr (128 + r mod 64)]
      else
        [chr (240 + r div 262144), chr (128 + r div 4096 mod 64),
         chr (128 + r div 64 mod 64), chr (128 + r mod 64)])"

function runes :: "string \<Rightarrow> (rune \<times> string) list" where
  "runes [] = []"
| "runes (c # cs) =
     (let (r, w) = decode_rune (c # cs)
      in (r, c # take (w - 1) cs) # runes (drop (w - 1) cs))"
  by pat_completeness auto
termination
  by (relation "measure length") auto

declare decode_rune.simps(2) [simp del] and runes.simps(2) [simp del]

lemma concat_runes: "concat (map snd (runes s)) = s"
proof (induction s rule: runes.induct)
  case 1
  show ?case by simp
next
  case (2 c cs)
  obtain r w where d: "decode_rune (c # cs) = (r, w)"
    by (cases "decode_rune (c # cs)")
  have "concat (map snd (runes (drop (w - 1) cs))) = drop (w - 1) cs"
    using 2 [OF d [symmetric] refl] .
  then show ?case
    by (simp add: runes.simps(2) d)
qed

lemma runes_eq_Nil [simp]: "runes s = [] \<longleftrightarrow> s = []"
  by (cases s) (auto simp: runes.simps(2) split: prod.splits)

lemma decode_rune_ascii: "is_ascii c \<Longrightarrow> decode_rune (c # cs) = (byte c, 1)"
  by (simp add: is_ascii_def decode_rune.simps(2))

lemma runes_Cons_ascii [go_string]: "is_ascii c \<Longrightarrow> runes (c # cs) = (byte c, [c]) # runes cs"
  by (simp add: runes.simps(2) decode_rune_ascii)

lemma runes_ascii: "list_all is_ascii s \<Longrightarrow> runes s = map (\<lambda>c. (byte c, [c])) s"
  by (induction s) (simp_all add: runes_Cons_ascii)

lemma decode_rune_nonascii: "\<not> is_ascii c \<Longrightarrow> 128 \<le> fst (decode_rune (c # cs))"
  by (auto simp: decode_rune.simps(2) Let_def is_ascii_def rune_error_def second_ok_def low6_def
      split: list.splits if_splits)

lemma runes_all_ascii_iff: "list_all (\<lambda>p. fst p < 128) (runes s) \<longleftrightarrow> list_all is_ascii s"
proof
  assume "list_all (\<lambda>p. fst p < 128) (runes s)"
  then show "list_all is_ascii s"
  proof (induction s)
    case (Cons c cs)
    have "is_ascii c"
      using Cons.prems decode_rune_nonascii [of c cs]
      by (cases "is_ascii c") (auto simp: runes.simps(2) split: prod.splits)
    with Cons show ?case by (simp add: runes_Cons_ascii)
  qed simp
next
  assume "list_all is_ascii s"
  then show "list_all (\<lambda>p. fst p < 128) (runes s)"
    by (simp add: runes_ascii list_all_iff is_ascii_def)
qed

lemma decode_rune_chunk:
  assumes "decode_rune (c # cs) = (r, w)"
  shows "(is_ascii c \<and> r = byte c \<and> w = 1) \<or>
    (128 \<le> r \<and> 1 \<le> w \<and> w - 1 \<le> length cs \<and> (\<forall>d \<in> set (c # take (w - 1) cs). \<not> is_ascii d))"
proof (cases "is_ascii c")
  case True
  with assms show ?thesis by (simp add: decode_rune_ascii)
next
  case False
  then have "128 \<le> r"
    using decode_rune_nonascii [of c cs] assms by simp
  with False assms show ?thesis
    by (auto simp: decode_rune.simps(2) Let_def is_ascii_def second_ok_def cont_byte_def
        split: list.splits if_splits)
qed

lemma runes_chunk:
  "(r, bs) \<in> set (runes s) \<Longrightarrow>
     (\<exists>c. bs = [c] \<and> is_ascii c \<and> r = byte c) \<or>
     (128 \<le> r \<and> bs \<noteq> [] \<and> (\<forall>d \<in> set bs. \<not> is_ascii d))"
proof (induction s rule: runes.induct)
  case 1
  then show ?case by simp
next
  case (2 c cs)
  obtain r' w where d: "decode_rune (c # cs) = (r', w)"
    by (cases "decode_rune (c # cs)")
  from 2(2) consider "(r, bs) = (r', c # take (w - 1) cs)" | "(r, bs) \<in> set (runes (drop (w - 1) cs))"
    by (auto simp: runes.simps(2) d)
  then show ?case
  proof cases
    case 1
    with decode_rune_chunk [OF d] show ?thesis by auto
  next
    case 2
    with "2.IH" [OF d [symmetric] refl] show ?thesis by simp
  qed
qed


lemma base64_digits:
  fixes a b c d :: nat
  assumes "b < 64" "c < 64" "d < 64"
  shows "(a * 64 + b) div 64 = a" "(a * 64 + b) mod 64 = b"
    "(a * 4096 + b * 64 + c) div 4096 = a" "(a * 4096 + b * 64 + c) div 64 mod 64 = b"
    "(a * 4096 + b * 64 + c) mod 64 = c"
    "(a * 262144 + b * 4096 + c * 64 + d) div 262144 = a"
    "(a * 262144 + b * 4096 + c * 64 + d) div 4096 mod 64 = b"
    "(a * 262144 + b * 4096 + c * 64 + d) div 64 mod 64 = c"
    "(a * 262144 + b * 4096 + c * 64 + d) mod 64 = d"
proof -
  have one: "(n * 64 + k) div 64 = n" "(n * 64 + k) mod 64 = k" if "k < 64" for n k :: nat
    using that by simp_all
  have d2: "n div 4096 = n div 64 div 64" and d3: "n div 262144 = n div 64 div 64 div 64" for n :: nat
    by (simp_all add: div_mult2_eq [symmetric])
  have r3: "a * 4096 + b * 64 + c = (a * 64 + b) * 64 + c"
    and r4: "a * 262144 + b * 4096 + c * 64 + d = ((a * 64 + b) * 64 + c) * 64 + d"
    by simp_all
  show "(a * 64 + b) div 64 = a" "(a * 64 + b) mod 64 = b"
    using one assms by blast+
  show "(a * 4096 + b * 64 + c) div 4096 = a" "(a * 4096 + b * 64 + c) div 64 mod 64 = b"
    "(a * 4096 + b * 64 + c) mod 64 = c"
    unfolding r3 d2 using assms by (simp_all only: one)
  show "(a * 262144 + b * 4096 + c * 64 + d) div 262144 = a"
    "(a * 262144 + b * 4096 + c * 64 + d) div 4096 mod 64 = b"
    "(a * 262144 + b * 4096 + c * 64 + d) div 64 mod 64 = c"
    "(a * 262144 + b * 4096 + c * 64 + d) mod 64 = d"
    unfolding r4 d2 d3 using assms by (simp_all only: one)
qed

lemma encode_decode_rune:
  assumes d: "decode_rune (c # cs) = (r, w)" and good: "\<not> (r = rune_error \<and> w = 1)"
  shows "encode_rune r = c # take (w - 1) cs"
proof -
  have byteI: "chr n = d" if "n = byte d" for n d
    using that by simp
  consider (one) "is_ascii c" "r = byte c" "w = 1"
    | (two) c1 rest where "cs = c1 # rest" "194 \<le> byte c" "byte c \<le> 223" "cont_byte c1"
        "r = (byte c - 192) * 64 + low6 c1" "w = 2"
    | (three) c1 c2 rest where "cs = c1 # c2 # rest" "224 \<le> byte c" "byte c \<le> 239"
        "second_ok (byte c) c1" "cont_byte c2"
        "r = (byte c - 224) * 4096 + low6 c1 * 64 + low6 c2" "w = 3"
    | (four) c1 c2 c3 rest where "cs = c1 # c2 # c3 # rest" "240 \<le> byte c" "byte c \<le> 244"
        "second_ok (byte c) c1" "cont_byte c2" "cont_byte c3"
        "r = (byte c - 240) * 262144 + low6 c1 * 4096 + low6 c2 * 64 + low6 c3" "w = 4"
    using d good
    by (auto simp: decode_rune.simps(2) Let_def is_ascii_def split: list.splits if_splits)
  then show ?thesis
  proof cases
    case one
    then show ?thesis by (simp add: encode_rune_def is_ascii_def)
  next
    case two
    define b x where "b = byte c - 192" and "x = low6 c1"
    have "byte c = 192 + b" "byte c1 = 128 + x" "2 \<le> b" "b < 32" "x < 64" "r = b * 64 + x"
      using two by (auto simp: b_def x_def low6_def cont_byte_def)
    moreover from this have "r div 64 = b" "r mod 64 = x" "128 \<le> r" "r < 2048" by auto
    ultimately show ?thesis
      using two by (auto simp: encode_rune_def intro!: byteI)
  next
    case three
    define b x y where "b = byte c - 224" and "x = low6 c1" and "y = low6 c2"
    have bytes: "byte c = 224 + b" "byte c1 = 128 + x" "byte c2 = 128 + y" "b < 16" "x < 64" "y < 64"
      "b = 0 \<longrightarrow> 32 \<le> x" "b = 13 \<longrightarrow> x < 32" "r = b * 4096 + x * 64 + y"
      using three by (auto simp: b_def x_def y_def low6_def cont_byte_def second_ok_def split: if_splits)
    have "r div 4096 = b" "r div 64 mod 64 = x" "r mod 64 = y"
      using bytes base64_digits by simp_all
    moreover have "2048 \<le> r" "r < 65536"
      using bytes by (cases "b = 0"; simp)+
    moreover have "\<not> (55296 \<le> r \<and> r \<le> 57343)"
      using bytes by (cases "b < 13"; cases "b = 13"; simp)
    ultimately have r: "r div 4096 = b" "r div 64 mod 64 = x" "r mod 64 = y" "2048 \<le> r" "r < 65536"
      "\<not> (55296 \<le> r \<and> r \<le> 57343)"
      by blast+
    then show ?thesis
      using three(1,7) by (auto simp: encode_rune_def Let_def bytes(1-3) [symmetric])
  next
    case four
    define b x y z where "b = byte c - 240" and "x = low6 c1" and "y = low6 c2" and "z = low6 c3"
    have bytes: "byte c = 240 + b" "byte c1 = 128 + x" "byte c2 = 128 + y" "byte c3 = 128 + z"
      "b < 5" "x < 64" "y < 64" "z < 64" "b = 0 \<longrightarrow> 16 \<le> x" "b = 4 \<longrightarrow> x < 16"
      "r = b * 262144 + x * 4096 + y * 64 + z"
      using four by (auto simp: b_def x_def y_def z_def low6_def cont_byte_def second_ok_def split: if_splits)
    have "r div 262144 = b" "r div 4096 mod 64 = x" "r div 64 mod 64 = y" "r mod 64 = z"
      using bytes base64_digits by simp_all
    moreover have "65536 \<le> r"
      using bytes by (cases "b = 0"; simp)
    moreover have "r \<le> 1114111"
      using bytes by (cases "b = 4"; simp)
    ultimately have r: "r div 262144 = b" "r div 4096 mod 64 = x" "r div 64 mod 64 = y" "r mod 64 = z"
      "65536 \<le> r" "r \<le> 1114111"
      by blast+
    then show ?thesis
      using four(1,8) by (simp add: encode_rune_def Let_def bytes(1-4) [symmetric])
  qed
qed

subsection \<open>Trimming and case\<close>

text \<open>\<^verbatim>\<open>strings.TrimSpace\<close>: Unicode white space is removed at both ends.\<close>

definition trim_space :: "string \<Rightarrow> string" where
  "trim_space s =
     (let sp = (\<lambda>p. rune_space (fst p))
      in concat (map snd (rev (dropWhile sp (rev (dropWhile sp (runes s)))))))"

text \<open>\<^verbatim>\<open>strings.ToLower\<close>: an ASCII string is mapped byte by byte, any other rune by rune.\<close>

definition ascii_lower :: "char \<Rightarrow> char" where
  "ascii_lower c = (if 65 \<le> byte c \<and> byte c \<le> 90 then chr (byte c + 32) else c)"

definition to_lower :: "string \<Rightarrow> string" where
  "to_lower s =
     (if list_all is_ascii s then map ascii_lower s
      else concat (map (\<lambda>p. encode_rune (rune_lower (fst p))) (runes s)))"

definition ascii_space :: "char \<Rightarrow> bool" where
  "ascii_space c \<longleftrightarrow> 9 \<le> byte c \<and> byte c \<le> 13 \<or> byte c = 32"

lemma rune_space_ascii: "is_ascii c \<Longrightarrow> rune_space (byte c) = ascii_space c"
  by (auto simp: is_ascii_def rune_space_def ascii_space_def)

definition trim_ascii :: "string \<Rightarrow> string" where
  "trim_ascii s = rev (dropWhile ascii_space (rev (dropWhile ascii_space s)))"

lemma dropWhile_space_ascii:
  "list_all is_ascii t \<Longrightarrow>
    dropWhile (\<lambda>p. rune_space (fst p)) (map (\<lambda>c. (byte c, [c])) t)
    = map (\<lambda>c. (byte c, [c])) (dropWhile ascii_space t)"
  by (induction t) (simp_all add: rune_space_ascii)

lemma list_all_dropWhile: "list_all P xs \<Longrightarrow> list_all P (dropWhile Q xs)"
  by (induction xs) auto

lemma concat_singletons: "concat (map (\<lambda>x. [x]) xs) = xs"
  by (induction xs) auto

lemma trim_space_ascii:
  "list_all is_ascii s \<Longrightarrow> trim_space s = trim_ascii s"
  by (simp add: trim_space_def trim_ascii_def runes_ascii dropWhile_space_ascii list_all_dropWhile
      rev_map comp_def concat_singletons)

lemma trim_space_Nil [simp]: "trim_space [] = []"
  by (simp add: trim_space_def)

lemma trim_space_nonempty: "trim_space s \<noteq> [] \<Longrightarrow> s \<noteq> []"
  by auto

lemma trim_ascii_id:
  assumes "list_all (\<lambda>c. \<not> ascii_space c) s"
  shows "trim_ascii s = s"
  using assms by (simp add: trim_ascii_def dropWhile_none)

lemma runes_append_ascii: "list_all is_ascii p \<Longrightarrow> runes (p @ s) = map (\<lambda>c. (byte c, [c])) p @ runes s"
  by (induction p) (simp_all add: runes_Cons_ascii)

lemma runes_snd_nonempty: "p \<in> set (runes s) \<Longrightarrow> snd p \<noteq> []"
  by (induction s rule: runes.induct) (auto simp: runes.simps(2) split: prod.splits)

text \<open>A trimmed string keeps its end when an ASCII prefix that does not begin with a space is put before it.\<close>

lemma trim_space_prefix:
  assumes "trim_space s = s" "s \<noteq> ''''" "list_all is_ascii (c # p)" "\<not> ascii_space c"
  shows "trim_space ((c # p) @ s) = (c # p) @ s"
proof -
  define sp where "sp = (\<lambda>q :: rune \<times> string. rune_space (fst q))"
  define l where "l = dropWhile sp (runes s)"
  have ts: "trim_space s = concat (map snd (rev (dropWhile sp (rev l))))"
    by (simp add: trim_space_def sp_def l_def Let_def)
  define n where "n = (\<lambda>qs :: (rune \<times> string) list. sum_list (map (length \<circ> snd) qs))"
  have n: "n qs = length (concat (map snd qs))" for qs by (simp add: n_def length_concat comp_def)
  have ap: "n (a @ b) = n a + n b" "n (rev a) = n a" for a b
    by (simp_all add: n_def sum_list_rev rev_map [symmetric])
  have ne: "n qs = 0 \<Longrightarrow> qs = []" if "set qs \<subseteq> set (runes s)" for qs
    using that by (cases qs) (auto simp: n_def dest: runes_snd_nonempty)
  have split: "n (takeWhile sp (rev l)) + n (dropWhile sp (rev l)) = n l" for l
    by (metis ap takeWhile_dropWhile_id)
  have split2: "n (takeWhile sp (runes s)) + n l = n (runes s)"
    unfolding l_def by (metis ap(1) takeWhile_dropWhile_id)
  have "n (rev (dropWhile sp (rev l))) = n (runes s)"
    using assms(1) ts by (simp only: n concat_runes)
  then have "n (dropWhile sp (rev l)) = n (runes s)" by (simp only: ap(2))
  with split [of l] split2 have z: "n (takeWhile sp (runes s)) = 0" "n (takeWhile sp (rev l)) = 0" by simp_all
  from ne [OF _ z(1)] have "takeWhile sp (runes s) = []" by (auto dest: set_takeWhileD)
  then have l: "l = runes s" unfolding l_def by (metis append_Nil takeWhile_dropWhile_id)
  from ne [OF _ z(2)] have "takeWhile sp (rev (runes s)) = []" unfolding l
    by (metis set_rev set_takeWhileD subsetI)
  moreover have "rev (runes s) \<noteq> []" using assms(2) by simp
  ultimately have last: "dropWhile sp (rev (runes s) @ xs) = rev (runes s) @ xs" for xs
    by (cases "rev (runes s)") (auto split: if_splits)
  have "is_ascii c" using assms(3) by simp
  then have front: "dropWhile sp (map (\<lambda>c. (byte c, [c])) (c # p) @ xs) = map (\<lambda>c. (byte c, [c])) (c # p) @ xs" for xs
    using assms(4) by (simp add: sp_def rune_space_ascii)
  show ?thesis
    unfolding trim_space_def Let_def sp_def [symmetric] runes_append_ascii [OF assms(3)] front rev_append last
    by (simp add: rev_map concat_runes comp_def concat_singletons)
qed

text \<open>How a rune is decoded depends only on its own bytes, and a cut does not repair an invalid one.\<close>

lemma decode_rune_local:
  assumes "decode_rune (c # cs) = (r, w)" "\<not> (r = rune_error \<and> w = 1)"
  shows "decode_rune (c # take (w - 1) cs @ rest) = (r, w)"
proof (cases "128 \<le> byte c")
  case False
  with assms(1) show ?thesis by (auto simp: decode_rune.simps(2))
next
  case c: True
  note [split del] = if_split
  consider "cs = []" | c1 where "cs = [c1]" | c1 c2 where "cs = [c1, c2]" | c1 c2 c3 cs' where "cs = c1 # c2 # c3 # cs'"
    by (metis list.exhaust)
  then show ?thesis
    using assms c
    by cases (simp_all add: decode_rune.simps(2) Let_def split: if_split_asm)
qed

lemma decode_rune_cut:
  assumes "decode_rune (c # cs @ ds) = (rune_error, 1)"
  shows "decode_rune (c # cs) = (rune_error, 1)"
proof -
  consider "byte c < 128" | "128 \<le> byte c \<and> byte c < 194 \<or> 244 < byte c" | "194 \<le> byte c" "byte c \<le> 223"
    | "224 \<le> byte c" "byte c \<le> 239" | "240 \<le> byte c" "byte c \<le> 244" by linarith
  then show ?thesis
  proof cases
    case 1
    with assms show ?thesis by (simp add: decode_rune.simps(2))
  next
    case 2
    then show ?thesis by (auto simp: decode_rune.simps(2) Let_def)
  next
    case 3
    with assms show ?thesis by (cases cs) (simp_all add: decode_rune.simps(2) Let_def split: if_splits)
  next
    case 4
    with assms show ?thesis
      by (cases cs; cases "tl cs") (simp_all add: decode_rune.simps(2) Let_def split: if_splits)
  next
    case 5
    with assms show ?thesis
      by (cases cs; cases "tl cs"; cases "tl (tl cs)") (simp_all add: decode_rune.simps(2) Let_def split: if_splits)
  qed
qed

lemma runes_suffix: "runes s = xs @ ys \<Longrightarrow> runes (concat (map snd ys)) = ys"
proof (induction s arbitrary: xs rule: runes.induct)
  case (2 c cs)
  obtain r w where d: "decode_rune (c # cs) = (r, w)" by (cases "decode_rune (c # cs)")
  show ?case
  proof (cases xs)
    case Nil
    with 2 show ?thesis using concat_runes [of "c # cs"] by simp
  next
    case (Cons x xs')
    with 2(2) have "runes (drop (w - 1) cs) = xs' @ ys" by (simp add: runes.simps(2) d)
    with 2(1) [OF d [symmetric] refl] show ?thesis by blast
  qed
qed simp

lemma runes_prefix: "runes s = xs @ ys \<Longrightarrow> runes (concat (map snd xs)) = xs"
proof (induction s arbitrary: xs rule: runes.induct)
  case (2 c cs)
  obtain r w where d: "decode_rune (c # cs) = (r, w)" by (cases "decode_rune (c # cs)")
  show ?case
  proof (cases xs)
    case (Cons x xs')
    with 2(2) have x: "x = (r, c # take (w - 1) cs)" and rest: "runes (drop (w - 1) cs) = xs' @ ys"
      by (simp_all add: runes.simps(2) d)
    let ?t = "concat (map snd xs')"
    have ih: "runes ?t = xs'" using 2(1) [OF d [symmetric] refl rest] .
    have tail: "drop (w - 1) cs = ?t @ concat (map snd ys)"
      using rest concat_runes [of "drop (w - 1) cs"] by simp
    then have cs: "cs = (take (w - 1) cs @ ?t) @ concat (map snd ys)" by (metis append.assoc append_take_drop_id)
    have len: "length (take (w - 1) cs) = w - 1"
      using decode_rune_chunk [OF d] by (auto simp: min_def)
    have "decode_rune (c # take (w - 1) cs @ ?t) = (r, w)"
    proof (cases "r = rune_error \<and> w = 1")
      case True
      with d have "decode_rune (c # (take (w - 1) cs @ ?t) @ concat (map snd ys)) = (rune_error, 1)"
        using cs True by metis
      from decode_rune_cut [OF this] True show ?thesis by simp
    next
      case False
      with decode_rune_local [OF d] show ?thesis by blast
    qed
    with len ih show ?thesis by (simp add: Cons x runes.simps(2))
  qed simp
qed simp

lemma trim_space_idem: "trim_space (trim_space s) = trim_space s"
proof -
  define sp where "sp = (\<lambda>p :: rune \<times> string. rune_space (fst p))"
  define l where "l = dropWhile sp (runes s)"
  define m where "m = rev (dropWhile sp (rev l))"
  have t: "trim_space u = concat (map snd (rev (dropWhile sp (rev (dropWhile sp (runes u))))))" for u
    by (simp add: trim_space_def sp_def Let_def)
  have "runes s = takeWhile sp (runes s) @ l" by (simp add: l_def)
  from runes_suffix [OF this] have l: "runes (concat (map snd l)) = l" .
  have ml: "l = m @ rev (takeWhile sp (rev l))"
    unfolding m_def by (metis rev_append rev_rev_ident takeWhile_dropWhile_id)
  have m: "runes (concat (map snd m)) = m"
    using runes_prefix [of "concat (map snd l)" m] l ml by metis
  have "dropWhile sp m = m"
  proof (cases m)
    case (Cons p ps)
    with ml have "\<exists>qs. l = p # qs" by auto
    then have "\<not> sp p" unfolding l_def by (metis dropWhile_eq_Cons_conv)
    with Cons show ?thesis by simp
  qed simp
  moreover have "rev (dropWhile sp (rev m)) = m" by (simp add: m_def)
  ultimately have "trim_space (concat (map snd m)) = concat (map snd m)" by (simp add: t m)
  then show ?thesis by (simp add: t [of s] m_def l_def)
qed

subsection \<open>Searching and splitting\<close>

text \<open>\<^verbatim>\<open>strings.Contains\<close>, \<^verbatim>\<open>strings.HasPrefix\<close>, \<^verbatim>\<open>strings.TrimSuffix\<close>, \<^verbatim>\<open>strings.Split\<close> and
  \<^verbatim>\<open>strings.Cut\<close> at a single byte.\<close>

fun contains :: "string \<Rightarrow> string \<Rightarrow> bool" where
  "contains [] t = (t = [])"
| "contains (c # cs) t = (prefix t (c # cs) \<or> contains cs t)"

definition has_prefix :: "string \<Rightarrow> string \<Rightarrow> bool" where
  "has_prefix s p = prefix p s"

definition trim_suffix :: "string \<Rightarrow> string \<Rightarrow> string" where
  "trim_suffix s t = (if suffix t s then take (length s - length t) s else s)"

fun split_on :: "char \<Rightarrow> string \<Rightarrow> string list" where
  "split_on d [] = [[]]"
| "split_on d (c # cs) =
     (if c = d then [] # split_on d cs
      else (case split_on d cs of [] \<Rightarrow> [[c]] | p # ps \<Rightarrow> (c # p) # ps))"

fun cut :: "char \<Rightarrow> string \<Rightarrow> string \<times> string" where
  "cut d [] = ([], [])"
| "cut d (c # cs) = (if c = d then ([], cs) else (let (a, b) = cut d cs in (c # a, b)))"

fun join_with :: "char \<Rightarrow> string list \<Rightarrow> string" where
  "join_with d [] = []"
| "join_with d [p] = p"
| "join_with d (p # q # ps) = p @ d # join_with d (q # ps)"

lemma split_on_not_Nil [simp]: "split_on d s \<noteq> []"
  by (cases s) (auto split: list.splits)

lemma split_on_no_sep: "d \<notin> set s \<Longrightarrow> split_on d s = [s]"
  by (induction s) auto

lemma split_on_append_sep:
  "split_on d (a @ d # b) = split_on d a @ split_on d b"
  by (induction a) (auto split: list.splits)

lemma join_split_on: "join_with d (split_on d s) = s"
proof (induction s)
  case Nil
  show ?case by simp
next
  case (Cons c cs)
  obtain p ps where p: "split_on d cs = p # ps"
    using split_on_not_Nil [of d cs] by (meson neq_Nil_conv)
  with Cons show ?case
    by (cases ps) auto
qed

lemma split_on_parts: "p \<in> set (split_on d s) \<Longrightarrow> d \<notin> set p"
proof (induction s arbitrary: p)
  case Nil
  then show ?case by simp
next
  case (Cons c cs)
  then show ?case by (fastforce split: if_splits list.splits)
qed

lemma split_on_join:
  "ps \<noteq> [] \<Longrightarrow> \<forall>p \<in> set ps. d \<notin> set p \<Longrightarrow> split_on d (join_with d ps) = ps"
  by (induction d ps rule: join_with.induct) (auto simp: split_on_no_sep split_on_append_sep)

lemma join_with_append:
  "ps \<noteq> [] \<Longrightarrow> qs \<noteq> [] \<Longrightarrow> join_with d (ps @ qs) = join_with d ps @ d # join_with d qs"
  by (induction d ps rule: join_with.induct) (auto simp: neq_Nil_conv)

lemma cut_absent: "d \<notin> set s \<Longrightarrow> cut d s = (s, [])"
  by (induction s) auto

lemma cut_present: "d \<notin> set a \<Longrightarrow> cut d (a @ d # b) = (a, b)"
  by (induction a) auto

subsection \<open>Decimal numbers\<close>

text \<open>\<^verbatim>\<open>strconv.Itoa\<close> (and \<open>%d\<close>) on non-negative and negative numbers.\<close>

fun nat_digits :: "nat \<Rightarrow> string" where
  "nat_digits n = (if n < 10 then [chr (48 + n)] else nat_digits (n div 10) @ [chr (48 + n mod 10)])"

declare nat_digits.simps [simp del]

definition itoa :: "int \<Rightarrow> string" where
  "itoa i = (if i < 0 then CHR ''-'' # nat_digits (nat (- i)) else nat_digits (nat i))"

definition is_digit :: "char \<Rightarrow> bool" where
  "is_digit c \<longleftrightarrow> 48 \<le> byte c \<and> byte c \<le> 57"

definition digits_val :: "string \<Rightarrow> nat" where
  "digits_val s = foldl (\<lambda>v c. 10 * v + (byte c - 48)) 0 s"

lemma nat_digits_not_Nil [simp]: "nat_digits n \<noteq> []"
  by (subst nat_digits.simps) simp

lemma mod_10_le_9: "(n :: nat) mod 10 \<le> 9"
  using mod_less_divisor [of 10 n] by linarith

lemma nat_digits_digits: "list_all is_digit (nat_digits n)"
proof (induction n rule: nat_digits.induct)
  case (1 n)
  then show ?case
    by (subst nat_digits.simps) (simp add: is_digit_def [of "chr _"] mod_10_le_9)
qed

lemma digits_val_snoc: "digits_val (s @ [c]) = 10 * digits_val s + (byte c - 48)"
  by (simp add: digits_val_def)

lemma digits_val_nat_digits: "digits_val (nat_digits n) = n"
proof (induction n rule: nat_digits.induct)
  case (1 n)
  show ?case
  proof (cases "n < 10")
    case True
    then show ?thesis by (subst nat_digits.simps) (simp add: digits_val_def)
  next
    case False
    with 1 have "digits_val (nat_digits (n div 10)) = n div 10" by simp
    moreover have "byte (chr (48 + n mod 10)) = 48 + n mod 10"
      by (rule byte_chr) (use mod_10_le_9 [of n] in linarith)
    ultimately show ?thesis
      using False by (subst nat_digits.simps) (simp add: digits_val_snoc)
  qed
qed

subsection \<open>Evaluation on literals\<close>

text \<open>Bundles that let the simplifier compute the operations above on closed strings.\<close>

lemmas chr_eval = chr_def char_of_def bit_Suc_0_iff

lemmas string_eval = trim_space_ascii trim_ascii_def ascii_space_def is_ascii_def byte_def
  to_lower_def ascii_lower_def trim_suffix_def suffix_to_prefix has_prefix_def chr_eval

lemmas rune_eval = runes.simps decode_rune.simps cont_byte_def second_ok_def low6_def byte_def
  encode_rune_def is_ascii_def chr_eval

lemma contains_split: "contains (a @ t @ b) t"
proof (induction a)
  case Nil
  then show ?case by (cases t; cases b) auto
next
  case (Cons c a)
  then show ?case by simp
qed

lemma contains_decomp: "contains s t \<Longrightarrow> \<exists>a b. s = a @ t @ b"
proof (induction s t rule: contains.induct)
  case (1 t)
  then show ?case by simp
next
  case (2 c cs t)
  show ?case
  proof (cases "prefix t (c # cs)")
    case True
    then obtain b where "c # cs = t @ b" by (auto elim: prefixE)
    then have "c # cs = [] @ t @ b" by simp
    then show ?thesis by blast
  next
    case False
    with 2 obtain a b where "cs = a @ t @ b" by auto
    then have "c # cs = (c # a) @ t @ b" by simp
    then show ?thesis by blast
  qed
qed

end
