(* ===== verification/Go_URL.thy ===== *)
theory Go_URL
  imports Go_Strings
begin

text \<open>
  The part of Go's package \<^verbatim>\<open>net/url\<close> that the host pin relies on: \<^verbatim>\<open>url.Parse\<close> up to the
  scheme and the host, with every way it can fail, and \<^verbatim>\<open>URL.Hostname\<close>. The other fields of a
  URL (path, query, fragment, user) only matter here in that malformed ones are errors.
  Bracketed hosts must hold an IPv6 address, so the validity check of \<^verbatim>\<open>netip.ParseAddr\<close> is
  modelled too. The rules are those of the toolchain the module requires (go1.26), among them
  that a host without brackets holds at most one colon and that a bracket opens the host.
\<close>

record url =
  u_Scheme :: string
  u_Host :: string

subsection \<open>Character classes\<close>

definition is_letter :: "char \<Rightarrow> bool" where
  "is_letter c \<longleftrightarrow> 65 \<le> byte c \<and> byte c \<le> 90 \<or> 97 \<le> byte c \<and> byte c \<le> 122"

definition is_alnum :: "char \<Rightarrow> bool" where
  "is_alnum c \<longleftrightarrow> is_letter c \<or> is_digit c"

definition is_ctl :: "char \<Rightarrow> bool" where
  "is_ctl c \<longleftrightarrow> byte c < 32 \<or> byte c = 127"

definition is_hex :: "char \<Rightarrow> bool" where
  "is_hex c \<longleftrightarrow>
     is_digit c \<or> 97 \<le> byte c \<and> byte c \<le> 102 \<or> 65 \<le> byte c \<and> byte c \<le> 70"

definition unhex :: "char \<Rightarrow> nat" where
  "unhex c =
     (if is_digit c then byte c - 48
      else if 97 \<le> byte c \<and> byte c \<le> 102 then byte c - 87
      else if 65 \<le> byte c \<and> byte c \<le> 70 then byte c - 55 else 0)"

text \<open>The bytes \<^verbatim>\<open>shouldEscape\<close> leaves alone in a host or a zone: letters and digits,
  \<^verbatim>\<open>!$&'()*+,;=:[]<>"\<close> and the marks \<^verbatim>\<open>-_.~\<close>.\<close>

definition host_special :: string where
  "host_special = ''!$&'' @ [CHR 0x27] @ ''()*+,;=:[]<>'' @ [CHR 0x22]"

definition host_plain :: "char \<Rightarrow> bool" where
  "host_plain c \<longleftrightarrow> is_alnum c \<or> c \<in> set host_special \<or> c \<in> set ''-_.~''"

definition userinfo_special :: string where
  "userinfo_special = ''-._:~!$&'' @ [CHR 0x27] @ ''()*+,;=%@''"

definition valid_userinfo :: "string \<Rightarrow> bool" where
  "valid_userinfo s \<longleftrightarrow> list_all (\<lambda>c. is_alnum c \<or> c \<in> set userinfo_special) s"

definition valid_optional_port :: "string \<Rightarrow> bool" where
  "valid_optional_port s \<longleftrightarrow> (case s of [] \<Rightarrow> True | c # cs \<Rightarrow> c = CHR '':'' \<and> list_all is_digit cs)"

subsection \<open>Percent decoding\<close>

datatype encoding = EncodeHost | EncodeZone | EncodeOther

text \<open>
  \<^verbatim>\<open>unescape\<close>: in a host only bytes above ASCII and the percent sign itself may be escaped, and
  an ASCII byte that would need escaping is an error.
\<close>

definition pct_allowed :: "encoding \<Rightarrow> char \<Rightarrow> char \<Rightarrow> bool" where
  "pct_allowed m h l =
     (case m of
        EncodeHost \<Rightarrow> \<not> (unhex h < 8 \<and> [h, l] \<noteq> ''25'')
      | EncodeZone \<Rightarrow>
          (let v = chr (unhex h * 16 + unhex l)
           in [h, l] = ''25'' \<or> v = CHR '' '' \<or> host_plain v)
      | EncodeOther \<Rightarrow> True)"

fun unescape :: "encoding \<Rightarrow> string \<Rightarrow> string option" where
  "unescape m [] = Some []"
| "unescape m (c # cs) =
     (if c = CHR ''%'' then
        (case cs of
           h # l # rest \<Rightarrow>
             if is_hex h \<and> is_hex l \<and> pct_allowed m h l
             then map_option ((#) (chr (unhex h * 16 + unhex l))) (unescape m rest) else None
         | _ \<Rightarrow> None)
      else if m \<noteq> EncodeOther \<and> is_ascii c \<and> \<not> host_plain c then None
      else map_option ((#) c) (unescape m cs))"

subsection \<open>IPv6 literals\<close>

text \<open>\<^verbatim>\<open>parseIPv4Fields\<close>: four dotted decimal octets without leading zeros.\<close>

definition ip4_field :: "string \<Rightarrow> bool" where
  "ip4_field f \<longleftrightarrow> f \<noteq> [] \<and> list_all is_digit f \<and> (length f > 1 \<longrightarrow> hd f \<noteq> CHR ''0'')
     \<and> digits_val f \<le> 255"

definition ip4_fields :: "string \<Rightarrow> bool" where
  "ip4_fields s \<longleftrightarrow> length (split_on CHR ''.'' s) = 4 \<and> list_all ip4_field (split_on CHR ''.'' s)"

text \<open>
  The loop of \<^verbatim>\<open>parseIPv6\<close> with \<open>n\<close> groups of two bytes left, \<open>i\<close> bytes filled and \<open>e\<close> whether
  the ellipsis was seen. The result is the bytes filled, the ellipsis flag and what is left of
  the input.
\<close>

fun ip6_loop :: "nat \<Rightarrow> nat \<Rightarrow> bool \<Rightarrow> string \<Rightarrow> (nat \<times> bool \<times> string) option" where
  "ip6_loop 0 i e s = Some (i, e, s)"
| "ip6_loop (Suc n) i e s =
     (let off = length (takeWhile is_hex s); r = dropWhile is_hex s in
      if off = 0 \<or> 4 < off then None
      else (case r of
          [] \<Rightarrow> Some (i + 2, e, [])
        | c # r' \<Rightarrow>
            if c = CHR ''.'' then
              (if \<not> e \<and> i \<noteq> 12 \<or> 16 < i + 4 \<or> \<not> ip4_fields s then None else Some (i + 4, e, []))
            else if c \<noteq> CHR '':'' then None
            else (case r' of
                [] \<Rightarrow> None
              | c' # r'' \<Rightarrow>
                  if c' = CHR '':'' then
                    (if e then None
                     else if r'' = [] then Some (i + 2, True, [])
                     else ip6_loop n (i + 2) True r'')
                  else ip6_loop n (i + 2) e r')))"

definition ip6_body_ok :: "string \<Rightarrow> bool" where
  "ip6_body_ok s =
     (let (e, s') = (if prefix ''::'' s then (True, drop 2 s) else (False, s)) in
      if e \<and> s' = [] then True
      else (case ip6_loop 8 0 e s' of
          None \<Rightarrow> False
        | Some (i, e', rest) \<Rightarrow> rest = [] \<and> (if i < 16 then e' else \<not> e')))"

text \<open>
  \<^verbatim>\<open>netip.ParseAddr\<close> on a bracketed host: it must be an IPv6 address (the first of \<^verbatim>\<open>.\<close>, \<^verbatim>\<open>:\<close> and
  \<^verbatim>\<open>%\<close> is a colon), optionally with a non-empty zone after \<^verbatim>\<open>%\<close>.
\<close>

definition is_ip6_literal :: "string \<Rightarrow> bool" where
  "is_ip6_literal s =
     (case dropWhile (\<lambda>c. c \<notin> set ''.:%'') s of
        [] \<Rightarrow> False
      | c # _ \<Rightarrow>
          c = CHR '':'' \<and>
          (let (a, z) = cut CHR ''%'' s
           in (CHR ''%'' \<in> set s \<longrightarrow> z \<noteq> []) \<and> ip6_body_ok a))"

subsection \<open>Parsing\<close>

text \<open>\<^verbatim>\<open>strings.LastIndex\<close> at a byte: what stands before and after its last occurrence.\<close>

definition cut_last :: "char \<Rightarrow> string \<Rightarrow> (string \<times> string) option" where
  "cut_last d s =
     (if d \<in> set s then (let (a, b) = cut d (rev s) in Some (rev b, rev a)) else None)"

fun cut_at :: "string \<Rightarrow> string \<Rightarrow> (string \<times> string) option" where
  "cut_at t [] = (if t = [] then Some ([], []) else None)"
| "cut_at t (c # cs) =
     (if prefix t (c # cs) then Some ([], c # cs)
      else (case cut_at t cs of None \<Rightarrow> None | Some (a, b) \<Rightarrow> Some (c # a, b)))"

text \<open>\<^verbatim>\<open>getScheme\<close>: \<open>None\<close> for a leading colon, the empty scheme when there is none.\<close>

definition scheme_char :: "char \<Rightarrow> bool" where
  "scheme_char c \<longleftrightarrow> is_alnum c \<or> c \<in> set ''+-.''"

definition get_scheme :: "string \<Rightarrow> (string \<times> string) option" where
  "get_scheme s =
     (case dropWhile scheme_char s of
        c # r \<Rightarrow>
          if c = CHR '':'' then
            (case takeWhile scheme_char s of
               [] \<Rightarrow> None
             | p # ps \<Rightarrow> if is_letter p then Some (p # ps, r) else Some ([], s))
          else Some ([], s)
      | [] \<Rightarrow> Some ([], s))"

definition parse_bracket_host :: "string \<Rightarrow> string option" where
  "parse_bracket_host body =
     (case cut_last CHR '']'' body of
        None \<Rightarrow> None
      | Some (name, port) \<Rightarrow>
          if \<not> valid_optional_port port then None
          else
            (let plain =
               (case cut_at ''%25'' name of
                  None \<Rightarrow> unescape EncodeHost name
                | Some (h, z) \<Rightarrow>
                    (case (unescape EncodeHost h, unescape EncodeZone z) of
                       (Some h', Some z') \<Rightarrow> Some (h' @ z')
                     | _ \<Rightarrow> None))
             in (case (plain, unescape EncodeHost port) of
                   (Some h, Some p) \<Rightarrow>
                     if is_ip6_literal h then Some (''['' @ h @ '']'' @ p) else None
                 | _ \<Rightarrow> None)))"

definition parse_host :: "string \<Rightarrow> string option" where
  "parse_host h =
     (if CHR ''['' \<in> set h then
        (if prefix ''['' h \<and> CHR ''['' \<notin> set (tl h) then parse_bracket_host (tl h) else None)
      else if CHR '':'' \<in> set h \<and> \<not> valid_optional_port (dropWhile (\<lambda>c. c \<noteq> CHR '':'') h) then None
      else unescape EncodeHost h)"

definition parse_authority :: "string \<Rightarrow> string option" where
  "parse_authority a =
     (case cut_last CHR ''@'' a of
        None \<Rightarrow> parse_host a
      | Some (user, h) \<Rightarrow>
          (case parse_host h of
             None \<Rightarrow> None
           | Some h' \<Rightarrow>
               if valid_userinfo user
                  \<and> unescape EncodeOther (fst (cut CHR '':'' user)) \<noteq> None
                  \<and> unescape EncodeOther (snd (cut CHR '':'' user)) \<noteq> None
               then Some h' else None))"

definition parse_no_fragment :: "string \<Rightarrow> url option" where
  "parse_no_fragment raw =
     (if list_ex is_ctl raw then None
      else if raw = ''*'' then Some \<lparr>u_Scheme = '''', u_Host = ''''\<rparr>
      else (case get_scheme raw of
          None \<Rightarrow> None
        | Some (sch, r) \<Rightarrow>
            (let scheme = to_lower sch; rest = fst (cut CHR ''?'' r) in
             if \<not> prefix ''/'' rest \<and> scheme \<noteq> '''' then Some \<lparr>u_Scheme = scheme, u_Host = ''''\<rparr>
             else if \<not> prefix ''/'' rest \<and> CHR '':'' \<in> set (fst (cut CHR ''/'' rest)) then None
             else if (scheme \<noteq> '''' \<or> \<not> prefix ''///'' rest) \<and> prefix ''//'' rest then
               (let a = drop 2 rest in
                (case parse_authority (takeWhile (\<lambda>c. c \<noteq> CHR ''/'') a) of
                   None \<Rightarrow> None
                 | Some h \<Rightarrow>
                     if unescape EncodeOther (dropWhile (\<lambda>c. c \<noteq> CHR ''/'') a) = None then None
                     else Some \<lparr>u_Scheme = scheme, u_Host = h\<rparr>))
             else if unescape EncodeOther rest = None then None
             else Some \<lparr>u_Scheme = scheme, u_Host = ''''\<rparr>)))"

definition url_parse :: "string \<Rightarrow> url option" where
  "url_parse raw =
     (let (u, frag) = cut CHR ''#'' raw in
      (case parse_no_fragment u of
         None \<Rightarrow> None
       | Some v \<Rightarrow> if unescape EncodeOther frag = None then None else Some v))"

text \<open>\<^verbatim>\<open>URL.Hostname\<close>: the host without a port and without the brackets of an IPv6 literal.\<close>

definition strip_port :: "string \<Rightarrow> string" where
  "strip_port h =
     (case cut_last CHR '':'' h of
        Some (a, b) \<Rightarrow> if list_all is_digit b then a else h
      | None \<Rightarrow> h)"

definition hostname :: "url \<Rightarrow> string" where
  "hostname u =
     (let h = strip_port (u_Host u) in
      if prefix ''['' h \<and> suffix '']'' h then butlast (tl h) else h)"

subsection \<open>Plain https URLs\<close>

text \<open>
  A URL of the form \<^verbatim>\<open>https://<host>/<path>\<close> whose host is made of letters, digits, hyphens and
  dots is parsed to that host.
\<close>

definition dns_char :: "char \<Rightarrow> bool" where
  "dns_char c \<longleftrightarrow> is_alnum c \<or> c = CHR ''-'' \<or> c = CHR ''.''"

definition path_char :: "char \<Rightarrow> bool" where
  "path_char c \<longleftrightarrow> 33 \<le> byte c \<and> byte c \<le> 126 \<and> c \<notin> set ''%#?''"

lemmas char_class_defs = dns_char_def path_char_def is_alnum_def is_letter_def is_digit_def
  is_ctl_def is_ascii_def host_plain_def scheme_char_def byte_def

lemma unescape_verbatim:
  "list_all (\<lambda>c. c \<noteq> CHR ''%'' \<and> (m = EncodeOther \<or> \<not> is_ascii c \<or> host_plain c)) s
    \<Longrightarrow> unescape m s = Some s"
  by (induction s) auto

lemma dns_char_excludes:
  "dns_char c \<Longrightarrow> c \<notin> set ''%#?/@[]:''" "dns_char c \<Longrightarrow> \<not> is_ctl c" "dns_char c \<Longrightarrow> host_plain c"
  by (auto simp: char_class_defs)

lemma path_char_excludes:
  "path_char c \<Longrightarrow> c \<notin> set ''%#?''" "path_char c \<Longrightarrow> \<not> is_ctl c"
  by (auto simp: char_class_defs)

lemma get_scheme_https: "get_scheme (''https:'' @ r) = Some (''https'', r)"
  by (simp add: get_scheme_def char_class_defs)

lemma parse_host_plain:
  assumes "list_all dns_char h"
  shows "parse_authority h = Some h"
proof -
  have excl: "c \<notin> set h" if "c \<in> set ''@[:''" for c
    using assms dns_char_excludes(1) that by (fastforce simp: list_all_iff)
  have "unescape EncodeHost h = Some h"
    using assms dns_char_excludes by (intro unescape_verbatim) (fastforce simp: list_all_iff)
  then show ?thesis
    by (simp add: parse_authority_def parse_host_def cut_last_def excl)
qed

lemma url_parse_plain:
  assumes h: "list_all dns_char h" and p: "list_all path_char p"
  shows "url_parse (''https://'' @ h @ ''/'' @ p) = Some \<lparr>u_Scheme = ''https'', u_Host = h\<rparr>"
proof -
  let ?raw = "''https://'' @ h @ ''/'' @ p"
  have excl: "c \<notin> set h" "c \<notin> set p" if "c \<in> set ''%#?''" for c
    using h p dns_char_excludes(1) path_char_excludes(1) that by (fastforce simp: list_all_iff)+
  have slash: "CHR ''/'' \<notin> set h"
    using h dns_char_excludes(1) by (fastforce simp: list_all_iff)
  have noctl: "\<not> list_ex is_ctl ?raw"
    using h p dns_char_excludes(2) path_char_excludes(2)
    by (auto simp: list_ex_iff list_all_iff is_ctl_def byte_def)
  have frag: "cut CHR ''#'' ?raw = (?raw, [])" and query: "cut CHR ''?'' (''//'' @ h @ ''/'' @ p) = (''//'' @ h @ ''/'' @ p, [])"
    by (rule cut_absent, simp add: excl)+
  have auth: "takeWhile (\<lambda>c. c \<noteq> CHR ''/'') (h @ ''/'' @ p) = h"
    and path: "dropWhile (\<lambda>c. c \<noteq> CHR ''/'') (h @ ''/'' @ p) = ''/'' @ p"
    using slash by (auto simp: takeWhile_append dropWhile_append)
  have pathok: "unescape EncodeOther (''/'' @ p) = Some (''/'' @ p)"
    using p path_char_excludes(1) by (intro unescape_verbatim) (fastforce simp: list_all_iff)
  have "parse_no_fragment ?raw = Some \<lparr>u_Scheme = ''https'', u_Host = h\<rparr>"
    using noctl get_scheme_https [of "''//'' @ h @ ''/'' @ p"] query auth path pathok parse_host_plain [OF h]
    by (simp add: parse_no_fragment_def Let_def to_lower_def is_ascii_def ascii_lower_def byte_def)
  with frag show ?thesis by (simp add: url_parse_def)
qed

lemma hostname_plain: "CHR '':'' \<notin> set h \<Longrightarrow> \<not> prefix ''['' h \<Longrightarrow> hostname \<lparr>u_Scheme = s, u_Host = h\<rparr> = h"
  by (simp add: hostname_def strip_port_def cut_last_def)

end
