(* ===== verification/Pin.thy ===== *)
theory Pin
  imports Go_URL
begin

text \<open>
  The host pin (\<^verbatim>\<open>internal/protocol/pin.go\<close>): which hosts count as x.ai, and the validation of
  token endpoints, redirect targets, device-flow user codes and verification URIs. The SDK's
  bearer-injecting transport uses the same primitive. An error value names the check that
  failed and carries the values its message prints.
\<close>

definition MaxUserCodeLen :: nat where
  "MaxUserCodeLen = 64"

definition MaxVerificationURILen :: nat where
  "MaxVerificationURILen = 2048"

subsection \<open>Hosts\<close>

definition pin_normal :: "string \<Rightarrow> string" where
  "pin_normal host = trim_suffix (to_lower (trim_space host)) ''.''"

definition IsXAIHost :: "string \<Rightarrow> bool" where
  "IsXAIHost host =
     (let h = pin_normal host in
      if h = '''' then False
      else if contains h ''..'' \<or> has_prefix h ''.'' then False
      else
        (let labels = split_on CHR ''.'' h; n = length labels in
         if n < 2 then False
         else if list_ex (\<lambda>lab. lab = '''') labels then False
         else labels ! (n - 2) = ''x'' \<and> labels ! (n - 1) = ''ai''))"

subsection \<open>URLs, user codes and verification URIs\<close>

datatype pin_error =
    FieldEmpty string
  | FieldTooLong string
  | FieldNotURL string
  | FieldNotHTTPS string string
  | FieldNoHostname string
  | FieldHostNotXAI string string
  | UserCodeEmpty
  | UserCodeTooLong
  | UserCodeInvalid
  | UriEmpty
  | UriTooLong
  | UriControl
  | UriNotURL
  | UriHostNotXAI string
  | UriNotHTTPS

definition ValidateXAIURL :: "string \<Rightarrow> string \<Rightarrow> pin_error option" where
  "ValidateXAIURL raw0 field =
     (let raw = trim_space raw0 in
      if raw = '''' then Some (FieldEmpty field)
      else if length raw > MaxVerificationURILen then Some (FieldTooLong field)
      else (case url_parse raw of
          None \<Rightarrow> Some (FieldNotURL field)
        | Some u \<Rightarrow>
            if u_Scheme u \<noteq> ''https'' then Some (FieldNotHTTPS field (u_Scheme u))
            else
              (let host = to_lower (hostname u) in
               if host = '''' then Some (FieldNoHostname field)
               else if \<not> IsXAIHost host then Some (FieldHostNotXAI field host)
               else None)))"

text \<open>\<^verbatim>\<open>unicode.IsControl\<close>: the C0 and C1 control codes and DEL.\<close>

definition rune_control :: "rune \<Rightarrow> bool" where
  "rune_control r \<longleftrightarrow> r < 32 \<or> 127 \<le> r \<and> r < 160"

definition user_code_rune :: "rune \<Rightarrow> bool" where
  "user_code_rune r \<longleftrightarrow>
     65 \<le> r \<and> r \<le> 90 \<or> 97 \<le> r \<and> r \<le> 122 \<or> 48 \<le> r \<and> r \<le> 57 \<or> r = 45"

definition ValidateUserCode :: "string \<Rightarrow> pin_error option" where
  "ValidateUserCode code =
     (if code = '''' then Some UserCodeEmpty
      else if length code > MaxUserCodeLen then Some UserCodeTooLong
      else if list_ex (\<lambda>p. 127 < fst p \<or> rune_control (fst p) \<or> \<not> user_code_rune (fst p)) (runes code)
      then Some UserCodeInvalid
      else None)"

definition ValidateVerificationURI :: "string \<Rightarrow> pin_error option" where
  "ValidateVerificationURI raw0 =
     (let raw = trim_space raw0 in
      if raw = '''' then Some UriEmpty
      else if length raw > MaxVerificationURILen then Some UriTooLong
      else if list_ex (\<lambda>p. fst p < 32 \<or> fst p = 127) (runes raw) then Some UriControl
      else (case url_parse raw of
          None \<Rightarrow> Some UriNotURL
        | Some u \<Rightarrow>
            if u_Scheme u = ''https'' then
              (let host = to_lower (hostname u) in
               if \<not> IsXAIHost host then Some (UriHostNotXAI host) else None)
            else Some UriNotHTTPS))"

subsection \<open>When they succeed\<close>

lemma labels_end_iff:
  "(2 \<le> length ls \<and> ls ! (length ls - 2) = a \<and> ls ! (length ls - 1) = b) \<longleftrightarrow> (\<exists>ps. ls = ps @ [a, b])"
proof
  assume "2 \<le> length ls \<and> ls ! (length ls - 2) = a \<and> ls ! (length ls - 1) = b"
  then have n: "2 \<le> length ls" and a: "ls ! (length ls - 2) = a" and b: "ls ! (length ls - 1) = b"
    by auto
  have "drop (length ls - 2) ls = [a, b]"
    using n a b by (intro nth_equalityI) (auto simp: nth_Cons' less_Suc_eq numeral_2_eq_2)
  then have "ls = take (length ls - 2) ls @ [a, b]"
    by (metis append_take_drop_id)
  then show "\<exists>ps. ls = ps @ [a, b]" ..
next
  assume "\<exists>ps. ls = ps @ [a, b]"
  then show "2 \<le> length ls \<and> ls ! (length ls - 2) = a \<and> ls ! (length ls - 1) = b"
    by (auto simp: nth_append)
qed

lemma empty_label_dots:
  "list_all (\<lambda>l. l \<noteq> []) (split_on d s) \<Longrightarrow> \<not> contains s [d, d] \<and> \<not> prefix [d] s \<and> s \<noteq> []"
proof (intro conjI notI)
  assume ne: "list_all (\<lambda>l. l \<noteq> []) (split_on d s)"
  {
    assume "contains s [d, d]"
    then obtain a b where "s = a @ [d, d] @ b" using contains_decomp by blast
    then have "s = a @ d # d # b" by simp
    with ne show False by (simp add: split_on_append_sep)
  next
    assume "prefix [d] s"
    then obtain b where "s = d # b" by (auto simp: prefix_def)
    with ne show False by simp
  next
    assume "s = []"
    with ne show False by simp
  }
qed

lemma IsXAIHost_labels:
  "IsXAIHost host \<longleftrightarrow>
     list_all (\<lambda>l. l \<noteq> []) (split_on CHR ''.'' (pin_normal host))
     \<and> (\<exists>ps. split_on CHR ''.'' (pin_normal host) = ps @ [''x'', ''ai''])"
  using empty_label_dots [of "CHR ''.''" "pin_normal host"]
  unfolding IsXAIHost_def Let_def labels_end_iff [symmetric] has_prefix_def
  by (auto simp: list_all_iff list_ex_iff)

lemma IsXAIHost_suffix:
  "IsXAIHost host \<longleftrightarrow>
     pin_normal host = ''x.ai'' \<or>
     (\<exists>p. pin_normal host = p @ ''.x.ai'' \<and> list_all (\<lambda>l. l \<noteq> '''') (split_on CHR ''.'' p))"
    (is "_ \<longleftrightarrow> ?spec")
proof
  assume "IsXAIHost host"
  then obtain ps where ps: "split_on CHR ''.'' (pin_normal host) = ps @ [''x'', ''ai'']"
    and ne: "list_all (\<lambda>l. l \<noteq> []) (ps @ [''x'', ''ai''])"
    unfolding IsXAIHost_labels by auto
  have h: "pin_normal host = join_with CHR ''.'' (ps @ [''x'', ''ai''])"
    using join_split_on [of "CHR ''.''" "pin_normal host"] ps by simp
  show ?spec
  proof (cases "ps = []")
    case True
    with h show ?thesis by simp
  next
    case False
    have "split_on CHR ''.'' (join_with CHR ''.'' ps) = ps"
      using False ps split_on_parts [of _ "CHR ''.''" "pin_normal host"]
      by (intro split_on_join) auto
    with h False ne show ?thesis by (auto simp: join_with_append)
  qed
next
  assume ?spec
  then show "IsXAIHost host"
  proof
    assume "pin_normal host = ''x.ai''"
    then show ?thesis by (simp add: IsXAIHost_labels)
  next
    assume "\<exists>p. pin_normal host = p @ ''.x.ai'' \<and> list_all (\<lambda>l. l \<noteq> '''') (split_on CHR ''.'' p)"
    then show ?thesis
      by (auto simp: IsXAIHost_labels split_on_append_sep [of "CHR ''.''" _ "''x.ai''", simplified])
  qed
qed

text \<open>
  Property C32. \<open>IsXAIHost\<close> accepts a host exactly when its normal form (trimmed, lower case, one
  trailing dot removed) is \<open>x.ai\<close> itself or \<open>p.x.ai\<close> for a dotted name \<open>p\<close> without empty labels:
  the match is on whole DNS labels, so \<open>evil.notx.ai\<close> and \<open>x.ai.evil.com\<close> are out.
\<close>

theorem IsXAIHost_spec:
  "IsXAIHost host \<longleftrightarrow>
     pin_normal host = ''x.ai'' \<or>
     (\<exists>p. pin_normal host = p @ ''.x.ai'' \<and> list_all (\<lambda>l. l \<noteq> '''') (split_on CHR ''.'' p))"
  by (rule IsXAIHost_suffix)

lemma pin_normal_plain:
  assumes "list_all dns_char h"
  shows "to_lower h = map ascii_lower h" "pin_normal (to_lower h) = pin_normal h"
proof -
  have ascii: "list_all is_ascii h" "list_all is_ascii (map ascii_lower h)"
    using assms by (auto simp: list_all_iff char_class_defs ascii_lower_def chr_def)
  have nosp: "list_all (\<lambda>c. \<not> ascii_space c) h" "list_all (\<lambda>c. \<not> ascii_space c) (map ascii_lower h)"
    using assms by (auto simp: list_all_iff char_class_defs ascii_lower_def chr_def ascii_space_def)
  have idem: "map ascii_lower (map ascii_lower h) = map ascii_lower h"
    using assms by (auto simp: ascii_lower_def byte_def chr_def)
  show low: "to_lower h = map ascii_lower h"
    using ascii by (simp add: to_lower_def)
  have "to_lower (map ascii_lower h) = map ascii_lower h"
    using ascii idem by (simp only: to_lower_def if_True)
  then show "pin_normal (to_lower h) = pin_normal h"
    using ascii nosp by (simp add: pin_normal_def low trim_space_ascii trim_ascii_id)
qed

lemma plain_char_ascii:
  "dns_char c \<or> path_char c \<Longrightarrow> is_ascii c" "dns_char c \<or> path_char c \<Longrightarrow> \<not> ascii_space c"
  by (auto simp: char_class_defs ascii_space_def)

lemma trim_space_plain:
  assumes "list_all (\<lambda>c. dns_char c \<or> path_char c) s"
  shows "trim_space s = s"
proof -
  have "list_all is_ascii s" "list_all (\<lambda>c. \<not> ascii_space c) s"
    using assms plain_char_ascii unfolding list_all_iff by blast+
  then show ?thesis by (simp only: trim_space_ascii trim_ascii_id)
qed

lemma validate_plain:
  assumes h: "list_all dns_char h" and p: "list_all path_char p"
    and len: "length h + length p \<le> 2039"
  shows "ValidateXAIURL (''https://'' @ h @ ''/'' @ p) f = None \<longleftrightarrow> IsXAIHost h"
proof -
  let ?raw = "''https://'' @ h @ ''/'' @ p"
  have "list_all (\<lambda>c. dns_char c \<or> path_char c) ''https://''"
    by (simp add: char_class_defs)
  moreover have "path_char CHR ''/''"
    by (simp add: char_class_defs)
  ultimately have "list_all (\<lambda>c. dns_char c \<or> path_char c) ?raw"
    using h p unfolding list_all_append by (simp add: list_all_iff)
  then have trim: "trim_space ?raw = ?raw"
    by (rule trim_space_plain)
  have host: "hostname \<lparr>u_Scheme = ''https'', u_Host = h\<rparr> = h"
    using h dns_char_excludes(1) by (intro hostname_plain) (fastforce simp: list_all_iff prefix_def)+
  have low: "IsXAIHost (to_lower h) = IsXAIHost h"
    using pin_normal_plain(2) [OF h] by (simp add: IsXAIHost_labels)
  have empty: "\<not> IsXAIHost ''''"
    by (simp add: IsXAIHost_labels pin_normal_def to_lower_def trim_suffix_def)
  have short: "\<not> MaxVerificationURILen < length ?raw"
    using len by (simp add: MaxVerificationURILen_def)
  have nonempty: "?raw \<noteq> ''''" and lower_empty: "to_lower h = '''' \<longleftrightarrow> h = ''''"
    using pin_normal_plain(1) [OF h] by simp_all
  show ?thesis
    unfolding ValidateXAIURL_def Let_def trim url_parse_plain [OF h p] host
    using nonempty short low empty lower_empty by (simp add: host del: append_Cons append.simps)
qed

text \<open>
  On a plain URL \<open>https://<host>/<path>\<close> of admissible length the validation of an
  endpoint decides exactly whether the host is on the x.ai origin.
\<close>

theorem ValidateXAIURL_plain:
  assumes "list_all dns_char h" "list_all path_char p" "length h + length p \<le> 2039"
  shows "ValidateXAIURL (''https://'' @ h @ ''/'' @ p) f = None \<longleftrightarrow> IsXAIHost h"
  using assms by (rule validate_plain)

theorem ValidateXAIURL_plain_witness:
  "ValidateXAIURL (''https://'' @ ''auth.x.ai'' @ ''/'' @ ''oauth2/token'') ''token_endpoint'' = None
   \<and> ValidateXAIURL (''https://'' @ ''evil.notx.ai'' @ ''/'' @ ''phish'') ''token_endpoint'' \<noteq> None"
proof -
  have dns: "list_all dns_char ''auth.x.ai''" "list_all dns_char ''evil.notx.ai''"
    and path: "list_all path_char ''oauth2/token''" "list_all path_char ''phish''"
    by (simp_all add: char_class_defs)
  have "IsXAIHost ''auth.x.ai''" "\<not> IsXAIHost ''evil.notx.ai''"
    by (simp_all add: IsXAIHost_def pin_normal_def string_eval)
  then show ?thesis
    using ValidateXAIURL_plain [OF dns(1) path(1), of "''token_endpoint''"] ValidateXAIURL_plain [OF dns(2) path(2), of "''token_endpoint''"]
    by simp
qed

text \<open>
  A verification URI passes its validation exactly when it passes the endpoint validation and
  holds no control character; the two functions agree on everything else.
\<close>

theorem ValidateVerificationURI_iff:
  "ValidateVerificationURI raw = None \<longleftrightarrow>
     ValidateXAIURL raw f = None
     \<and> \<not> list_ex (\<lambda>p. fst p < 32 \<or> fst p = 127) (runes (trim_space raw))"
proof -
  have "\<not> IsXAIHost ''''"
    by (simp add: IsXAIHost_labels pin_normal_def string_eval)
  then show ?thesis
    by (auto simp: ValidateVerificationURI_def ValidateXAIURL_def Let_def split: option.splits if_splits)
qed

lemma user_code_rune_plain:
  "127 < r \<or> rune_control r \<or> \<not> user_code_rune r \<longleftrightarrow> \<not> user_code_rune r"
  by (auto simp: user_code_rune_def rune_control_def)

lemma user_code_rune_byte: "user_code_rune (byte c) \<longleftrightarrow> is_alnum c \<or> c = CHR ''-''"
proof -
  have "c = CHR ''-'' \<longleftrightarrow> byte c = 45"
    using byte_inject [of c "CHR ''-''"] by (simp add: byte_def)
  then show ?thesis
    by (simp add: user_code_rune_def is_alnum_def is_letter_def is_digit_def)
qed

text \<open>
  A device-flow user code is accepted exactly when it is 1 to 64 bytes of ASCII letters, digits
  and hyphens: what the program prints to the terminal cannot hold control characters,
  escapes or non-ASCII text.
\<close>

theorem ValidateUserCode_iff:
  "ValidateUserCode code = None \<longleftrightarrow>
     code \<noteq> '''' \<and> length code \<le> 64 \<and> list_all (\<lambda>c. is_alnum c \<or> c = CHR ''-'') code"
proof -
  have "list_all (\<lambda>p. user_code_rune (fst p)) (runes code)
      \<longleftrightarrow> list_all (\<lambda>c. is_alnum c \<or> c = CHR ''-'') code" (is "?R \<longleftrightarrow> ?C")
  proof
    assume ?R
    then have "list_all (\<lambda>p. fst p < 128) (runes code)"
      by (auto simp: list_all_iff user_code_rune_def)
    then have "list_all is_ascii code"
      by (simp only: runes_all_ascii_iff)
    with \<open>?R\<close> show ?C
      by (simp add: runes_ascii list_all_iff user_code_rune_byte)
  next
    assume ?C
    then have "list_all is_ascii code"
      by (auto simp: list_all_iff char_class_defs)
    with \<open>?C\<close> show ?R
      by (simp add: runes_ascii list_all_iff user_code_rune_byte)
  qed
  then show ?thesis
    by (auto simp: ValidateUserCode_def MaxUserCodeLen_def user_code_rune_plain list_ex_iff list_all_iff)
qed

subsection \<open>Hosts the pin lets through\<close>

text \<open>
  The check on the last two labels does not ask what kind of host it is looking at. An IPv6
  literal may carry a zone, and a zone may hold dots: the URL below passes although its host is
  the address \<open>2001:db8::1\<close> and no name under x.ai.
\<close>

theorem ValidateXAIURL_accepts_ip6_zone:
  "ValidateXAIURL ''https://[2001:db8::1%25.x.ai]/token'' f = None
   \<and> (\<exists>u. url_parse ''https://[2001:db8::1%25.x.ai]/token'' = Some u \<and> is_ip6_literal (hostname u))"
proof -
  have u: "url_parse ''https://[2001:db8::1%25.x.ai]/token''
      = Some \<lparr>u_Scheme = ''https'', u_Host = ''[2001:db8::1%.x.ai]''\<rparr>"
    by code_simp
  have h: "hostname \<lparr>u_Scheme = ''https'', u_Host = ''[2001:db8::1%.x.ai]''\<rparr> = ''2001:db8::1%.x.ai''"
    by code_simp
  have ip: "is_ip6_literal ''2001:db8::1%.x.ai''"
    by code_simp
  have pinned: "IsXAIHost ''2001:db8::1%.x.ai''"
    by (simp add: IsXAIHost_labels pin_normal_def string_eval)
  show ?thesis
    by (simp add: ValidateXAIURL_def Let_def u h ip pinned MaxVerificationURILen_def string_eval)
qed

text \<open>
  Lower-casing is done on Unicode code points, and U+0130 (capital I with a dot, the bytes C4 B0)
  has the ASCII letter \<open>i\<close> as its lower case: a top-level domain spelled with it counts as \<open>ai\<close>.
\<close>

theorem IsXAIHost_accepts_dotted_I:
  "IsXAIHost (''x.a'' @ [CHR 0xC4, CHR 0xB0])"
proof -
  have trim: "trim_space (''x.a'' @ [CHR 0xC4, CHR 0xB0]) = ''x.a'' @ [CHR 0xC4, CHR 0xB0]"
    by (simp add: trim_space_def rune_space_def rune_eval)
  have low: "to_lower (''x.a'' @ [CHR 0xC4, CHR 0xB0]) = ''x.ai''"
    by (simp add: to_lower_def rune_lower_dotted_I rune_lower_def [of 120] rune_lower_def [of 97]
        rune_lower_def [of 46] rune_eval)
  show ?thesis
    unfolding IsXAIHost_labels pin_normal_def trim low by (simp add: string_eval)
qed

end
