(* ===== verification/Errors.thy ===== *)
theory Errors
  imports Pin
begin

text \<open>
  The error values of \<^verbatim>\<open>internal/protocol/errors.go\<close>: the sentinels, the \<^verbatim>\<open>Error\<close> struct, wrapping
  with \<^verbatim>\<open>%w\<close>, and the two library functions \<^verbatim>\<open>errors.Is\<close> and \<^verbatim>\<open>errors.As\<close> on them. A message that
  is the text of a pin error is kept as that error (\<open>OfErr\<close>) and not rendered.
\<close>

datatype message = Phrase string | OfErr pin_error

record Error =
  Code :: string
  Message :: message
  HTTPStatus :: int
  Kind :: string

datatype ctx_error = Canceled | DeadlineExceeded

datatype go_err =
    ErrReauthRequired
  | ErrTierDenied
  | ErrUnavailable
  | ErrUnauthorized
  | ProtoErr Error
  | PinErr pin_error
  | CtxErr ctx_error
  | Wrapped go_err string
  | Plain string

text \<open>\<^verbatim>\<open>(*Error).Unwrap\<close>.\<close>

definition Error_Unwrap :: "Error \<Rightarrow> go_err option" where
  "Error_Unwrap e =
     (if Kind e = ''reauth'' then Some ErrReauthRequired
      else if Kind e = ''tier'' then Some ErrTierDenied
      else if Kind e = ''transient'' then Some ErrUnavailable
      else None)"

fun errors_Is :: "go_err \<Rightarrow> go_err \<Rightarrow> bool" where
  "errors_Is (Wrapped e s) target \<longleftrightarrow> Wrapped e s = target \<or> errors_Is e target"
| "errors_Is (ProtoErr e) target \<longleftrightarrow> ProtoErr e = target \<or> Error_Unwrap e = Some target"
| "errors_Is e target \<longleftrightarrow> e = target"

text \<open>\<^verbatim>\<open>errors.As\<close> with a target of type \<^verbatim>\<open>*Error\<close>.\<close>

fun errors_As_Error :: "go_err \<Rightarrow> Error option" where
  "errors_As_Error (ProtoErr e) = Some e"
| "errors_As_Error (Wrapped e s) = errors_As_Error e"
| "errors_As_Error e = None"

definition with_status :: "string \<Rightarrow> int \<Rightarrow> string" where
  "with_status code status = code @ '' (HTTP '' @ itoa status @ '')''"

definition sentinel_message :: "go_err \<Rightarrow> string" where
  "sentinel_message err =
     (if errors_Is err ErrReauthRequired then ''reauth_required''
      else if errors_Is err ErrTierDenied then ''tier_denied''
      else if errors_Is err ErrUnavailable then ''unavailable''
      else ''error'')"

definition PublicMessage :: "go_err option \<Rightarrow> string" where
  "PublicMessage oerr =
     (case oerr of
        None \<Rightarrow> ''''
      | Some err \<Rightarrow>
          (case errors_As_Error err of
             Some pe \<Rightarrow>
               if Code pe \<noteq> '''' then
                 (if HTTPStatus pe > 0 then with_status (Code pe) (HTTPStatus pe) else Code pe)
               else sentinel_message err
           | None \<Rightarrow> sentinel_message err))"

definition newError :: "string \<Rightarrow> message \<Rightarrow> string \<Rightarrow> Error" where
  "newError code msg kind =
     (let public = (if msg \<noteq> Phrase '''' \<and> msg \<noteq> Phrase code then msg else Phrase code)
      in \<lparr>Code = code, Message = public, HTTPStatus = 0, Kind = kind\<rparr>)"

definition wrapHTTP :: "string \<Rightarrow> int \<Rightarrow> string \<Rightarrow> Error" where
  "wrapHTTP code status kind =
     \<lparr>Code = code, Message = Phrase (with_status code status), HTTPStatus = status, Kind = kind\<rparr>"

definition oauth_code_rune :: "rune \<Rightarrow> bool" where
  "oauth_code_rune r \<longleftrightarrow> 97 \<le> r \<and> r \<le> 122 \<or> 48 \<le> r \<and> r \<le> 57 \<or> r = 95"

definition sanitizeOAuthErrorCode :: "string \<Rightarrow> string" where
  "sanitizeOAuthErrorCode raw0 =
     (let raw = trim_space (to_lower raw0) in
      if raw = '''' \<or> length raw > 64 then ''''
      else if list_ex (\<lambda>p. \<not> oauth_code_rune (fst p)) (runes raw) then ''''
      else raw)"

subsection \<open>What the functions promise\<close>

lemma newError_simps [simp]:
  "Code (newError c m k) = c" "HTTPStatus (newError c m k) = 0" "Kind (newError c m k) = k"
  by (simp_all add: newError_def Let_def)

lemma wrapHTTP_simps [simp]:
  "Code (wrapHTTP c n k) = c" "HTTPStatus (wrapHTTP c n k) = n" "Kind (wrapHTTP c n k) = k"
  by (simp_all add: wrapHTTP_def)

lemma PublicMessage_ProtoErr:
  "Code e \<noteq> '''' \<Longrightarrow>
     PublicMessage (Some (ProtoErr e)) = (if HTTPStatus e > 0 then with_status (Code e) (HTTPStatus e) else Code e)"
  by (simp add: PublicMessage_def)

definition oauth_code_char :: "char \<Rightarrow> bool" where
  "oauth_code_char c \<longleftrightarrow> 97 \<le> byte c \<and> byte c \<le> 122 \<or> is_digit c \<or> c = CHR ''_''"

lemma oauth_code_rune_byte: "oauth_code_rune (byte c) \<longleftrightarrow> oauth_code_char c"
proof -
  have "c = CHR ''_'' \<longleftrightarrow> byte c = 95"
    using byte_inject [of c "CHR ''_''"] by (simp add: byte_def)
  then show ?thesis by (auto simp: oauth_code_rune_def oauth_code_char_def is_digit_def)
qed

text \<open>
  Whatever the identity provider sends as an error code, what the program keeps of it is
  either empty or at most 64 characters of \<open>[a-z0-9_]\<close>; and a code of that form is kept as it is.
\<close>

theorem sanitizeOAuthErrorCode_spec:
  "(list_all oauth_code_char (sanitizeOAuthErrorCode raw) \<and> length (sanitizeOAuthErrorCode raw) \<le> 64)
   \<and> (sanitizeOAuthErrorCode raw = raw \<longleftrightarrow> list_all oauth_code_char raw \<and> length raw \<le> 64)"
proof -
  have clean: "list_all oauth_code_char s" if "\<not> list_ex (\<lambda>p. \<not> oauth_code_rune (fst p)) (runes s)" for s
  proof -
    have r: "list_all (\<lambda>p. oauth_code_rune (fst p)) (runes s)"
      using that by (simp add: list_ex_iff list_all_iff)
    then have "list_all (\<lambda>p. fst p < 128) (runes s)"
      by (auto simp: list_all_iff oauth_code_rune_def)
    then have "list_all is_ascii s" by (simp only: runes_all_ascii_iff)
    with r show ?thesis by (simp add: runes_ascii list_all_iff oauth_code_rune_byte)
  qed
  have keep: "sanitizeOAuthErrorCode s = s" if s: "list_all oauth_code_char s" "length s \<le> 64" for s
  proof -
    have ascii: "list_all is_ascii s"
      using s(1) by (auto simp: list_all_iff oauth_code_char_def char_class_defs byte_def)
    have nosp: "list_all (\<lambda>c. \<not> ascii_space c) s"
      using s(1) by (auto simp: list_all_iff oauth_code_char_def ascii_space_def char_class_defs byte_def)
    have "map ascii_lower s = s"
      using s(1) by (auto simp: list_all_iff oauth_code_char_def ascii_lower_def char_class_defs byte_def
          intro!: map_idI)
    then have "trim_space (to_lower s) = s"
      using ascii nosp by (simp add: to_lower_def trim_space_ascii trim_ascii_id)
    moreover have "\<not> list_ex (\<lambda>p. \<not> oauth_code_rune (fst p)) (runes s)"
      using s(1) ascii by (simp add: runes_ascii list_ex_iff list_all_iff oauth_code_rune_byte)
    ultimately show ?thesis
      using s(2) by (simp add: sanitizeOAuthErrorCode_def)
  qed
  have out: "list_all oauth_code_char (sanitizeOAuthErrorCode raw) \<and> length (sanitizeOAuthErrorCode raw) \<le> 64"
    using clean by (auto simp: sanitizeOAuthErrorCode_def Let_def)
  with keep [of raw] show ?thesis by metis
qed

end
