(* ===== verification/Go_Time.thy ===== *)
theory Go_Time
  imports Prelude
begin

text \<open>
  The part of Go's package \<^verbatim>\<open>time\<close> the program computes with. A \<^verbatim>\<open>time.Time\<close> is the number of
  nanoseconds since its zero value (January 1 of year 1, UTC); the library keeps the seconds in an
  \<^verbatim>\<open>int64\<close>, which \<open>time_add\<close> saturates and \<open>time_unix\<close> wraps. A \<^verbatim>\<open>time.Duration\<close> is an \<^verbatim>\<open>int64\<close> of
  nanoseconds. The monotonic clock reading of \<^verbatim>\<open>time.Now\<close> is not kept apart from the wall clock.
\<close>

type_synonym gotime = int
type_synonym duration = int

definition second :: duration where
  "second = 1000000000"

definition minute :: duration where
  "minute = 60 * second"

text \<open>\<^verbatim>\<open>time.Duration(n) * time.Second\<close>, which wraps.\<close>

definition seconds :: "int \<Rightarrow> duration" where
  "seconds n = i64 (n * second)"

definition max_sec :: int where
  "max_sec = 2 ^ 63 - 1"

definition time_add :: "gotime \<Rightarrow> duration \<Rightarrow> gotime" where
  "time_add t d =
     (if (t + d) div second > max_sec then max_sec * second + (t + d) mod second
      else if (t + d) div second < - max_sec then - max_sec * second + (t + d) mod second
      else t + d)"

definition time_unix :: "int \<Rightarrow> gotime" where
  "time_unix s = i64 (s + 62135596800) * second"

lemma seconds_small: "\<bar>n\<bar> \<le> 9223372036 \<Longrightarrow> seconds n = n * second"
  by (simp add: seconds_def second_def in_i64_def abs_le_iff)

text \<open>The times a clock can show: years 1 to 292 billion or so.\<close>

definition ordinary_time :: "gotime \<Rightarrow> bool" where
  "ordinary_time t \<longleftrightarrow> 0 \<le> t \<and> t < 2 ^ 62 * second"

lemma time_add_ordinary:
  assumes "ordinary_time t" "in_i64 d"
  shows "time_add t d = t + d"
proof -
  have "t + d < 2 ^ 63 * second" "- (2 ^ 62 * second) \<le> t + d"
    using assms by (simp_all add: ordinary_time_def in_i64_def second_def)
  then have "(t + d) div second \<le> max_sec" "- max_sec \<le> (t + d) div second"
    by (simp_all add: second_def max_sec_def)
  then show ?thesis by (simp add: time_add_def)
qed

lemma time_add_le:
  assumes "0 \<le> t" "in_i64 d"
  shows "time_add t d \<le> t + d"
proof (cases "(t + d) div second > max_sec")
  case True
  then have "max_sec * second + (t + d) mod second \<le> (t + d) div second * second + (t + d) mod second"
    by (simp add: second_def)
  also have "\<dots> = t + d" by (simp add: second_def)
  finally show ?thesis using True by (simp add: time_add_def)
next
  case False
  have "- (2 ^ 63) \<le> t + d"
    using assms by (simp add: in_i64_def)
  then have "- max_sec \<le> (t + d) div second"
    by (simp add: second_def max_sec_def)
  with False show ?thesis by (simp add: time_add_def)
qed

end
