(* ===== verification/Http.thy ===== *)
theory Http
  imports Errors Go_Time "HOL-Library.List_Lexorder" "HOL-Library.Char_ord"
begin

text \<open>
  \<^verbatim>\<open>internal/protocol/httpclient.go\<close> and the parts of \<^verbatim>\<open>net/http\<close> and \<^verbatim>\<open>net/url\<close> the protocol code
  uses: form encoding, the request, and \<^verbatim>\<open>Client.Do\<close> with its redirect loop.

  The network, the clock, the timer and the cancellation of the caller's context are outside the
  program. They are the four operations of an environment \<open>env\<close> on a state of arbitrary type \<open>'n\<close>;
  every operation of the protocol takes them as an argument and all theorems hold for any of
  them. A state of the model also logs the requests that were sent and the pauses that were made.
\<close>

subsection \<open>Requests\<close>

definition upper_hex :: "nat \<Rightarrow> char" where
  "upper_hex n = (if n < 10 then chr (48 + n) else chr (55 + n))"

definition query_char :: "char \<Rightarrow> string" where
  "query_char c =
     (if is_alnum c \<or> c \<in> set ''-_.~'' then [c]
      else if c = CHR '' '' then ''+''
      else [CHR ''%'', upper_hex (byte c div 16), upper_hex (byte c mod 16)])"

text \<open>\<^verbatim>\<open>url.QueryEscape\<close>, and \<^verbatim>\<open>Values.Encode\<close> on a form with one value for each key.\<close>

definition query_escape :: "string \<Rightarrow> string" where
  "query_escape s = concat (map query_char s)"

definition form_encode :: "(string \<times> string) list \<Rightarrow> string" where
  "form_encode kvs =
     join_with CHR ''&'' (map (\<lambda>kv. query_escape (fst kv) @ ''='' @ query_escape (snd kv)) (sort_key fst kvs))"

datatype http_method = GET | POST

record http_request =
  rq_Method :: http_method
  rq_URL :: string
  rq_Body :: string

text \<open>
  \<^verbatim>\<open>http.NewRequestWithContext\<close> fails when the URL does not parse.
\<close>

definition new_request :: "http_method \<Rightarrow> string \<Rightarrow> string \<Rightarrow> http_request option" where
  "new_request m url body =
     (case url_parse url of
        None \<Rightarrow> None
      | Some _ \<Rightarrow> Some \<lparr>rq_Method = m, rq_URL = url, rq_Body = body\<rparr>)"

subsection \<open>The environment\<close>

text \<open>
  What one exchange gives: a transport error, or a status with the body as far as it could be
  read. \<open>Location\<close> is the header of a redirect resolved against the URL of the request: absent,
  not a URL, or the next URL.
\<close>

datatype location = NoLocation | BadLocation | NextURL string

datatype reply = TransportError | Reply int location string

record 'n env =
  roundtrip :: "http_request \<Rightarrow> 'n \<Rightarrow> reply \<times> 'n"
  clock :: "'n \<Rightarrow> gotime"
  ctx_Err :: "'n \<Rightarrow> ctx_error option"
  sleepCtx :: "duration \<Rightarrow> 'n \<Rightarrow> ctx_error option \<times> 'n"
  goos :: string
  start_cmd :: "string list \<Rightarrow> 'n \<Rightarrow> bool \<times> 'n"

record 'n world =
  net :: 'n
  sent :: "http_request list"
  slept :: "duration list"
  spawned :: "string list list"

definition Now :: "'n env \<Rightarrow> 'n world \<Rightarrow> gotime" where
  "Now env w = clock env (net w)"

definition send :: "'n env \<Rightarrow> http_request \<Rightarrow> 'n world \<Rightarrow> reply \<times> 'n world" where
  "send env rq w =
     (let (r, n) = roundtrip env rq (net w) in (r, w\<lparr>net := n, sent := sent w @ [rq]\<rparr>))"

definition do_sleep :: "'n env \<Rightarrow> duration \<Rightarrow> 'n world \<Rightarrow> ctx_error option \<times> 'n world" where
  "do_sleep env d w = (let (e, n) = sleepCtx env d (net w) in (e, w\<lparr>net := n, slept := slept w @ [d]\<rparr>))"

subsection \<open>Redirects\<close>

datatype redirect_error = TooManyRedirects | RedirectMissingURL | RedirectRejected pin_error

text \<open>The URL of the next hop and the number of requests sent so far.\<close>

definition checkIDPRedirect :: "string option \<Rightarrow> nat \<Rightarrow> redirect_error option" where
  "checkIDPRedirect url via =
     (if 5 \<le> via then Some TooManyRedirects
      else
        (case url of
           None \<Rightarrow> Some RedirectMissingURL
         | Some u \<Rightarrow> map_option RedirectRejected (ValidateXAIURL u ''redirect'')))"

text \<open>
  \<^verbatim>\<open>redirectBehavior\<close>: 301, 302 and 303 turn a POST into a GET without its body, 307 and 308
  repeat the request. Once a hop has dropped the body it is not sent again.
\<close>

definition redirect_status :: "int \<Rightarrow> bool" where
  "redirect_status st \<longleftrightarrow> st \<in> {301, 302, 303, 307, 308}"

definition next_hop :: "http_request \<Rightarrow> int \<Rightarrow> string \<Rightarrow> http_request" where
  "next_hop rq st url =
     (if st \<in> {307, 308} then rq\<lparr>rq_URL := url\<rparr>
      else \<lparr>rq_Method = GET, rq_URL = url, rq_Body = ''''\<rparr>)"

text \<open>
  \<^verbatim>\<open>Client.Do\<close> of a client built by \<^verbatim>\<open>NewIDPClient\<close>; \<open>None\<close> stands for an error. The requests
  already sent are counted by \<open>via\<close>, so the loop ends after the fifth.
\<close>

function do_hops :: "'n env \<Rightarrow> nat \<Rightarrow> http_request \<Rightarrow> 'n world \<Rightarrow> (int \<times> string) option \<times> 'n world" where
  "do_hops env via rq w =
     (case send env rq w of
        (TransportError, w') \<Rightarrow> (None, w')
      | (Reply st loc body, w') \<Rightarrow>
          if \<not> redirect_status st then (Some (st, body), w')
          else
            (case loc of
               NoLocation \<Rightarrow> (Some (st, body), w')
             | BadLocation \<Rightarrow> (None, w')
             | NextURL url \<Rightarrow>
                 if checkIDPRedirect (Some url) (Suc via) \<noteq> None then (None, w')
                 else do_hops env (Suc via) (next_hop rq st url) w'))"
  by pat_completeness auto
termination
  by (relation "measure (\<lambda>(env, via, rq, w). 5 - via)") (auto simp: checkIDPRedirect_def split: if_splits)

declare do_hops.simps [simp del]

definition client_Do :: "'n env \<Rightarrow> http_request \<Rightarrow> 'n world \<Rightarrow> (int \<times> string) option \<times> 'n world" where
  "client_Do env rq w = do_hops env 0 rq w"

text \<open>\<^verbatim>\<open>io.ReadAll(io.LimitReader(resp.Body, 1<<20))\<close>; a read error is ignored by the callers.\<close>

definition limit_body :: "string \<Rightarrow> string" where
  "limit_body = take (2 ^ 20)"

subsection \<open>Where requests go\<close>

text \<open>
  A request is pinned when its URL passes the endpoint validation. The field name is only used in
  the error message.
\<close>

definition pinned_url :: "string \<Rightarrow> bool" where
  "pinned_url url \<longleftrightarrow> ValidateXAIURL url '''' = None"

definition pinned :: "http_request list \<Rightarrow> bool" where
  "pinned rqs \<longleftrightarrow> list_all (\<lambda>rq. pinned_url (rq_URL rq)) rqs"

lemma pinned_simps [simp]:
  "pinned []" "pinned (rq # rqs) \<longleftrightarrow> pinned_url (rq_URL rq) \<and> pinned rqs"
  "pinned (rqs @ rqs') \<longleftrightarrow> pinned rqs \<and> pinned rqs'"
  by (simp_all add: pinned_def)

lemma pinned_url_iff: "pinned_url url \<longleftrightarrow> ValidateXAIURL url f = None"
  by (auto simp: pinned_url_def ValidateXAIURL_def Let_def split: option.splits if_splits)

lemmas validate_iff = pinned_url_iff [symmetric]

lemma checkIDPRedirect_None: "checkIDPRedirect (Some u) n = None \<longleftrightarrow> n < 5 \<and> pinned_url u"
  by (auto simp: checkIDPRedirect_def pinned_url_iff [of u "''redirect''"])

lemma next_hop_URL [simp]: "rq_URL (next_hop rq st url) = url"
  by (simp add: next_hop_def)

lemma send_simps:
  "send env rq w = (r, w') \<Longrightarrow> sent w' = sent w @ [rq] \<and> roundtrip env rq (net w) = (r, net w')"
  by (auto simp: send_def split: prod.splits)

lemma do_hops_log:
  assumes "pinned_url (rq_URL rq)" "via < 5"
  shows "do_hops env via rq w = (r, w') \<Longrightarrow> \<exists>rqs. sent w' = sent w @ rqs \<and> pinned rqs \<and> rqs \<noteq> []
    \<and> length rqs + via \<le> 5"
  using assms
proof (induction env via rq w arbitrary: r w' rule: do_hops.induct)
  case (1 env via rq w)
  obtain rep w1 where s: "send env rq w = (rep, w1)"
    by (cases "send env rq w")
  then have log: "sent w1 = sent w @ [rq]" using send_simps by blast
  from 1(2) s consider "w' = w1"
    | st loc body url where "rep = Reply st loc body" "redirect_status st" "loc = NextURL url"
        "checkIDPRedirect (Some url) (Suc via) = None"
        "do_hops env (Suc via) (next_hop rq st url) w1 = (r, w')"
    by (subst (asm) do_hops.simps) (auto split: reply.splits location.splits if_splits)
  then show ?case
  proof cases
    case 1
    with log "1.prems" show ?thesis by (auto intro!: exI [of _ "[rq]"])
  next
    case 2
    then have "\<exists>rqs. sent w' = sent w1 @ rqs \<and> pinned rqs \<and> rqs \<noteq> [] \<and> length rqs + Suc via \<le> 5"
      using "1.IH" [OF s [symmetric]] by (auto simp: checkIDPRedirect_None)
    then obtain rqs where "sent w' = sent w1 @ rqs" "pinned rqs" "length rqs + Suc via \<le> 5" by blast
    with log "1.prems" show ?thesis
      by (auto intro!: exI [of _ "rq # rqs"])
  qed
qed

text \<open>A redirect repeats the body of the request or drops it.\<close>

lemma do_hops_bodies:
  "do_hops env via rq w = (r, w') \<Longrightarrow> \<exists>rqs. sent w' = sent w @ rqs \<and> list_all (\<lambda>q. rq_Body q \<in> {'''', rq_Body rq}) rqs"
proof (induction env via rq w arbitrary: r w' rule: do_hops.induct)
  case (1 env via rq w)
  obtain rep w1 where s: "send env rq w = (rep, w1)"
    by (cases "send env rq w")
  then have log: "sent w1 = sent w @ [rq]" using send_simps by blast
  from 1(2) s consider "w' = w1"
    | st loc body url where "rep = Reply st loc body" "redirect_status st" "loc = NextURL url"
        "checkIDPRedirect (Some url) (Suc via) = None"
        "do_hops env (Suc via) (next_hop rq st url) w1 = (r, w')"
    by (subst (asm) do_hops.simps) (auto split: reply.splits location.splits if_splits)
  then show ?case
  proof cases
    case 1
    with log show ?thesis by (auto intro!: exI [of _ "[rq]"])
  next
    case 2
    then obtain rqs where "sent w' = sent w1 @ rqs" "list_all (\<lambda>q. rq_Body q \<in> {'''', rq_Body (next_hop rq st url)}) rqs"
      using "1.IH" [OF s [symmetric], of st loc body url r w'] by auto
    moreover have "rq_Body (next_hop rq st url) \<in> {'''', rq_Body rq}" by (simp add: next_hop_def)
    ultimately show ?thesis
      using log by (intro exI [of _ "rq # rqs"]) (auto simp: list_all_iff)
  qed
qed

text \<open>
  One call of the client never leaves the pin: if the request itself is for a pinned
  URL then so is every request that is sent, along any chain of redirects the servers choose, and
  there are at most five.
\<close>

theorem client_Do_pinned:
  assumes "pinned_url (rq_URL rq)"
  shows "\<exists>rqs. sent (snd (client_Do env rq w)) = sent w @ rqs \<and> pinned rqs \<and> length rqs \<le> 5"
  using do_hops_log [OF assms, of 0 env w] unfolding client_Do_def
  by (cases "do_hops env 0 rq w") auto

lemma client_Do_log:
  assumes "pinned_url (rq_URL rq)" "client_Do env rq w = (r, w')" "pinned (sent w)"
  shows "pinned (sent w')"
  using do_hops_log [OF assms(1), of 0 env w r w'] assms(2,3)
  by (auto simp: client_Do_def)

text \<open>
  A redirect to a host outside x.ai ends the call with an error; the request with its form is not
  repeated there.
\<close>

theorem client_Do_rejects_redirect:
  assumes "roundtrip env rq (net w) = (Reply st (NextURL url) body, n)" "redirect_status st" "\<not> pinned_url url"
  shows "client_Do env rq w = (None, w\<lparr>net := n, sent := sent w @ [rq]\<rparr>)"
  using assms by (simp add: client_Do_def do_hops.simps send_def checkIDPRedirect_def pinned_url_iff [of url "''redirect''"])

subsection \<open>An environment with scripted servers\<close>

text \<open>
  For concrete runs: servers that answer each request by a function, instantly, and a timer that
  fires on time. The state is the clock in nanoseconds.
\<close>

definition stub_env :: "(http_request \<Rightarrow> reply) \<Rightarrow> nat env" where
  "stub_env answer =
     \<lparr>roundtrip = (\<lambda>rq n. (answer rq, n)), clock = int, ctx_Err = (\<lambda>_. None),
      sleepCtx = (\<lambda>d n. (None, n + nat d)), goos = ''linux'', start_cmd = (\<lambda>argv n. (True, n))\<rparr>"

definition stub_world :: "nat \<Rightarrow> nat world" where
  "stub_world n = \<lparr>net = n, sent = [], slept = [], spawned = []\<rparr>"

lemma stub_env_simps [simp]:
  "roundtrip (stub_env f) rq n = (f rq, n)" "clock (stub_env f) n = int n" "ctx_Err (stub_env f) n = None"
  "sleepCtx (stub_env f) d n = (None, n + nat d)" "goos (stub_env f) = ''linux''" "start_cmd (stub_env f) argv n = (True, n)"
  by (simp_all add: stub_env_def)

end
