(* ===== verification/Go_JSON.thy ===== *)
theory Go_JSON
  imports Go_URL
begin

text \<open>
  The part of Go's package \<^verbatim>\<open>encoding/json\<close> the program uses, on bytes: \<^verbatim>\<open>json.Marshal\<close> of
  values built from objects, strings, booleans and integers, and \<^verbatim>\<open>json.Unmarshal\<close> into a struct.
  As in the library, reading is done by a machine that consumes the input byte by byte and keeps
  an explicit stack of open arrays and objects; there is no recursion over the nesting and hence
  no fuel. It is split in two passes, bytes to tokens and tokens to a value.
  The main result is the round trip \<open>json_parse_print\<close>.
\<close>

datatype json =
    JNull
  | JBool bool
  | JNum string
  | JStr string
  | JArr "json list"
  | JObj "(string \<times> json) list"

subsection \<open>String units\<close>

text \<open>
  Between its quotes a JSON string is a sequence of units: raw bytes (the single-character escapes
  included) and code units written \<^verbatim>\<open>\uXXXX\<close>. \<open>resolve\<close> joins surrogate pairs and replaces lone
  surrogates; \<open>to_valid_utf8\<close> then replaces every byte that is not valid UTF-8 by U+FFFD.
\<close>

datatype unit_char = Raw char | U nat

definition is_hi :: "nat \<Rightarrow> bool" where
  "is_hi r \<longleftrightarrow> 55296 \<le> r \<and> r < 56320"

definition is_lo :: "nat \<Rightarrow> bool" where
  "is_lo r \<longleftrightarrow> 56320 \<le> r \<and> r < 57344"

fun resolve :: "unit_char list \<Rightarrow> string" where
  "resolve [] = []"
| "resolve (Raw c # us) = c # resolve us"
| "resolve (U r # U r' # us) =
     (if is_hi r \<and> is_lo r'
      then encode_rune (65536 + (r - 55296) * 1024 + (r' - 56320)) @ resolve us
      else encode_rune r @ resolve (U r' # us))"
| "resolve (U r # us) = encode_rune r @ resolve us"

definition bad_rune :: "rune \<times> string \<Rightarrow> bool" where
  "bad_rune p \<longleftrightarrow> fst p = rune_error \<and> length (snd p) = 1"

definition to_valid_utf8 :: "string \<Rightarrow> string" where
  "to_valid_utf8 s = concat (map (\<lambda>p. if bad_rune p then encode_rune rune_error else snd p) (runes s))"

definition utf8_ok :: "string \<Rightarrow> bool" where
  "utf8_ok s \<longleftrightarrow> list_all (\<lambda>p. \<not> bad_rune p) (runes s)"

subsection \<open>Bytes to tokens\<close>

datatype jtok = TLBrace | TRBrace | TLBrack | TRBrack | TComma | TColon
  | TStr string | TAtom json

datatype lstate =
    LStart
  | LStr "unit_char list"
  | LEsc "unit_char list"
  | LHex "unit_char list" nat nat
  | LNum string
  | LWord string

definition json_ws :: "char \<Rightarrow> bool" where
  "json_ws c \<longleftrightarrow> byte c = 32 \<or> byte c = 9 \<or> byte c = 10 \<or> byte c = 13"

definition num_char :: "char \<Rightarrow> bool" where
  "num_char c \<longleftrightarrow> is_digit c \<or> c \<in> set ''+-.eE''"

definition word_char :: "char \<Rightarrow> bool" where
  "word_char c \<longleftrightarrow> 97 \<le> byte c \<and> byte c \<le> 122"

text \<open>The number grammar: an optional minus, an integer part without leading zeros, an optional
  fraction, an optional exponent.\<close>

definition json_exponent :: "string \<Rightarrow> bool" where
  "json_exponent s \<longleftrightarrow>
     (case s of
        [] \<Rightarrow> True
      | c # cs \<Rightarrow> c \<in> set ''eE'' \<and>
          (let ds = (case cs of [] \<Rightarrow> [] | d # ds \<Rightarrow> if d \<in> set ''+-'' then ds else cs)
           in ds \<noteq> [] \<and> list_all is_digit ds))"

definition json_fraction :: "string \<Rightarrow> bool" where
  "json_fraction s \<longleftrightarrow>
     (case s of
        c # cs \<Rightarrow>
          if c = CHR ''.''
          then takeWhile is_digit cs \<noteq> [] \<and> json_exponent (dropWhile is_digit cs)
          else json_exponent s
      | [] \<Rightarrow> True)"

definition json_number :: "string \<Rightarrow> bool" where
  "json_number s \<longleftrightarrow>
     (let t = (case s of [] \<Rightarrow> [] | c # cs \<Rightarrow> if c = CHR ''-'' then cs else s);
          i = takeWhile is_digit t
      in i \<noteq> [] \<and> (hd i = CHR ''0'' \<longrightarrow> length i = 1) \<and> json_fraction (dropWhile is_digit t))"

definition json_word :: "string \<Rightarrow> json option" where
  "json_word s =
     (if s = ''true'' then Some (JBool True) else if s = ''false'' then Some (JBool False)
      else if s = ''null'' then Some JNull else None)"

definition lstart :: "char \<Rightarrow> (lstate \<times> jtok list) option" where
  "lstart c =
     (if json_ws c then Some (LStart, [])
      else if c = CHR ''{'' then Some (LStart, [TLBrace])
      else if c = CHR ''}'' then Some (LStart, [TRBrace])
      else if c = CHR ''['' then Some (LStart, [TLBrack])
      else if c = CHR '']'' then Some (LStart, [TRBrack])
      else if c = CHR '','' then Some (LStart, [TComma])
      else if c = CHR '':'' then Some (LStart, [TColon])
      else if c = CHR 0x22 then Some (LStr [], [])
      else if is_digit c \<or> c = CHR ''-'' then Some (LNum [c], [])
      else if word_char c then Some (LWord [c], [])
      else None)"

definition escaped :: "char \<Rightarrow> char option" where
  "escaped c =
     (if c \<in> set [CHR 0x22, CHR 0x5C, CHR ''/''] then Some c
      else if c = CHR ''b'' then Some CHR 0x08
      else if c = CHR ''f'' then Some CHR 0x0C
      else if c = CHR ''n'' then Some CHR 0x0A
      else if c = CHR ''r'' then Some CHR 0x0D
      else if c = CHR ''t'' then Some CHR 0x09
      else None)"

text \<open>The tokens that a number or a word leaves behind when it ends.\<close>

fun lfinish :: "lstate \<Rightarrow> jtok list option" where
  "lfinish LStart = Some []"
| "lfinish (LNum acc) = (if json_number (rev acc) then Some [TAtom (JNum (rev acc))] else None)"
| "lfinish (LWord acc) = map_option (\<lambda>j. [TAtom j]) (json_word (rev acc))"
| "lfinish _ = None"

definition then_start :: "jtok list option \<Rightarrow> char \<Rightarrow> (lstate \<times> jtok list) option" where
  "then_start ts c =
     (case ts of None \<Rightarrow> None | Some t \<Rightarrow> map_option (\<lambda>(st, u). (st, t @ u)) (lstart c))"

fun lstep :: "lstate \<Rightarrow> char \<Rightarrow> (lstate \<times> jtok list) option" where
  "lstep LStart c = lstart c"
| "lstep (LStr us) c =
     (if c = CHR 0x22 then Some (LStart, [TStr (to_valid_utf8 (resolve (rev us)))])
      else if c = CHR 0x5C then Some (LEsc us, [])
      else if byte c < 32 then None
      else Some (LStr (Raw c # us), []))"
| "lstep (LEsc us) c =
     (if c = CHR ''u'' then Some (LHex us 4 0, [])
      else map_option (\<lambda>d. (LStr (Raw d # us), [])) (escaped c))"
| "lstep (LHex us n v) c =
     (if \<not> is_hex c then None
      else if n = 1 then Some (LStr (U (16 * v + unhex c) # us), [])
      else Some (LHex us (n - 1) (16 * v + unhex c), []))"
| "lstep (LNum acc) c =
     (if num_char c then Some (LNum (c # acc), []) else then_start (lfinish (LNum acc)) c)"
| "lstep (LWord acc) c =
     (if word_char c then Some (LWord (c # acc), []) else then_start (lfinish (LWord acc)) c)"

fun lex :: "lstate \<Rightarrow> string \<Rightarrow> jtok list option" where
  "lex st [] = lfinish st"
| "lex st (c # cs) =
     (case lstep st c of
        None \<Rightarrow> None
      | Some (st', ts) \<Rightarrow> map_option ((@) ts) (lex st' cs))"

subsection \<open>Tokens to a value\<close>

datatype frame = FArr "json list" | FObj "(string \<times> json) list" | FKey "(string \<times> json) list" string

datatype pmode = PValue | PValueOrEnd | PKey | PKeyOrEnd | PColon | PAfter

datatype pstate = P pmode "frame list" | PDone json

definition max_depth :: nat where
  "max_depth = 10000"

fun accept :: "json \<Rightarrow> frame list \<Rightarrow> pstate option" where
  "accept v [] = Some (PDone v)"
| "accept v (FArr xs # st) = Some (P PAfter (FArr (v # xs) # st))"
| "accept v (FKey kvs k # st) = Some (P PAfter (FObj ((k, v) # kvs) # st))"
| "accept v (FObj kvs # st) = None"

definition open_frame :: "pmode \<Rightarrow> frame \<Rightarrow> frame list \<Rightarrow> pstate option" where
  "open_frame m f st = (if max_depth \<le> length st then None else Some (P m (f # st)))"

fun pvalue :: "jtok \<Rightarrow> frame list \<Rightarrow> pstate option" where
  "pvalue (TStr s) st = accept (JStr s) st"
| "pvalue (TAtom j) st = accept j st"
| "pvalue TLBrace st = open_frame PKeyOrEnd (FObj []) st"
| "pvalue TLBrack st = open_frame PValueOrEnd (FArr []) st"
| "pvalue _ st = None"

fun pstep :: "pstate \<Rightarrow> jtok \<Rightarrow> pstate option" where
  "pstep (PDone v) t = None"
| "pstep (P PValue st) t = pvalue t st"
| "pstep (P PValueOrEnd (FArr xs # st)) TRBrack = accept (JArr (rev xs)) st"
| "pstep (P PValueOrEnd st) t = pvalue t st"
| "pstep (P PKeyOrEnd (FObj kvs # st)) TRBrace = accept (JObj (rev kvs)) st"
| "pstep (P PKeyOrEnd (FObj kvs # st)) (TStr k) = Some (P PColon (FKey kvs k # st))"
| "pstep (P PKey (FObj kvs # st)) (TStr k) = Some (P PColon (FKey kvs k # st))"
| "pstep (P PColon st) TColon = Some (P PValue st)"
| "pstep (P PAfter (FArr xs # st)) TComma = Some (P PValue (FArr xs # st))"
| "pstep (P PAfter (FArr xs # st)) TRBrack = accept (JArr (rev xs)) st"
| "pstep (P PAfter (FObj kvs # st)) TComma = Some (P PKey (FObj kvs # st))"
| "pstep (P PAfter (FObj kvs # st)) TRBrace = accept (JObj (rev kvs)) st"
| "pstep _ _ = None"

fun prun :: "pstate \<Rightarrow> jtok list \<Rightarrow> pstate option" where
  "prun p [] = Some p"
| "prun p (t # ts) = (case pstep p t of None \<Rightarrow> None | Some p' \<Rightarrow> prun p' ts)"

definition json_parse :: "string \<Rightarrow> json option" where
  "json_parse s =
     (case lex LStart s of
        None \<Rightarrow> None
      | Some ts \<Rightarrow> (case prun (P PValue []) ts of Some (PDone v) \<Rightarrow> Some v | _ \<Rightarrow> None))"

subsection \<open>Printing\<close>

definition hex_digit :: "nat \<Rightarrow> char" where
  "hex_digit n = (if n < 10 then chr (48 + n) else chr (87 + n))"

text \<open>\<^verbatim>\<open>appendString\<close> with HTML escaping, as \<^verbatim>\<open>json.Marshal\<close> and \<^verbatim>\<open>Encoder.Encode\<close> use it.\<close>

definition short_escape :: "nat \<Rightarrow> char option" where
  "short_escape r =
     (if r = 34 then Some CHR 0x22 else if r = 92 then Some CHR 0x5C
      else if r = 8 then Some CHR ''b'' else if r = 12 then Some CHR ''f''
      else if r = 10 then Some CHR ''n'' else if r = 13 then Some CHR ''r''
      else if r = 9 then Some CHR ''t'' else None)"

definition unicode_escape :: "nat \<Rightarrow> string" where
  "unicode_escape r =
     [CHR 0x5C, CHR ''u'', hex_digit (r div 4096), hex_digit (r div 256 mod 16),
      hex_digit (r div 16 mod 16), hex_digit (r mod 16)]"

definition quote_rune :: "rune \<times> string \<Rightarrow> string" where
  "quote_rune p =
     (case p of (r, bs) \<Rightarrow>
        if r < 128 then
          (case short_escape r of
             Some e \<Rightarrow> [CHR 0x5C, e]
           | None \<Rightarrow> if r < 32 \<or> r = 60 \<or> r = 62 \<or> r = 38 then unicode_escape r else bs)
        else if bad_rune p then unicode_escape rune_error
        else if r = 8232 \<or> r = 8233 then unicode_escape r
        else bs)"

definition json_quote :: "string \<Rightarrow> string" where
  "json_quote s = CHR 0x22 # concat (map quote_rune (runes s)) @ [CHR 0x22]"

fun json_print :: "json \<Rightarrow> string" where
  "json_print JNull = ''null''"
| "json_print (JBool b) = (if b then ''true'' else ''false'')"
| "json_print (JNum s) = s"
| "json_print (JStr s) = json_quote s"
| "json_print (JArr xs) = ''['' @ join_with CHR '','' (map json_print xs) @ '']''"
| "json_print (JObj kvs) =
     ''{'' @ join_with CHR '','' (map (\<lambda>kv. json_quote (fst kv) @ '':'' @ json_print (snd kv)) kvs) @ ''}''"

text \<open>\<^verbatim>\<open>Encoder.Encode\<close> writes the value and a newline.\<close>

definition json_encode :: "json \<Rightarrow> string" where
  "json_encode j = json_print j @ [CHR 0x0A]"

subsection \<open>Reading back a printed string\<close>

lemma is_hex_hex_digit: "n < 16 \<Longrightarrow> is_hex (hex_digit n) \<and> unhex (hex_digit n) = n"
  by (auto simp: hex_digit_def is_hex_def unhex_def is_digit_def)

lemma map_option_append_Nil [simp]: "map_option ((@) []) x = x"
  by (cases x) auto

lemma hex4_value:
  "4096 * (r div 4096) + 256 * (r div 256 mod 16) + 16 * (r div 16 mod 16) + r mod 16 = r"
  for r :: nat
proof -
  have step: "16 * (n div 16) + n mod 16 = n" for n :: nat
    by simp
  have "r div 256 = r div 16 div 16" "r div 4096 = r div 16 div 16 div 16"
    by (simp_all add: div_mult2_eq [symmetric])
  then have "16 * (16 * (16 * (r div 4096) + r div 256 mod 16) + r div 16 mod 16) + r mod 16 = r"
    by (simp only: step)
  then show ?thesis
    by simp
qed

lemma lex_unicode_escape:
  assumes "r < 65536"
  shows "lex (LStr us) (unicode_escape r @ cs) = lex (LStr (U r # us)) cs"
proof -
  have d: "r div 4096 < 16" using assms by auto
  have hex: "is_hex (hex_digit (r div 4096))" "unhex (hex_digit (r div 4096)) = r div 4096"
    "is_hex (hex_digit (k mod 16))" "unhex (hex_digit (k mod 16)) = k mod 16" for k
    using is_hex_hex_digit [OF d] is_hex_hex_digit [of "k mod 16"] by simp_all
  have start: "CHR 0x5C \<noteq> CHR 0x22" by simp
  show ?thesis
    unfolding unicode_escape_def append_Cons append_Nil lex.simps lstep.simps
    by (simp add: hex hex4_value del: mult_Suc_right)
qed

definition raw_ok :: "char \<Rightarrow> bool" where
  "raw_ok c \<longleftrightarrow> 32 \<le> byte c \<and> c \<noteq> CHR 0x22 \<and> c \<noteq> CHR 0x5C"

lemma lex_raw: "list_all raw_ok bs \<Longrightarrow> lex (LStr us) (bs @ cs) = lex (LStr (rev (map Raw bs) @ us)) cs"
  by (induction bs arbitrary: us) (auto simp: raw_ok_def option.map_id0 option.map_comp comp_def split: option.splits)

text \<open>The units a printed string is read back as.\<close>

definition quote_units :: "rune \<times> string \<Rightarrow> unit_char list" where
  "quote_units p =
     (case p of (r, bs) \<Rightarrow>
        if r < 128 then
          (if short_escape r = None \<and> (r < 32 \<or> r = 60 \<or> r = 62 \<or> r = 38) then [U r] else map Raw bs)
        else if bad_rune p then [U rune_error]
        else if r = 8232 \<or> r = 8233 then [U r]
        else map Raw bs)"

lemma short_escape_escaped:
  "short_escape (byte c) = Some e \<Longrightarrow> escaped e = Some c \<and> e \<noteq> CHR ''u''"
proof -
  have c: "c = chr (byte c)" by simp
  assume "short_escape (byte c) = Some e"
  then show ?thesis
    by (subst c) (auto simp: short_escape_def escaped_def chr_eval split: if_splits)
qed

lemma short_escape_None_raw:
  "short_escape (byte c) = None \<Longrightarrow> 32 \<le> byte c \<Longrightarrow> raw_ok c"
  by (auto simp: short_escape_def raw_ok_def byte_def split: if_splits)

lemma nonascii_raw: "\<not> is_ascii c \<Longrightarrow> raw_ok c"
  by (auto simp: is_ascii_def raw_ok_def byte_def)

lemma lex_quote_rune:
  assumes "p \<in> set (runes s)"
  shows "lex (LStr us) (quote_rune p @ cs) = lex (LStr (rev (quote_units p) @ us)) cs"
proof -
  obtain r bs where p: "p = (r, bs)" by (cases p)
  with runes_chunk [of r bs s] assms
  consider (ascii) c where "bs = [c]" "is_ascii c" "r = byte c"
    | (other) "128 \<le> r" "list_all raw_ok bs"
    using nonascii_raw by (auto simp: list_all_iff)
  then show ?thesis
  proof cases
    case ascii
    show ?thesis
    proof (cases "short_escape r")
      case (Some e)
      with ascii short_escape_escaped [of c e] p show ?thesis
        by (simp add: quote_rune_def quote_units_def is_ascii_def)
    next
      case None
      with ascii p lex_unicode_escape [of r us cs] lex_raw [of "[c]" us cs] short_escape_None_raw [of c]
      show ?thesis
        by (auto simp: quote_rune_def quote_units_def is_ascii_def)
    qed
  next
    case other
    with p lex_unicode_escape [of r us cs] lex_unicode_escape [of rune_error us cs] lex_raw [of bs us cs]
    show ?thesis
      by (auto simp: quote_rune_def quote_units_def rune_error_def)
  qed
qed

lemma lex_quote_runes:
  "set ps \<subseteq> set (runes s) \<Longrightarrow>
     lex (LStr us) (concat (map quote_rune ps) @ cs) = lex (LStr (rev (concat (map quote_units ps)) @ us)) cs"
  by (induction ps arbitrary: us) (simp_all add: lex_quote_rune [of _ s])

lemma resolve_raw: "resolve (map Raw bs @ us) = bs @ resolve us"
  by (induction bs) auto

lemma resolve_U: "\<not> is_hi r \<Longrightarrow> resolve (U r # us) = encode_rune r @ resolve us"
  by (cases us rule: list.exhaust; cases "hd us") auto

lemma runes_encode:
  "(r, bs) \<in> set (runes s) \<Longrightarrow> \<not> bad_rune (r, bs) \<Longrightarrow> encode_rune r = bs"
proof (induction s rule: runes.induct)
  case 1
  then show ?case by simp
next
  case (2 c cs)
  obtain r' w where d: "decode_rune (c # cs) = (r', w)"
    by (cases "decode_rune (c # cs)")
  from 2(2) consider "(r, bs) = (r', c # take (w - 1) cs)" | "(r, bs) \<in> set (runes (drop (w - 1) cs))"
    by (auto simp: runes.simps(2) d)
  then show ?case
  proof cases
    case 1
    with 2(3) encode_decode_rune [OF d] show ?thesis by (auto simp: bad_rune_def)
  next
    case 2
    with "2.IH" [OF d [symmetric] refl] "2.prems"(2) show ?thesis by simp
  qed
qed

lemma resolve_quote_units:
  assumes "p \<in> set (runes s)"
  shows "resolve (quote_units p @ us) = (if bad_rune p then encode_rune rune_error else snd p) @ resolve us"
proof -
  obtain r bs where p: "p = (r, bs)" by (cases p)
  have enc: "encode_rune r = bs" if "\<not> bad_rune p"
    using runes_encode [of r bs s] assms that p by simp
  have small: "\<not> bad_rune p" if "r < 128"
    using that p by (simp add: bad_rune_def rune_error_def)
  show ?thesis
    using enc small p
    by (auto simp: quote_units_def resolve_raw resolve_U is_hi_def rune_error_def)
qed

lemma resolve_quote: "set ps \<subseteq> set (runes s) \<Longrightarrow>
  resolve (concat (map quote_units ps)) = concat (map (\<lambda>p. if bad_rune p then encode_rune rune_error else snd p) ps)"
  by (induction ps) (simp_all add: resolve_quote_units [of _ s])

lemma to_valid_utf8_id: "utf8_ok s \<Longrightarrow> to_valid_utf8 s = s"
proof -
  assume "utf8_ok s"
  then have "map (\<lambda>p. if bad_rune p then encode_rune rune_error else snd p) (runes s) = map snd (runes s)"
    by (simp add: utf8_ok_def list_all_iff)
  then show ?thesis
    by (simp only: to_valid_utf8_def concat_runes)
qed

lemma utf8_ok_ascii: "list_all is_ascii s \<Longrightarrow> utf8_ok s"
  by (auto simp: utf8_ok_def runes_ascii list_all_iff bad_rune_def rune_error_def is_ascii_def)

lemma lex_json_quote:
  assumes "utf8_ok s"
  shows "lex LStart (json_quote s @ cs) = map_option ((#) (TStr s)) (lex LStart cs)"
proof -
  let ?us = "concat (map quote_units (runes s))"
  have "lex LStart (json_quote s @ cs) = lex (LStr []) (concat (map quote_rune (runes s)) @ CHR 0x22 # cs)"
    by (simp add: json_quote_def lstart_def json_ws_def byte_def)
  also have "\<dots> = lex (LStr (rev ?us)) (CHR 0x22 # cs)"
    using lex_quote_runes [of "runes s" s "[]"] by simp
  also have "\<dots> = map_option ((#) (TStr s)) (lex LStart cs)"
    using resolve_quote [of "runes s" s] to_valid_utf8_id [OF assms]
    by (simp add: to_valid_utf8_def [symmetric] cong: option.map_cong)
  finally show ?thesis .
qed


subsection \<open>Round trip\<close>

fun sep_toks :: "jtok list list \<Rightarrow> jtok list" where
  "sep_toks [] = []"
| "sep_toks [t] = t"
| "sep_toks (t # u # ts) = t @ TComma # sep_toks (u # ts)"

fun toks :: "json \<Rightarrow> jtok list" where
  "toks (JStr s) = [TStr s]"
| "toks (JArr xs) = TLBrack # sep_toks (map toks xs) @ [TRBrack]"
| "toks (JObj kvs) =
     TLBrace # sep_toks (map (\<lambda>kv. TStr (fst kv) # TColon # toks (snd kv)) kvs) @ [TRBrace]"
| "toks j = [TAtom j]"

text \<open>Printable values: valid UTF-8 strings and well-formed numbers.\<close>

fun json_ok :: "json \<Rightarrow> bool" where
  "json_ok (JNum s) = json_number s"
| "json_ok (JStr s) = utf8_ok s"
| "json_ok (JArr xs) = list_all json_ok xs"
| "json_ok (JObj kvs) = list_all (\<lambda>kv. utf8_ok (fst kv) \<and> json_ok (snd kv)) kvs"
| "json_ok _ = True"

fun json_depth :: "json \<Rightarrow> nat" where
  "json_depth (JArr xs) = Suc (foldr max (map json_depth xs) 0)"
| "json_depth (JObj kvs) = Suc (foldr max (map (\<lambda>kv. json_depth (snd kv)) kvs) 0)"
| "json_depth _ = 0"

definition ends_atom :: "string \<Rightarrow> bool" where
  "ends_atom cs \<longleftrightarrow> (case cs of [] \<Rightarrow> True | c # _ \<Rightarrow> \<not> num_char c \<and> \<not> word_char c)"

lemma ends_atomI: "c \<in> set '',]}:'' \<Longrightarrow> ends_atom (c # cs)"
  by (auto simp: ends_atom_def num_char_def word_char_def is_digit_def byte_def)

lemma map_option_append [simp]:
  "map_option ((@) a) (map_option ((@) b) x) = map_option ((@) (a @ b)) x"
  by (cases x) auto

lemma then_start_lex:
  "lfinish st = Some ts \<Longrightarrow>
     (case then_start (lfinish st) c of None \<Rightarrow> None
      | Some (st', us) \<Rightarrow> map_option ((@) us) (lex st' cs)) = map_option ((@) ts) (lex LStart (c # cs))"
  by (auto simp: then_start_def split: option.splits)

lemma lex_num_chars: "list_all num_char t \<Longrightarrow> lex (LNum acc) (t @ cs) = lex (LNum (rev t @ acc)) cs"
  by (induction t arbitrary: acc) auto

lemma lex_word_chars: "list_all word_char t \<Longrightarrow> lex (LWord acc) (t @ cs) = lex (LWord (rev t @ acc)) cs"
  by (induction t arbitrary: acc) auto

lemma lex_num_end:
  assumes "json_number (rev acc)" "ends_atom cs"
  shows "lex (LNum acc) cs = map_option ((@) [TAtom (JNum (rev acc))]) (lex LStart cs)"
proof (cases cs)
  case Nil
  with assms show ?thesis by simp
next
  case (Cons c cs')
  with assms then_start_lex [where st = "LNum acc" and ts = "[TAtom (JNum (rev acc))]" and c = c and cs = cs'] show ?thesis
    by (simp add: ends_atom_def)
qed

lemma lex_word_end:
  assumes "json_word (rev acc) = Some j" "ends_atom cs"
  shows "lex (LWord acc) cs = map_option ((@) [TAtom j]) (lex LStart cs)"
proof (cases cs)
  case Nil
  with assms show ?thesis by simp
next
  case (Cons c cs')
  with assms then_start_lex [where st = "LWord acc" and ts = "[TAtom j]" and c = c and cs = cs'] show ?thesis
    by (simp add: ends_atom_def)
qed

lemma lex_start_word:
  assumes "word_char c" "list_all word_char t" "json_word (c # t) = Some j" "ends_atom cs"
  shows "lex LStart ((c # t) @ cs) = map_option ((@) [TAtom j]) (lex LStart cs)"
proof -
  have "c \<noteq> CHR ''-''" "\<not> is_digit c" "\<not> json_ws c" "c \<notin> set ''{}[],:''" "c \<noteq> CHR 0x22"
    using assms(1) by (auto simp: word_char_def json_ws_def is_digit_def byte_def)
  then have "lstart c = Some (LWord [c], [])"
    using assms(1) by (simp add: lstart_def)
  then show ?thesis
    using lex_word_chars [OF assms(2), of "[c]" cs] lex_word_end [of "rev t @ [c]" j cs] assms(3,4) by simp
qed

lemma num_char_digit: "is_digit c \<Longrightarrow> num_char c"
  by (simp add: num_char_def)

lemma json_exponent_chars: "json_exponent s \<Longrightarrow> list_all num_char s"
  by (auto simp: json_exponent_def list_all_iff num_char_def split: list.splits if_splits)

lemma json_fraction_chars: "json_fraction s \<Longrightarrow> list_all num_char s"
proof -
  assume f: "json_fraction s"
  show ?thesis
  proof (cases "\<exists>cs. s = CHR ''.'' # cs")
    case True
    then obtain cs where s: "s = CHR ''.'' # cs" by blast
    with f have "list_all num_char (dropWhile is_digit cs)"
      by (simp add: json_fraction_def json_exponent_chars)
    moreover have "list_all num_char (takeWhile is_digit cs)"
      using num_char_digit by (auto simp: list_all_iff dest: set_takeWhileD)
    ultimately have "list_all num_char cs"
      using takeWhile_dropWhile_id [of is_digit cs] by (metis list_all_append)
    then show ?thesis by (simp add: s num_char_def)
  next
    case False
    with f show ?thesis
      using json_exponent_chars [of s] by (cases s) (auto simp: json_fraction_def split: if_splits)
  qed
qed

lemma json_number_chars:
  assumes "json_number s"
  shows "list_all num_char s" "s \<noteq> []" "is_digit (hd s) \<or> hd s = CHR ''-''"
proof -
  define t where "t = (case s of [] \<Rightarrow> [] | c # cs \<Rightarrow> if c = CHR ''-'' then cs else s)"
  have i: "takeWhile is_digit t \<noteq> []" and f: "json_fraction (dropWhile is_digit t)"
    using assms by (simp_all add: json_number_def t_def Let_def)
  have "list_all num_char (takeWhile is_digit t)"
    using num_char_digit by (auto simp: list_all_iff dest: set_takeWhileD)
  with json_fraction_chars [OF f] have t: "list_all num_char t"
    using takeWhile_dropWhile_id [of is_digit t] by (metis list_all_append)
  have digit: "t \<noteq> []" "is_digit (hd t)"
    using i by (cases t; auto split: if_splits)+
  show "s \<noteq> []"
    using digit by (auto simp: t_def split: list.splits)
  then obtain c cs where s: "s = c # cs" by (cases s) auto
  show "list_all num_char s" "is_digit (hd s) \<or> hd s = CHR ''-''"
    using t digit by (auto simp: t_def s num_char_def split: if_splits)
qed

lemma lstart_num: "is_digit c \<or> c = CHR ''-'' \<Longrightarrow> lstart c = Some (LNum [c], [])"
proof (elim disjE)
  assume "is_digit c"
  moreover from this have "\<not> json_ws c" "c \<notin> set ''{}[],:''" "c \<noteq> CHR 0x22"
    by (auto simp: json_ws_def is_digit_def byte_def)
  ultimately show ?thesis
    by (simp add: lstart_def)
next
  assume "c = CHR ''-''"
  then show ?thesis
    by (simp add: lstart_def json_ws_def byte_def)
qed

lemma lex_number:
  assumes "json_number s" "ends_atom cs"
  shows "lex LStart (s @ cs) = map_option ((@) [TAtom (JNum s)]) (lex LStart cs)"
proof -
  note chars = json_number_chars [OF assms(1)]
  then obtain c t where s: "s = c # t" by (cases s) auto
  have "lstart c = Some (LNum [c], [])"
    using chars(3) by (simp add: s lstart_num)
  then show ?thesis
    using chars(1) lex_num_chars [of t "[c]" cs] lex_num_end [of "rev t @ [c]" cs] assms
    by (simp add: s)
qed


lemma map_option_Cons_append: "map_option ((#) t) x = map_option ((@) [t]) x"
  by (cases x) auto

lemma lex_punct:
  "lex LStart (CHR '','' # cs) = map_option ((@) [TComma]) (lex LStart cs)"
  "lex LStart (CHR '':'' # cs) = map_option ((@) [TColon]) (lex LStart cs)"
  "lex LStart (CHR ''{'' # cs) = map_option ((@) [TLBrace]) (lex LStart cs)"
  "lex LStart (CHR ''}'' # cs) = map_option ((@) [TRBrace]) (lex LStart cs)"
  "lex LStart (CHR ''['' # cs) = map_option ((@) [TLBrack]) (lex LStart cs)"
  "lex LStart (CHR '']'' # cs) = map_option ((@) [TRBrack]) (lex LStart cs)"
  by (simp_all add: lstart_def json_ws_def byte_def)

lemma map_option_self [simp]: "map_option (\<lambda>x. x) y = y"
  by (cases y) auto

lemma lex_join:
  assumes "list_all (\<lambda>x. \<forall>cs. ends_atom cs \<longrightarrow> lex LStart (f x @ cs) = map_option ((@) (g x)) (lex LStart cs)) xs"
    and "ends_atom cs"
  shows "lex LStart (join_with CHR '','' (map f xs) @ cs) = map_option ((@) (sep_toks (map g xs))) (lex LStart cs)"
  using assms(1)
proof (induction xs rule: induct_list012)
  case 1
  then show ?case by simp
next
  case (2 x)
  with assms(2) show ?case by simp
next
  case (3 x y zs)
  have "ends_atom (CHR '','' # join_with CHR '','' (map f (y # zs)) @ cs)"
    by (rule ends_atomI) simp
  with 3 show ?case
    by (cases "lex LStart cs") (simp_all add: lex_punct del: lex.simps)
qed

lemma lex_print:
  "json_ok j \<Longrightarrow> ends_atom cs \<Longrightarrow> lex LStart (json_print j @ cs) = map_option ((@) (toks j)) (lex LStart cs)"
proof (induction j arbitrary: cs)
  case JNull
  then show ?case
    using lex_start_word [of "CHR ''n''" "''ull''" JNull cs]
    by (simp add: word_char_def json_word_def byte_def map_option_Cons_append del: lex.simps)
next
  case (JBool b)
  then show ?case
    using lex_start_word [of "CHR ''t''" "''rue''" "JBool True" cs]
      lex_start_word [of "CHR ''f''" "''alse''" "JBool False" cs]
    by (simp add: word_char_def json_word_def byte_def map_option_Cons_append del: lex.simps)
next
  case (JNum s)
  then show ?case by (simp add: lex_number map_option_Cons_append)
next
  case (JStr s)
  then show ?case by (simp add: lex_json_quote map_option_Cons_append)
next
  case (JArr xs)
  have "list_all (\<lambda>x. \<forall>cs. ends_atom cs \<longrightarrow>
      lex LStart (json_print x @ cs) = map_option ((@) (toks x)) (lex LStart cs)) xs"
    using JArr by (simp add: list_all_iff)
  from lex_join [OF this, of "CHR '']'' # cs"] show ?case
    by (cases "lex LStart cs") (simp_all add: lex_punct ends_atomI del: lex.simps)
next
  case (JObj kvs)
  have "list_all (\<lambda>kv. \<forall>cs. ends_atom cs \<longrightarrow>
      lex LStart ((json_quote (fst kv) @ '':'' @ json_print (snd kv)) @ cs)
      = map_option ((@) (TStr (fst kv) # TColon # toks (snd kv))) (lex LStart cs)) kvs"
    unfolding list_all_iff
  proof (intro ballI allI impI)
    fix kv cs
    assume kv: "kv \<in> set kvs" and cs: "ends_atom cs"
    have "lex LStart (json_print (snd kv) @ cs) = map_option ((@) (toks (snd kv))) (lex LStart cs)"
      using kv cs JObj.prems(1) by (intro JObj.IH [of kv "snd kv"]) (auto simp: list_all_iff snds.simps)
    moreover have "utf8_ok (fst kv)"
      using kv JObj.prems(1) by (auto simp: list_all_iff)
    ultimately show "lex LStart ((json_quote (fst kv) @ '':'' @ json_print (snd kv)) @ cs)
      = map_option ((@) (TStr (fst kv) # TColon # toks (snd kv))) (lex LStart cs)"
      by (simp add: lex_json_quote lex_punct map_option_Cons_append del: lex.simps)
  qed
  from lex_join [OF this, of "CHR ''}'' # cs"] show ?case
    by (cases "lex LStart cs") (simp_all add: lex_punct ends_atomI del: lex.simps)
qed

lemma pstep_value:
  "m \<in> {PValue, PValueOrEnd} \<Longrightarrow> t \<noteq> TRBrack \<Longrightarrow> pstep (P m st) t = pvalue t st"
  by (cases t; cases st; cases "hd st") auto

lemma toks_head: "\<exists>t ts. toks j = t # ts \<and> t \<noteq> TRBrack"
  by (cases j) auto

definition then_run :: "pstate option \<Rightarrow> jtok list \<Rightarrow> pstate option" where
  "then_run p ts = (case p of None \<Rightarrow> None | Some p' \<Rightarrow> prun p' ts)"

lemma prun_Cons: "prun p (t # ts) = then_run (pstep p t) ts"
  by (simp add: then_run_def)

text \<open>A run of the token machine over the tokens of a value is one \<open>accept\<close>.\<close>

definition runs_as :: "json \<Rightarrow> frame list \<Rightarrow> bool" where
  "runs_as j st \<longleftrightarrow>
     (\<forall>m ts. m \<in> {PValue, PValueOrEnd} \<longrightarrow> prun (P m st) (toks j @ ts) = then_run (accept j st) ts)"

lemma prun_array:
  assumes "xs \<noteq> []" "m \<in> {PValue, PValueOrEnd}" "list_all (\<lambda>x. \<forall>acc. runs_as x (FArr acc # st)) xs"
  shows "prun (P m (FArr acc # st)) (sep_toks (map toks xs) @ TRBrack # ts)
    = then_run (accept (JArr (rev acc @ xs)) st) ts"
  using assms
proof (induction xs arbitrary: acc m rule: induct_list012)
  case 1
  then show ?case by simp
next
  case (2 x)
  then show ?case by (auto simp: runs_as_def then_run_def)
next
  case (3 x y zs)
  have run: "prun (P m (FArr acc # st)) (toks x @ us) = prun (P PAfter (FArr (x # acc) # st)) us" for us
    using 3(4,5) by (auto simp: runs_as_def then_run_def)
  have "prun (P PValue (FArr (x # acc) # st)) (sep_toks (map toks (y # zs)) @ TRBrack # ts)
      = then_run (accept (JArr (rev (x # acc) @ y # zs)) st) ts"
    by (rule 3(2)) (use 3(5) in simp_all)
  then show ?case by (simp add: run)
qed

lemma prun_object:
  assumes "kvs \<noteq> []" "m \<in> {PKey, PKeyOrEnd}"
    "list_all (\<lambda>kv. \<forall>acc k. runs_as (snd kv) (FKey acc k # st)) kvs"
  shows "prun (P m (FObj acc # st))
      (sep_toks (map (\<lambda>kv. TStr (fst kv) # TColon # toks (snd kv)) kvs) @ TRBrace # ts)
    = then_run (accept (JObj (rev acc @ kvs)) st) ts"
  using assms
proof (induction kvs arbitrary: acc m rule: induct_list012)
  case 1
  then show ?case by simp
next
  case (2 kv)
  then show ?case by (auto simp: runs_as_def then_run_def)
next
  case (3 kv kw kvs)
  have run: "prun (P PValue (FKey acc (fst kv) # st)) (toks (snd kv) @ us)
      = prun (P PAfter (FObj (kv # acc) # st)) us" for us
    using 3(5) by (simp add: runs_as_def then_run_def)
  have "prun (P PKey (FObj (kv # acc) # st))
      (sep_toks (map (\<lambda>kv. TStr (fst kv) # TColon # toks (snd kv)) (kw # kvs)) @ TRBrace # ts)
      = then_run (accept (JObj (rev (kv # acc) @ kw # kvs)) st) ts"
    by (rule 3(2)) (use 3(5) in simp_all)
  then show ?case using 3(4) by (auto simp: run)
qed

lemma foldr_max_le: "foldr max (map f xs) (0 :: nat) \<le> n \<longleftrightarrow> (\<forall>x \<in> set xs. f x \<le> n)"
  by (induction xs) auto

lemma prun_toks: "json_depth j + length st \<le> max_depth \<Longrightarrow> runs_as j st"
proof (induction j arbitrary: st)
  case (JArr xs)
  have opn: "open_frame PValueOrEnd (FArr []) st = Some (P PValueOrEnd (FArr [] # st))"
    using JArr.prems by (simp add: open_frame_def)
  have "foldr max (map json_depth xs) 0 \<le> max_depth - Suc (length st)"
    using JArr.prems by simp
  then have el: "list_all (\<lambda>x. \<forall>acc. runs_as x (FArr acc # st)) xs"
    using JArr by (auto simp: list_all_iff foldr_max_le)
  show ?case
    unfolding runs_as_def
  proof (intro allI impI)
    fix m ts
    assume "m \<in> {PValue, PValueOrEnd}"
    then have "pstep (P m st) TLBrack = Some (P PValueOrEnd (FArr [] # st))"
      by (subst pstep_value) (auto simp: opn)
    then show "prun (P m st) (toks (JArr xs) @ ts) = then_run (accept (JArr xs) st) ts"
      using prun_array [OF _ _ el, of PValueOrEnd "[]" ts] by (cases "xs = []") (simp_all add: then_run_def)
  qed
next
  case (JObj kvs)
  have opn: "open_frame PKeyOrEnd (FObj []) st = Some (P PKeyOrEnd (FObj [] # st))"
    using JObj.prems by (simp add: open_frame_def)
  have "foldr max (map (\<lambda>kv. json_depth (snd kv)) kvs) 0 \<le> max_depth - Suc (length st)"
    using JObj.prems by simp
  then have el: "list_all (\<lambda>kv. \<forall>acc k. runs_as (snd kv) (FKey acc k # st)) kvs"
    using JObj by (fastforce simp: list_all_iff foldr_max_le snds.simps)
  show ?case
    unfolding runs_as_def
  proof (intro allI impI)
    fix m ts
    assume "m \<in> {PValue, PValueOrEnd}"
    then have "pstep (P m st) TLBrace = Some (P PKeyOrEnd (FObj [] # st))"
      by (subst pstep_value) (auto simp: opn)
    then show "prun (P m st) (toks (JObj kvs) @ ts) = then_run (accept (JObj kvs) st) ts"
      using prun_object [OF _ _ el, of PKeyOrEnd "[]" ts] by (cases "kvs = []") (simp_all add: then_run_def)
  qed
qed (auto simp: runs_as_def prun_Cons pstep_value simp del: prun.simps)

lemma json_parse_print_ws:
  assumes "json_ok j" "json_depth j \<le> max_depth" "lex LStart cs = Some []" "ends_atom cs"
  shows "json_parse (json_print j @ cs) = Some j"
proof -
  have "lex LStart (json_print j @ cs) = Some (toks j)"
    using lex_print [of j cs] assms by simp
  moreover have "prun (P PValue []) (toks j) = Some (PDone j)"
    using prun_toks [of j "[]"] assms(2) by (auto simp: runs_as_def then_run_def dest!: spec [of _ PValue] spec [of _ "[]"])
  ultimately show ?thesis by (simp add: json_parse_def)
qed

lemma json_parse_print:
  "json_ok j \<Longrightarrow> json_depth j \<le> max_depth \<Longrightarrow> json_parse (json_print j) = Some j"
  using json_parse_print_ws [of j "[]"] by (simp add: ends_atom_def)

lemma json_parse_encode:
  "json_ok j \<Longrightarrow> json_depth j \<le> max_depth \<Longrightarrow> json_parse (json_encode j) = Some j"
  unfolding json_encode_def
  by (rule json_parse_print_ws)
    (simp_all add: lstart_def json_ws_def byte_def ends_atom_def num_char_def word_char_def is_digit_def)

subsection \<open>The first value of a stream\<close>

text \<open>
  \<^verbatim>\<open>Decoder.Decode\<close> reads one value and stops at its last byte; what follows is not looked at.
\<close>

fun prun_first :: "pstate \<Rightarrow> jtok list \<Rightarrow> pstate option" where
  "prun_first (PDone v) ts = Some (PDone v)"
| "prun_first (P m st) [] = Some (P m st)"
| "prun_first (P m st) (t # ts) = (case pstep (P m st) t of None \<Rightarrow> None | Some p \<Rightarrow> prun_first p ts)"

fun scan_value :: "lstate \<Rightarrow> pstate \<Rightarrow> string \<Rightarrow> json option" where
  "scan_value st p [] =
     (case lfinish st of
        None \<Rightarrow> None
      | Some ts \<Rightarrow> (case prun_first p ts of Some (PDone v) \<Rightarrow> Some v | _ \<Rightarrow> None))"
| "scan_value st p (c # cs) =
     (case lstep st c of
        None \<Rightarrow> None
      | Some (st', ts) \<Rightarrow>
          (case prun_first p ts of
             None \<Rightarrow> None
           | Some (PDone v) \<Rightarrow> Some v
           | Some p' \<Rightarrow> scan_value st' p' cs))"

definition json_first :: "string \<Rightarrow> json option" where
  "json_first s = scan_value LStart (P PValue []) s"

lemma prun_PDone: "prun (PDone v) ts = Some p \<longleftrightarrow> ts = [] \<and> p = PDone v"
  by (cases ts) auto

lemma prun_append: "prun p (ts @ us) = (case prun p ts of None \<Rightarrow> None | Some q \<Rightarrow> prun q us)"
  by (induction ts arbitrary: p) (auto split: option.splits)

lemma prun_prun_first: "prun p ts = Some q \<Longrightarrow> prun_first p ts = Some q"
  by (induction p ts rule: prun_first.induct) (auto simp: prun_PDone split: option.splits)

lemma scan_value_lex:
  "lex st cs = Some ts \<Longrightarrow> prun p ts = Some (PDone v) \<Longrightarrow> scan_value st p cs = Some v"
proof (induction cs arbitrary: st p ts)
  case Nil
  then show ?case by (simp add: prun_prun_first)
next
  case (Cons c cs)
  then obtain st' us ts' where step: "lstep st c = Some (st', us)" "lex st' cs = Some ts'" "ts = us @ ts'"
    by (auto split: option.splits)
  with Cons.prems obtain q where q: "prun p us = Some q" "prun q ts' = Some (PDone v)"
    by (auto simp: prun_append split: option.splits)
  with Cons.IH [OF step(2) q(2)] step(1) show ?case
    by (cases q) (auto simp: prun_prun_first prun_PDone)
qed

lemma json_first_parse: "json_parse s = Some v \<Longrightarrow> json_first s = Some v"
  by (auto simp: json_parse_def json_first_def scan_value_lex split: option.splits pstate.splits)

subsection \<open>Unmarshalling into a struct\<close>

text \<open>
  A struct is described by its fields: the name in the \<^verbatim>\<open>json:\<close> tag and how a value is stored.
  Storing a value of the wrong type is an error that is remembered while the other fields are
  still decoded; \<^verbatim>\<open>null\<close> leaves a field as it is; a repeated key overwrites. A key selects the
  field of exactly that name, or else the field whose name is equal under Unicode case folding
  (U+017F folds with \<open>s\<close> and U+212A with \<open>k\<close>).
\<close>

type_synonym 's field = "string \<times> (json \<Rightarrow> 's \<Rightarrow> 's option)"

definition fold_rune :: "rune \<Rightarrow> rune" where
  "fold_rune r = (if 65 \<le> r \<and> r \<le> 90 then r + 32 else if r = 8490 then 107 else if r = 383 then 115 else r)"

definition fold_name :: "string \<Rightarrow> rune list" where
  "fold_name s = map (fold_rune \<circ> fst) (runes s)"

definition find_field :: "'s field list \<Rightarrow> string \<Rightarrow> 's field option" where
  "find_field fs k =
     (case find (\<lambda>f. fst f = k) fs of
        Some f \<Rightarrow> Some f
      | None \<Rightarrow> find (\<lambda>f. fold_name (fst f) = fold_name k) fs)"

definition str_field :: "string \<Rightarrow> (string \<Rightarrow> 's \<Rightarrow> 's) \<Rightarrow> 's field" where
  "str_field name upd =
     (name, \<lambda>j s. case j of JStr v \<Rightarrow> Some (upd v s) | JNull \<Rightarrow> Some s | _ \<Rightarrow> None)"

definition bool_field :: "string \<Rightarrow> (bool \<Rightarrow> 's \<Rightarrow> 's) \<Rightarrow> 's field" where
  "bool_field name upd =
     (name, \<lambda>j s. case j of JBool v \<Rightarrow> Some (upd v s) | JNull \<Rightarrow> Some s | _ \<Rightarrow> None)"

text \<open>\<^verbatim>\<open>strconv.ParseInt(s, 10, 64)\<close> on a JSON number: fractions, exponents and numbers outside
  the 64-bit range are rejected.\<close>

definition parse_int64 :: "string \<Rightarrow> int option" where
  "parse_int64 s =
     (let neg = (s \<noteq> [] \<and> hd s = CHR ''-''); ds = (if neg then tl s else s) in
      if ds = [] \<or> \<not> list_all is_digit ds then None
      else (let n = (if neg then - int (digits_val ds) else int (digits_val ds))
            in if in_i64 n then Some n else None))"

definition int_field :: "string \<Rightarrow> (int \<Rightarrow> 's \<Rightarrow> 's) \<Rightarrow> 's field" where
  "int_field name upd =
     (name, \<lambda>j s. case j of JNum v \<Rightarrow> map_option (\<lambda>n. upd n s) (parse_int64 v) | JNull \<Rightarrow> Some s | _ \<Rightarrow> None)"

definition store_field :: "'s field list \<Rightarrow> string \<times> json \<Rightarrow> 's \<times> bool \<Rightarrow> 's \<times> bool" where
  "store_field fs kv = (\<lambda>(s, bad).
     case find_field fs (fst kv) of
       None \<Rightarrow> (s, bad)
     | Some f \<Rightarrow> (case snd f (snd kv) s of None \<Rightarrow> (s, True) | Some s' \<Rightarrow> (s', bad)))"

text \<open>The struct after the call, and whether the call returned an error.\<close>

definition store_json :: "'s field list \<Rightarrow> json option \<Rightarrow> 's \<Rightarrow> 's \<times> bool" where
  "store_json fs v s =
     (case v of
        Some (JObj kvs) \<Rightarrow> fold (store_field fs) kvs (s, False)
      | Some JNull \<Rightarrow> (s, False)
      | _ \<Rightarrow> (s, True))"

definition json_unmarshal :: "'s field list \<Rightarrow> string \<Rightarrow> 's \<Rightarrow> 's \<times> bool" where
  "json_unmarshal fs body s = store_json fs (json_parse body) s"

definition json_decode :: "'s field list \<Rightarrow> string \<Rightarrow> 's \<Rightarrow> 's \<times> bool" where
  "json_decode fs input s = store_json fs (json_first input) s"

lemma find_field_exact: "f \<in> set fs \<Longrightarrow> distinct (map fst fs) \<Longrightarrow> find_field fs (fst f) = Some f"
proof -
  assume f: "f \<in> set fs" "distinct (map fst fs)"
  then have "find (\<lambda>g. fst g = fst f) fs = Some f"
    by (induction fs) auto
  then show ?thesis by (simp add: find_field_def)
qed

lemma field_names [simp]:
  "fst (str_field n u) = n" "fst (bool_field n u') = n" "fst (int_field n u'') = n"
  by (simp_all add: str_field_def bool_field_def int_field_def)

lemma field_store [simp]:
  "snd (str_field n u) (JStr v) s = Some (u v s)"
  "snd (bool_field n u') (JBool b) s = Some (u' b s)"
  "snd (int_field n u'') (JNum w) s = map_option (\<lambda>i. u'' i s) (parse_int64 w)"
  by (simp_all add: str_field_def bool_field_def int_field_def)

subsection \<open>Integers as JSON numbers\<close>

lemma itoa_digits: "list_all is_digit (nat_digits n)" "hd (nat_digits n) \<noteq> CHR ''-''"
proof -
  show "list_all is_digit (nat_digits n)" by (rule nat_digits_digits)
  then have "is_digit (hd (nat_digits n))"
    by (cases "nat_digits n") auto
  then show "hd (nat_digits n) \<noteq> CHR ''-''"
    by (auto simp: is_digit_def byte_def)
qed

lemma parse_int64_itoa: "in_i64 n \<Longrightarrow> parse_int64 (itoa n) = Some n"
  by (simp add: parse_int64_def itoa_def itoa_digits digits_val_nat_digits)

lemma nat_digits_hd_zero: "hd (nat_digits n) = CHR ''0'' \<Longrightarrow> n = 0"
proof (induction n rule: nat_digits.induct)
  case (1 n)
  show ?case
  proof (cases "n < 10")
    case True
    have "byte (hd (nat_digits n)) = 48"
      using 1(2) by (simp add: byte_def)
    with True show ?thesis
      by (simp add: nat_digits.simps [of n])
  next
    case False
    have "hd (nat_digits (n div 10)) = CHR ''0''"
      using 1(2) False by (simp add: nat_digits.simps [of n])
    with 1(1) False have "n div 10 = 0" by blast
    with False show ?thesis by simp
  qed
qed

lemma json_number_digits:
  "list_all is_digit ds \<Longrightarrow> ds \<noteq> [] \<Longrightarrow> (hd ds = CHR ''0'' \<longrightarrow> length ds = 1) \<Longrightarrow>
     hd ds \<noteq> CHR ''-'' \<Longrightarrow> json_number ds \<and> json_number (CHR ''-'' # ds)"
proof -
  assume d: "list_all is_digit ds" "ds \<noteq> []" "hd ds = CHR ''0'' \<longrightarrow> length ds = 1" "hd ds \<noteq> CHR ''-''"
  then obtain c cs where ds: "ds = c # cs" "c \<noteq> CHR ''-''" by (cases ds) auto
  have tw: "takeWhile is_digit ds = ds" "dropWhile is_digit ds = []"
    using d(1) by (simp_all add: takeWhile_all dropWhile_all)
  have t: "(case ds of [] \<Rightarrow> [] | c # cs \<Rightarrow> if c = CHR ''-'' then cs else ds) = ds"
    using ds by simp
  show ?thesis
    using d(2,3) by (simp add: json_number_def t tw json_fraction_def)
qed

lemma json_number_itoa: "json_number (itoa n)"
proof -
  have "hd (nat_digits k) = CHR ''0'' \<longrightarrow> length (nat_digits k) = 1" for k
    using nat_digits_hd_zero [of k] by (auto simp: nat_digits.simps [of 0])
  then show ?thesis
    using json_number_digits itoa_digits by (simp add: itoa_def)
qed

end
