(* ===== verification/Jwt.thy ===== *)
theory Jwt
  imports Go_JSON Go_Time
begin

text \<open>
  \<^verbatim>\<open>internal/protocol/jwt.go\<close>: the expiry of an access token, from the token response or from the
  token's own \<open>exp\<close> claim, with the two decoders of \<^verbatim>\<open>encoding/base64\<close> it uses. The decoders skip
  carriage returns and newlines and, as the default encodings of the package do, ignore
  left-over bits.
\<close>

subsection \<open>Base64\<close>

definition b64_value :: "char \<Rightarrow> nat option" where
  "b64_value c =
     (let b = byte c in
      if 65 \<le> b \<and> b \<le> 90 then Some (b - 65)
      else if 97 \<le> b \<and> b \<le> 122 then Some (b - 71)
      else if 48 \<le> b \<and> b \<le> 57 then Some (b + 4)
      else if b = 45 then Some 62
      else if b = 95 then Some 63
      else None)"

definition b64_byte1 :: "nat \<Rightarrow> nat \<Rightarrow> char" where
  "b64_byte1 x y = chr (x * 4 + y div 16)"

definition b64_byte2 :: "nat \<Rightarrow> nat \<Rightarrow> char" where
  "b64_byte2 y z = chr (y mod 16 * 16 + z div 4)"

definition b64_byte3 :: "nat \<Rightarrow> nat \<Rightarrow> char" where
  "b64_byte3 z v = chr (z mod 4 * 64 + v)"

fun b64_quads :: "bool \<Rightarrow> string \<Rightarrow> string option" where
  "b64_quads pad [] = Some []"
| "b64_quads pad [a] = None"
| "b64_quads pad [a, b] =
     (case (b64_value a, b64_value b) of
        (Some x, Some y) \<Rightarrow> if pad then None else Some [b64_byte1 x y]
      | _ \<Rightarrow> None)"
| "b64_quads pad [a, b, c] =
     (case (b64_value a, b64_value b, b64_value c) of
        (Some x, Some y, Some z) \<Rightarrow> if pad then None else Some [b64_byte1 x y, b64_byte2 y z]
      | _ \<Rightarrow> None)"
| "b64_quads pad (a # b # c # d # rest) =
     (case (b64_value a, b64_value b) of
        (Some x, Some y) \<Rightarrow>
          (case (b64_value c, b64_value d) of
             (Some z, Some v) \<Rightarrow>
               map_option ((@) [b64_byte1 x y, b64_byte2 y z, b64_byte3 z v]) (b64_quads pad rest)
           | (Some z, None) \<Rightarrow>
               if pad \<and> d = CHR ''='' \<and> rest = [] then Some [b64_byte1 x y, b64_byte2 y z] else None
           | (None, _) \<Rightarrow>
               if pad \<and> c = CHR ''='' \<and> d = CHR ''='' \<and> rest = [] then Some [b64_byte1 x y] else None)
      | _ \<Rightarrow> None)"

definition b64_decode :: "bool \<Rightarrow> string \<Rightarrow> string option" where
  "b64_decode pad s = b64_quads pad (filter (\<lambda>c. c \<noteq> CHR 0x0A \<and> c \<noteq> CHR 0x0D) s)"

text \<open>\<^verbatim>\<open>base64.RawURLEncoding\<close> and \<^verbatim>\<open>base64.URLEncoding\<close>.\<close>

definition RawURLEncoding_DecodeString :: "string \<Rightarrow> string option" where
  "RawURLEncoding_DecodeString = b64_decode False"

definition URLEncoding_DecodeString :: "string \<Rightarrow> string option" where
  "URLEncoding_DecodeString = b64_decode True"

subsection \<open>The functions of the file\<close>

definition padB64 :: "string \<Rightarrow> string" where
  "padB64 s =
     (if length s mod 4 = 2 then s @ ''==''
      else if length s mod 4 = 3 then s @ ''=''
      else s)"

definition claims_fields :: "int field list" where
  "claims_fields = [int_field ''exp'' (\<lambda>n _. n)]"

definition JWTExp :: "string \<Rightarrow> int" where
  "JWTExp accessToken =
     (if accessToken = '''' \<or> \<not> contains accessToken ''.'' then 0
      else
        (let parts = split_on CHR ''.'' accessToken in
         if length parts < 2 then 0
         else
           (case (case RawURLEncoding_DecodeString (parts ! 1) of
                    Some p \<Rightarrow> Some p
                  | None \<Rightarrow> URLEncoding_DecodeString (padB64 (parts ! 1))) of
              None \<Rightarrow> 0
            | Some payload \<Rightarrow>
                (case json_unmarshal claims_fields payload 0 of
                   (exp, True) \<Rightarrow> 0
                 | (exp, False) \<Rightarrow> exp))))"

text \<open>The expiry and whether there is one.\<close>

definition ExpiresAtFromToken :: "string \<Rightarrow> int \<Rightarrow> gotime \<Rightarrow> gotime \<times> bool" where
  "ExpiresAtFromToken accessToken expiresIn receivedAt =
     (if expiresIn > 0 then (time_add receivedAt (seconds expiresIn), True)
      else (let unix = JWTExp accessToken in
            if unix > 0 then (time_unix unix, True) else (0, False)))"

subsection \<open>Reading a well-formed token\<close>

text \<open>The encoder of RFC 4648, section 5, without padding, as the reference for the decoder.\<close>

definition b64_char :: "nat \<Rightarrow> char" where
  "b64_char n =
     (if n < 26 then chr (n + 65) else if n < 52 then chr (n + 71) else if n < 62 then chr (n - 4)
      else if n = 62 then CHR ''-'' else CHR ''_'')"

fun b64_encode :: "string \<Rightarrow> string" where
  "b64_encode [] = []"
| "b64_encode [a] = [b64_char (byte a div 4), b64_char (byte a mod 4 * 16)]"
| "b64_encode [a, b] =
     [b64_char (byte a div 4), b64_char (byte a mod 4 * 16 + byte b div 16), b64_char (byte b mod 16 * 4)]"
| "b64_encode (a # b # c # rest) =
     b64_char (byte a div 4) # b64_char (byte a mod 4 * 16 + byte b div 16)
     # b64_char (byte b mod 16 * 4 + byte c div 64) # b64_char (byte c mod 64) # b64_encode rest"

lemma b64_value_char: "n < 64 \<Longrightarrow> b64_value (b64_char n) = Some n"
proof -
  assume n: "n < 64"
  have "byte CHR ''-'' = 45" "byte CHR ''_'' = 95" by (simp_all add: byte_def)
  with n show ?thesis
    by (cases "n = 62"; cases "n = 63") (auto simp: b64_char_def b64_value_def Let_def)
qed

lemma b64_char_plain: "n < 64 \<Longrightarrow> b64_char n \<noteq> CHR 0x0A \<and> b64_char n \<noteq> CHR 0x0D \<and> b64_char n \<noteq> CHR ''.''"
proof -
  assume n: "n < 64"
  have "byte CHR 0x0A = 10" "byte CHR 0x0D = 13" "byte CHR ''.'' = 46" by (simp_all add: byte_def)
  moreover have "b64_value c = None" if "byte c = 10 \<or> byte c = 13 \<or> byte c = 46" for c
    using that by (auto simp: b64_value_def Let_def)
  ultimately show ?thesis using b64_value_char [OF n] by fastforce
qed

lemma b64_bounds [simp]:
  "byte x div 4 < 64" "byte x mod 4 * 16 + byte y div 16 < 64" "byte x mod 16 * 4 + byte y div 64 < 64"
  "byte x mod 4 * 16 < 64" "byte x mod 16 * 4 < 64" "byte x mod 64 < 64"
proof -
  have "byte x div 4 < 64" "byte y div 16 < 16" "byte y div 64 < 4"
    by (rule less_mult_imp_div_less, simp)+
  moreover have "byte x mod 4 < 4" "byte x mod 16 < 16" "byte x mod 64 < 64" by simp_all
  ultimately show "byte x div 4 < 64" "byte x mod 4 * 16 + byte y div 16 < 64"
    "byte x mod 16 * 4 + byte y div 64 < 64" "byte x mod 4 * 16 < 64" "byte x mod 16 * 4 < 64"
    "byte x mod 64 < 64"
    by linarith+
qed

lemma b64_encode_chars: "list_all (\<lambda>c. c \<noteq> CHR 0x0A \<and> c \<noteq> CHR 0x0D \<and> c \<noteq> CHR ''.'') (b64_encode s)"
  by (induction s rule: b64_encode.induct) (simp_all add: b64_char_plain)

lemma b64_group:
  fixes x y z :: nat
  assumes "x < 256" "y < 256" "z < 256"
  shows "x div 4 * 4 + (x mod 4 * 16 + y div 16) div 16 = x"
    "(x mod 4 * 16 + y div 16) mod 16 * 16 + (y mod 16 * 4 + z div 64) div 4 = y"
    "(y mod 16 * 4 + z div 64) mod 4 * 64 + z mod 64 = z"
proof -
  have "y div 16 < 16" "z div 64 < 4" using assms by auto
  then have "(x mod 4 * 16 + y div 16) div 16 = x mod 4" "(x mod 4 * 16 + y div 16) mod 16 = y div 16"
    "(y mod 16 * 4 + z div 64) div 4 = y mod 16" "(y mod 16 * 4 + z div 64) mod 4 = z div 64"
    by simp_all
  then show "x div 4 * 4 + (x mod 4 * 16 + y div 16) div 16 = x"
    "(x mod 4 * 16 + y div 16) mod 16 * 16 + (y mod 16 * 4 + z div 64) div 4 = y"
    "(y mod 16 * 4 + z div 64) mod 4 * 64 + z mod 64 = z"
    by (simp_all add: div_mod_decomp mult.commute)
qed

lemma b64_quads_encode: "b64_quads False (b64_encode s) = Some s"
proof (induction s rule: b64_encode.induct)
  case 1
  then show ?case by simp
next
  case (2 a)
  show ?case
    using b64_group(1) [of "byte a" 0 0] by (simp add: b64_value_char b64_byte1_def)
next
  case (3 a b)
  show ?case
    using b64_group(1,2) [of "byte a" "byte b" 0] by (simp add: b64_value_char b64_byte1_def b64_byte2_def)
next
  case (4 a b c rest)
  then show ?case
    using b64_group [of "byte a" "byte b" "byte c"]
    by (simp add: b64_value_char b64_byte1_def b64_byte2_def b64_byte3_def)
qed

lemma RawURL_decode_encode: "RawURLEncoding_DecodeString (b64_encode s) = Some s"
proof -
  have "filter (\<lambda>c. c \<noteq> CHR 0x0A \<and> c \<noteq> CHR 0x0D) (b64_encode s) = b64_encode s"
    using b64_encode_chars [of s] by (simp add: list_all_iff)
  then show ?thesis
    by (simp only: RawURLEncoding_DecodeString_def b64_decode_def b64_quads_encode)
qed

lemma split_on_two:
  "d \<notin> set a \<Longrightarrow> d \<notin> set b \<Longrightarrow> \<exists>rest. split_on d (a @ d # b @ d # c) = a # b # rest"
  using split_on_append_sep [of d a "b @ d # c"] split_on_append_sep [of d b c]
  by (simp add: split_on_no_sep)

lemma store_others:
  "list_all (\<lambda>kv. find_field fs (fst kv) = None) kvs \<Longrightarrow> fold (store_field fs) kvs x = x"
  by (induction kvs arbitrary: x) (auto simp: store_field_def split: prod.splits)

text \<open>A claim other than \<open>exp\<close>: the decoder compares names up to case folding.\<close>

definition other_claim :: "string \<times> json \<Rightarrow> bool" where
  "other_claim kv \<longleftrightarrow> fold_name (fst kv) \<noteq> fold_name ''exp''"

lemma other_claim_find: "other_claim kv \<longleftrightarrow> find_field claims_fields (fst kv) = None"
  by (auto simp: other_claim_def find_field_def claims_fields_def)

lemma find_exp: "find_field claims_fields ''exp'' = Some (int_field ''exp'' (\<lambda>n _. n))"
  by (simp add: find_field_def claims_fields_def)

lemma unmarshal_claims:
  assumes "json_parse payload = Some (JObj kvs)" "list_all other_claim pre" "list_all other_claim post"
  shows "kvs = pre @ (''exp'', JNum v) # post \<Longrightarrow>
      json_unmarshal claims_fields payload 0 = (case parse_int64 v of None \<Rightarrow> (0, True) | Some n \<Rightarrow> (n, False))"
    "kvs = pre \<Longrightarrow> json_unmarshal claims_fields payload 0 = (0, False)"
proof -
  note o = assms(2,3) [unfolded other_claim_find]
  have "json_unmarshal claims_fields payload 0 = fold (store_field claims_fields) kvs (0, False)"
    by (simp add: json_unmarshal_def store_json_def assms(1))
  then show "kvs = pre @ (''exp'', JNum v) # post \<Longrightarrow>
      json_unmarshal claims_fields payload 0 = (case parse_int64 v of None \<Rightarrow> (0, True) | Some n \<Rightarrow> (n, False))"
    "kvs = pre \<Longrightarrow> json_unmarshal claims_fields payload 0 = (0, False)"
    using store_others [OF o(1)] store_others [OF o(2)]
    by (simp_all add: store_field_def find_exp split: option.split)
qed

lemma JWTExp_payload:
  assumes "CHR ''.'' \<notin> set header"
  shows "JWTExp (header @ ''.'' @ b64_encode payload @ ''.'' @ sig) =
    (case json_unmarshal claims_fields payload 0 of (exp, True) \<Rightarrow> 0 | (exp, False) \<Rightarrow> exp)"
proof -
  let ?p = "b64_encode payload"
  have dot: "CHR ''.'' \<notin> set ?p"
    using b64_encode_chars by (auto simp: list_all_iff)
  obtain rest where split: "split_on CHR ''.'' (header @ CHR ''.'' # ?p @ CHR ''.'' # sig) = header # ?p # rest"
    using split_on_two [OF assms(1) dot] by blast
  have "contains (header @ ''.'' @ ?p @ ''.'' @ sig) ''.''"
    by (rule contains_split)
  then show ?thesis
    using split by (simp add: JWTExp_def RawURL_decode_encode)
qed

text \<open>
  Property C39. The expiry of a JWT. For any header and signature, and a payload that is any JSON text of an
  object with any other claims around it, an \<open>exp\<close> claim that is a 64-bit integer is read back exactly. A claim
  with a fraction, an exponent or more than 64 bits, which a NumericDate may have, counts as none: 0, as for
  a payload without the claim.
\<close>

theorem JWTExp_roundtrip:
  assumes "CHR ''.'' \<notin> set header" "list_all other_claim pre" "list_all other_claim post"
    and "json_parse payload = Some (JObj (pre @ claim @ post))"
  shows "(in_i64 n \<and> claim = [(''exp'', JNum (itoa n))] \<longrightarrow>
      JWTExp (header @ ''.'' @ b64_encode payload @ ''.'' @ sig) = n)
    \<and> (claim = [(''exp'', JNum v)] \<and> parse_int64 v = None \<or> claim = [] \<longrightarrow>
      JWTExp (header @ ''.'' @ b64_encode payload @ ''.'' @ sig) = 0)"
proof (intro conjI impI)
  note run = JWTExp_payload [OF assms(1), of payload sig]
  show "JWTExp (header @ ''.'' @ b64_encode payload @ ''.'' @ sig) = n" if "in_i64 n \<and> claim = [(''exp'', JNum (itoa n))]"
    unfolding run using unmarshal_claims(1) [OF assms(4,2,3), of "itoa n"] that by (simp add: parse_int64_itoa)
  show "JWTExp (header @ ''.'' @ b64_encode payload @ ''.'' @ sig) = 0"
    if "claim = [(''exp'', JNum v)] \<and> parse_int64 v = None \<or> claim = []"
    using that
  proof
    assume "claim = [(''exp'', JNum v)] \<and> parse_int64 v = None"
    with unmarshal_claims(1) [OF assms(4,2,3), of v] show ?thesis unfolding run by simp
  next
    assume "claim = []"
    with unmarshal_claims(2) [OF assms(4), of "pre @ post" "[]"] assms(2,3) show ?thesis unfolding run by simp
  qed
qed

theorem JWTExp_roundtrip_witness:
  "JWTExp (''aGVhZGVy'' @ ''.'' @ b64_encode (json_print (JObj [(''sub'', JStr ''u1''), (''exp'', JNum (itoa 1700000000)), (''scope'', JNull)])) @ ''.'' @ ''c2ln'') = 1700000000
   \<and> JWTExp (''aGVhZGVy'' @ ''.'' @ b64_encode (json_print (JObj [(''sub'', JStr ''u1''), (''exp'', JNum ''1700000000.5''), (''scope'', JNull)])) @ ''.'' @ ''c2ln'') = 0"
proof (intro conjI)
  let ?pre = "[(''sub'', JStr ''u1'')]" and ?post = "[(''scope'', JNull)]"
  have o: "list_all other_claim ?pre" "list_all other_claim ?post"
    by (simp_all add: other_claim_def fold_name_def runes_ascii is_ascii_def byte_def fold_rune_def)
  have u: "utf8_ok ''sub''" "utf8_ok ''u1''" "utf8_ok ''exp''" "utf8_ok ''scope''"
    by (simp_all add: utf8_ok_ascii is_ascii_def byte_def)
  have n: "json_number ''1700000000.5''" "parse_int64 ''1700000000.5'' = None"
    by (simp_all add: json_number_def json_fraction_def json_exponent_def is_digit_def byte_def parse_int64_def)
  have p: "json_parse (json_print (JObj (?pre @ [(''exp'', JNum v)] @ ?post))) = Some (JObj (?pre @ [(''exp'', JNum v)] @ ?post))"
    if "json_number v" for v
    by (rule json_parse_print) (simp_all add: u that max_depth_def)
  show "JWTExp (''aGVhZGVy'' @ ''.'' @ b64_encode (json_print (JObj [(''sub'', JStr ''u1''), (''exp'', JNum (itoa 1700000000)), (''scope'', JNull)])) @ ''.'' @ ''c2ln'') = 1700000000"
    using JWTExp_roundtrip [OF _ o p [OF json_number_itoa], of "''aGVhZGVy''" 1700000000 1700000000 "''c2ln''"]
    by (simp add: in_i64_def del: json_print.simps)
  show "JWTExp (''aGVhZGVy'' @ ''.'' @ b64_encode (json_print (JObj [(''sub'', JStr ''u1''), (''exp'', JNum ''1700000000.5''), (''scope'', JNull)])) @ ''.'' @ ''c2ln'') = 0"
    using JWTExp_roundtrip [OF _ o p [OF n(1)], of "''aGVhZGVy''" 0 "''c2ln''" "''1700000000.5''"] n(2)
    by (simp del: json_print.simps)
qed

text \<open>
  Property C40. The expiry the program works with. A positive \<open>expires_in\<close> decides; for up to 292
  years it is the moment of receipt plus that many seconds. Otherwise the token's own claim
  decides, and without either the program knows none.
\<close>

theorem ExpiresAtFromToken_spec:
  assumes "ordinary_time t" "n \<le> 9223372036" "JWTExp tok \<le> 2 ^ 62"
  shows "ExpiresAtFromToken tok n t =
    (if 0 < n then (t + n * second, True)
     else if 0 < JWTExp tok then ((JWTExp tok + 62135596800) * second, True)
     else (0, False))"
proof (cases "0 < n")
  case True
  then have "seconds n = n * second" "in_i64 (n * second)"
    using assms(2) by (simp_all add: seconds_small in_i64_def second_def)
  with True assms(1) show ?thesis
    by (simp add: ExpiresAtFromToken_def time_add_ordinary)
next
  case False
  with assms(3) show ?thesis
    by (simp add: ExpiresAtFromToken_def time_unix_def in_i64_def Let_def)
qed

theorem ExpiresAtFromToken_spec_witness:
  "ExpiresAtFromToken ''opaque'' 3600 (63900000000 * second) = (63900003600 * second, True)
   \<and> ExpiresAtFromToken ''opaque'' 0 (63900000000 * second) = (0, False)"
proof -
  have "JWTExp ''opaque'' = 0" by (simp add: JWTExp_def)
  then show ?thesis
    using ExpiresAtFromToken_spec [of "63900000000 * second" 3600 "''opaque''"]
      ExpiresAtFromToken_spec [of "63900000000 * second" 0 "''opaque''"]
    by (simp add: ordinary_time_def second_def)
qed

text \<open>
  The bound on \<open>expires_in\<close> is needed: one second more and the product wraps around, and the token
  counts as expired in the past from the moment it is received.
\<close>

theorem ExpiresAtFromToken_wraps:
  "ExpiresAtFromToken tok 9223372037 (63900000000 * second) = (63900000000 * second + seconds 9223372037, True)
   \<and> seconds 9223372037 < 0"
  by (simp add: ExpiresAtFromToken_def seconds_def second_def i64_def time_add_def max_sec_def)

end
