(* ===== verification/Discovery.thy ===== *)
theory Discovery
  imports Http Jwt
begin

text \<open>
  \<^verbatim>\<open>internal/protocol/constants.go\<close> and \<^verbatim>\<open>internal/protocol/discovery.go\<close>: the fixed parameters of
  the OAuth client and the discovery of the token endpoint. \<open>exchange\<close> is the sequence all calls to
  the identity provider share: build the request, \<^verbatim>\<open>client.Do\<close>, read at most one megabyte.
\<close>

subsection \<open>Constants\<close>

definition Issuer :: string where
  "Issuer = ''https://auth.x.ai''"

definition DiscoveryURL :: string where
  "DiscoveryURL = Issuer @ ''/.well-known/openid-configuration''"

definition DeviceCodeURL :: string where
  "DeviceCodeURL = Issuer @ ''/oauth2/device/code''"

definition DefaultTokenURL :: string where
  "DefaultTokenURL = Issuer @ ''/oauth2/token''"

definition ClientID :: string where
  "ClientID = ''b1a00492-073a-47ea-816f-4c329264a828''"

definition Scope :: string where
  "Scope = ''openid profile email offline_access grok-cli:access api:access ''
     @ ''conversations:read conversations:write workspaces:read workspaces:write''"

definition RefreshSkew :: duration where
  "RefreshSkew = 5 * minute"

definition IDPRequestTimeout :: duration where
  "IDPRequestTimeout = 20 * second"

definition MaxDeviceAuthWindow :: duration where
  "MaxDeviceAuthWindow = 30 * minute"

definition MaxDevicePollInterval :: duration where
  "MaxDevicePollInterval = 30 * second"

subsection \<open>One exchange\<close>

datatype outcome = BuildFailed | DoFailed | Got int string

definition exchange :: "'n env \<Rightarrow> http_method \<Rightarrow> string \<Rightarrow> string \<Rightarrow> 'n world \<Rightarrow> outcome \<times> 'n world" where
  "exchange env m url body w =
     (case new_request m url body of
        None \<Rightarrow> (BuildFailed, w)
      | Some rq \<Rightarrow>
          (case client_Do env rq w of
             (None, w') \<Rightarrow> (DoFailed, w')
           | (Some (st, b), w') \<Rightarrow> (Got st (limit_body b), w')))"

subsection \<open>Discovery\<close>

record Discovery =
  AuthorizationEndpoint :: string
  TokenEndpoint :: string

definition empty_Discovery :: Discovery where
  "empty_Discovery = \<lparr>AuthorizationEndpoint = '''', TokenEndpoint = ''''\<rparr>"

definition Discovery_fields :: "Discovery field list" where
  "Discovery_fields =
     [str_field ''authorization_endpoint'' (\<lambda>v d. d\<lparr>AuthorizationEndpoint := v\<rparr>),
      str_field ''token_endpoint'' (\<lambda>v d. d\<lparr>TokenEndpoint := v\<rparr>)]"

definition proto_err :: "string \<Rightarrow> string \<Rightarrow> string \<Rightarrow> go_err" where
  "proto_err code msg kind = ProtoErr (newError code (Phrase msg) kind)"

text \<open>What \<^verbatim>\<open>Discover\<close> makes of the body of a 200 response.\<close>

definition read_discovery :: "string \<Rightarrow> go_err + Discovery" where
  "read_discovery body =
     (let (d, bad) = json_unmarshal Discovery_fields body empty_Discovery in
      if bad then Inl (proto_err ''discovery_invalid'' ''invalid discovery JSON'' ''transient'')
      else if TokenEndpoint d = '''' then
        Inl (proto_err ''discovery_invalid'' ''discovery missing token_endpoint'' ''transient'')
      else if ValidateXAIURL (TokenEndpoint d) ''token_endpoint'' \<noteq> None then
        Inl (proto_err ''discovery_invalid'' ''token_endpoint failed validation'' ''transient'')
      else if AuthorizationEndpoint d \<noteq> ''''
          \<and> ValidateXAIURL (AuthorizationEndpoint d) ''authorization_endpoint'' \<noteq> None then
        Inl (proto_err ''discovery_invalid'' ''authorization_endpoint failed validation'' ''transient'')
      else Inr d)"

definition Discover :: "'n env \<Rightarrow> 'n world \<Rightarrow> (go_err + Discovery) \<times> 'n world" where
  "Discover env w =
     (case exchange env GET DiscoveryURL '''' w of
        (BuildFailed, w') \<Rightarrow> (Inl (proto_err ''discovery_failed'' ''discovery request build failed'' ''transient''), w')
      | (DoFailed, w') \<Rightarrow> (Inl (proto_err ''discovery_failed'' ''OIDC discovery request failed'' ''transient''), w')
      | (Got st body, w') \<Rightarrow>
          if st \<noteq> 200 then (Inl (ProtoErr (wrapHTTP ''discovery_failed'' st ''transient'')), w')
          else (read_discovery body, w'))"

subsection \<open>Lemmas\<close>

lemma pinned_issuer:
  assumes "list_all path_char p" "length p \<le> 2030"
  shows "pinned_url (Issuer @ ''/'' @ p)"
proof -
  have dns: "list_all dns_char ''auth.x.ai''" by (simp add: char_class_defs)
  have "IsXAIHost ''auth.x.ai''" by (simp add: IsXAIHost_def pin_normal_def string_eval)
  with validate_plain [OF dns assms(1), of "''''"] assms(2) show ?thesis
    by (simp add: pinned_url_def Issuer_def)
qed

lemma pinned_constants [simp]:
  "pinned_url DiscoveryURL" "pinned_url DeviceCodeURL" "pinned_url DefaultTokenURL"
proof -
  have "list_all path_char ''.well-known/openid-configuration''" "list_all path_char ''oauth2/device/code''"
    "list_all path_char ''oauth2/token''"
    by (simp_all add: char_class_defs)
  from this [THEN pinned_issuer]
  show "pinned_url DiscoveryURL" "pinned_url DeviceCodeURL" "pinned_url DefaultTokenURL"
    by (simp_all add: DiscoveryURL_def DeviceCodeURL_def DefaultTokenURL_def)
qed

text \<open>The requests a call adds to the log are pinned, if all sent before are.\<close>

definition keeps_pin :: "'n world \<Rightarrow> 'n world \<Rightarrow> bool" where
  "keeps_pin w w' \<longleftrightarrow> (\<exists>rqs. sent w' = sent w @ rqs \<and> pinned rqs)"

lemma keeps_pin_refl [simp]: "keeps_pin w w"
  by (simp add: keeps_pin_def)

lemma keeps_pin_trans: "keeps_pin w w1 \<Longrightarrow> keeps_pin w1 w2 \<Longrightarrow> keeps_pin w w2"
  unfolding keeps_pin_def by (metis append.assoc pinned_simps(3))

lemma new_request_SomeD: "new_request m url body = Some rq \<Longrightarrow> rq_URL rq = url \<and> rq_Body rq = body \<and> rq_Method rq = m"
  by (auto simp: new_request_def split: option.splits)

lemma exchange_keeps_pin:
  assumes "pinned_url url" "exchange env m url body w = (r, w')"
  shows "keeps_pin w w'"
proof (cases "new_request m url body")
  case None
  with assms(2) show ?thesis by (simp add: exchange_def)
next
  case (Some rq)
  obtain r1 w1 where d: "client_Do env rq w = (r1, w1)" by (cases "client_Do env rq w")
  then have "\<exists>rqs. sent w1 = sent w @ rqs \<and> pinned rqs"
    using do_hops_log [of rq 0 env w r1 w1] assms(1) new_request_SomeD [OF Some]
    by (auto simp: client_Do_def)
  moreover have "w' = w1"
    using assms(2) Some d by (auto simp: exchange_def split: option.splits)
  ultimately show ?thesis by (simp add: keeps_pin_def)
qed

lemma Discover_keeps_pin: "Discover env w = (r, w') \<Longrightarrow> keeps_pin w w'"
  using exchange_keeps_pin [of DiscoveryURL env GET "''''" w]
  by (auto simp: Discover_def split: prod.splits outcome.splits if_splits)

lemma read_discovery_ok [ok_iff]:
  "read_discovery body = Inr d \<longleftrightarrow>
     json_unmarshal Discovery_fields body empty_Discovery = (d, False)
     \<and> TokenEndpoint d \<noteq> '''' \<and> pinned_url (TokenEndpoint d)
     \<and> (AuthorizationEndpoint d = '''' \<or> pinned_url (AuthorizationEndpoint d))"
  unfolding read_discovery_def validate_iff by (auto split: prod.splits)

lemma read_discovery_err: "read_discovery body = Inl e \<Longrightarrow> \<exists>m. e = proto_err ''discovery_invalid'' m ''transient''"
  by (auto simp: read_discovery_def split: prod.splits if_splits)

lemma Discover_ok:
  "Discover env w = (Inr d, w') \<Longrightarrow>
     pinned_url (TokenEndpoint d) \<and> (AuthorizationEndpoint d = '''' \<or> pinned_url (AuthorizationEndpoint d))"
  by (auto simp: Discover_def ok_iff split: prod.splits outcome.splits if_splits)

text \<open>Every failure of the discovery is transient and its code is one of two.\<close>

lemma Discover_err:
  "Discover env w = (Inl e, w') \<Longrightarrow>
     \<exists>pe. e = ProtoErr pe \<and> Kind pe = ''transient'' \<and> Code pe \<in> {''discovery_failed'', ''discovery_invalid''}"
  by (auto simp: Discover_def proto_err_def dest!: read_discovery_err split: prod.splits outcome.splits if_splits)

text \<open>A server that answers every request with a redirect out of the pin.\<close>

theorem client_Do_pinned_witness:
  "\<exists>rqs. sent (snd (client_Do (stub_env (\<lambda>_. Reply 302 (NextURL ''https://evil.example/'') ''''))
      \<lparr>rq_Method = GET, rq_URL = DiscoveryURL, rq_Body = ''''\<rparr> (stub_world 0))) = rqs \<and> pinned rqs \<and> length rqs \<le> 5"
  using client_Do_pinned [of "\<lparr>rq_Method = GET, rq_URL = DiscoveryURL, rq_Body = ''''\<rparr>"
      "stub_env (\<lambda>_. Reply 302 (NextURL ''https://evil.example/'') '''')" "stub_world 0"]
  by (simp add: stub_world_def)

end
