(* ===== verification/Device.thy ===== *)
theory Device
  imports Discovery
begin

text \<open>
  \<^verbatim>\<open>internal/protocol/device.go\<close>: the device-code login. \<open>RequestDeviceCode\<close> validates everything
  that is later printed or opened; \<open>PollDeviceToken\<close> is the polling loop with its deadline and its
  clamped interval, written with a number of rounds that \<open>PollDeviceToken_returns\<close> shows to be
  enough; \<open>DeviceLogin\<close> composes the three calls with \<open>tryOpenBrowser\<close>, whose helper program is an
  operation of the environment.
\<close>

record DeviceCodeResponse =
  DeviceCode :: string
  UserCode :: string
  VerificationURI :: string
  VerificationURIComplete :: string
  dc_ExpiresIn :: int
  Interval :: int

definition empty_DeviceCodeResponse :: DeviceCodeResponse where
  "empty_DeviceCodeResponse =
     \<lparr>DeviceCode = '''', UserCode = '''', VerificationURI = '''', VerificationURIComplete = '''',
      dc_ExpiresIn = 0, Interval = 0\<rparr>"

definition DeviceCodeResponse_fields :: "DeviceCodeResponse field list" where
  "DeviceCodeResponse_fields =
     [str_field ''device_code'' (\<lambda>v d. d\<lparr>DeviceCode := v\<rparr>),
      str_field ''user_code'' (\<lambda>v d. d\<lparr>UserCode := v\<rparr>),
      str_field ''verification_uri'' (\<lambda>v d. d\<lparr>VerificationURI := v\<rparr>),
      str_field ''verification_uri_complete'' (\<lambda>v d. d\<lparr>VerificationURIComplete := v\<rparr>),
      int_field ''expires_in'' (\<lambda>v d. d\<lparr>dc_ExpiresIn := v\<rparr>),
      int_field ''interval'' (\<lambda>v d. d\<lparr>Interval := v\<rparr>)]"

record TokenResponse =
  AccessToken :: string
  RefreshToken :: string
  IDToken :: string
  ExpiresIn :: int
  TokenType :: string

definition empty_TokenResponse :: TokenResponse where
  "empty_TokenResponse =
     \<lparr>AccessToken = '''', RefreshToken = '''', IDToken = '''', ExpiresIn = 0, TokenType = ''''\<rparr>"

definition TokenResponse_fields :: "TokenResponse field list" where
  "TokenResponse_fields =
     [str_field ''access_token'' (\<lambda>v t. t\<lparr>AccessToken := v\<rparr>),
      str_field ''refresh_token'' (\<lambda>v t. t\<lparr>RefreshToken := v\<rparr>),
      str_field ''id_token'' (\<lambda>v t. t\<lparr>IDToken := v\<rparr>),
      int_field ''expires_in'' (\<lambda>v t. t\<lparr>ExpiresIn := v\<rparr>),
      str_field ''token_type'' (\<lambda>v t. t\<lparr>TokenType := v\<rparr>)]"

text \<open>The \<^verbatim>\<open>error\<close> field of an OAuth error body; the error of the unmarshalling is ignored.\<close>

definition error_fields :: "string field list" where
  "error_fields = [str_field ''error'' (\<lambda>v _. v)]"

text \<open>A blank token: empty after \<^verbatim>\<open>strings.TrimSpace\<close>.\<close>

abbreviation blank :: "string \<Rightarrow> bool" where
  "blank s \<equiv> trim_space s = ''''"

definition default_token_type :: "TokenResponse \<Rightarrow> TokenResponse" where
  "default_token_type tr = (if TokenType tr = '''' then tr\<lparr>TokenType := ''Bearer''\<rparr> else tr)"

subsection \<open>Requesting a device code\<close>

definition device_code_form :: string where
  "device_code_form = form_encode [(''client_id'', ClientID), (''scope'', Scope)]"

definition pin_message :: "pin_error \<Rightarrow> go_err" where
  "pin_message e = ProtoErr (newError ''device_code_invalid'' (OfErr e) ''transient'')"

definition read_device_code :: "string \<Rightarrow> go_err + DeviceCodeResponse" where
  "read_device_code body =
     (let (dc, bad) = json_unmarshal DeviceCodeResponse_fields body empty_DeviceCodeResponse in
      if bad then Inl (proto_err ''device_code_invalid'' ''invalid device-code JSON'' ''transient'')
      else if DeviceCode dc = '''' \<or> UserCode dc = '''' \<or> VerificationURI dc = ''''
          \<or> dc_ExpiresIn dc \<le> 0 \<or> Interval dc \<le> 0 then
        Inl (proto_err ''device_code_invalid'' ''device-code response missing required fields'' ''transient'')
      else
        (case ValidateUserCode (UserCode dc) of
           Some e \<Rightarrow> Inl (pin_message e)
         | None \<Rightarrow>
             (case ValidateVerificationURI (VerificationURI dc) of
                Some e \<Rightarrow> Inl (pin_message e)
              | None \<Rightarrow>
                  if VerificationURIComplete dc = '''' then Inr dc
                  else
                    (case ValidateVerificationURI (VerificationURIComplete dc) of
                       Some e \<Rightarrow> Inl (pin_message e)
                     | None \<Rightarrow> Inr dc))))"

definition RequestDeviceCode :: "'n env \<Rightarrow> 'n world \<Rightarrow> (go_err + DeviceCodeResponse) \<times> 'n world" where
  "RequestDeviceCode env w =
     (case exchange env POST DeviceCodeURL device_code_form w of
        (BuildFailed, w') \<Rightarrow>
          (Inl (proto_err ''device_code_failed'' ''device-code request build failed'' ''transient''), w')
      | (DoFailed, w') \<Rightarrow> (Inl (proto_err ''device_code_failed'' ''device-code request failed'' ''transient''), w')
      | (Got st body, w') \<Rightarrow>
          if st \<noteq> 200 then (Inl (ProtoErr (wrapHTTP ''device_code_failed'' st ''transient'')), w')
          else (read_device_code body, w'))"

subsection \<open>Polling\<close>

definition deviceAuthWindow :: "int \<Rightarrow> duration" where
  "deviceAuthWindow expiresIn =
     (let w = seconds expiresIn in if w > MaxDeviceAuthWindow then MaxDeviceAuthWindow else w)"

definition clampPollInterval :: "int \<Rightarrow> int" where
  "clampPollInterval secs =
     (if secs < 1 then 1
      else (let maxSec = MaxDevicePollInterval div second in
            if secs > maxSec then maxSec else secs))"

definition device_token_form :: "string \<Rightarrow> string" where
  "device_token_form deviceCode =
     form_encode [(''grant_type'', ''urn:ietf:params:oauth:grant-type:device_code''),
       (''client_id'', ClientID), (''device_code'', deviceCode)]"

datatype poll_reply = PollDone "go_err + TokenResponse" | PollPending | PollSlowDown

text \<open>The body of a 200 response to a poll.\<close>

definition read_device_token :: "string \<Rightarrow> go_err + TokenResponse" where
  "read_device_token body =
     (let (tr, bad) = json_unmarshal TokenResponse_fields body empty_TokenResponse in
      if bad then Inl (proto_err ''device_token_invalid'' ''invalid token JSON'' ''transient'')
      else if blank (AccessToken tr) then
        Inl (proto_err ''device_token_invalid'' ''token response missing access_token'' ''reauth'')
      else if blank (RefreshToken tr) then
        Inl (proto_err ''device_token_invalid'' ''token response missing refresh_token'' ''reauth'')
      else Inr (default_token_type tr))"

definition read_poll :: "int \<Rightarrow> string \<Rightarrow> poll_reply" where
  "read_poll st body =
     (if st = 200 then PollDone (read_device_token body)
      else
        (let code = sanitizeOAuthErrorCode (fst (json_unmarshal error_fields body '''')) in
         if code = ''authorization_pending'' then PollPending
         else if code = ''slow_down'' then PollSlowDown
         else if code = '''' then
           PollDone (Inl (proto_err ''device_token_failed'' ''device-code token polling failed'' ''reauth''))
         else
           PollDone (Inl (proto_err ''device_token_failed'' (''device-code token polling failed: '' @ code) ''reauth''))))"

text \<open>
  The loop, for at most \<open>n\<close> rounds; \<open>None\<close> means that they did not suffice. \<open>ivl\<close> is the current
  interval in seconds.
\<close>

fun poll_loop ::
  "nat \<Rightarrow> 'n env \<Rightarrow> string \<Rightarrow> string \<Rightarrow> gotime \<Rightarrow> int \<Rightarrow> 'n world \<Rightarrow> ((go_err + TokenResponse) \<times> 'n world) option"
where
  "poll_loop 0 env ep dev deadline ivl w = None"
| "poll_loop (Suc n) env ep dev deadline ivl w =
     (if \<not> Now env w < deadline then
        Some (Inl (proto_err ''device_timeout'' ''timed out waiting for device authorization'' ''reauth''), w)
      else
        (case ctx_Err env (net w) of
           Some e \<Rightarrow> Some (Inl (CtxErr e), w)
         | None \<Rightarrow>
             (case exchange env POST ep (device_token_form dev) w of
                (BuildFailed, w') \<Rightarrow>
                  Some (Inl (proto_err ''device_token_failed'' ''token poll request build failed'' ''transient''), w')
              | (DoFailed, w') \<Rightarrow>
                  Some (Inl (proto_err ''device_token_failed'' ''token poll failed'' ''transient''), w')
              | (Got st body, w') \<Rightarrow>
                  (case read_poll st body of
                     PollDone r \<Rightarrow> Some (r, w')
                   | PollPending \<Rightarrow>
                       (case do_sleep env (ivl * second) w' of
                          (Some e, w2) \<Rightarrow> Some (Inl (CtxErr e), w2)
                        | (None, w2) \<Rightarrow> poll_loop n env ep dev deadline ivl w2)
                   | PollSlowDown \<Rightarrow>
                       (let ivl' = clampPollInterval (ivl + 1) in
                        case do_sleep env (ivl' * second) w' of
                          (Some e, w2) \<Rightarrow> Some (Inl (CtxErr e), w2)
                        | (None, w2) \<Rightarrow> poll_loop n env ep dev deadline ivl' w2)))))"

definition PollDeviceToken ::
  "nat \<Rightarrow> 'n env \<Rightarrow> string \<Rightarrow> string \<Rightarrow> int \<Rightarrow> int \<Rightarrow> 'n world \<Rightarrow> ((go_err + TokenResponse) \<times> 'n world) option"
where
  "PollDeviceToken fuel env tokenEndpoint deviceCode expiresIn interval w =
     (case ValidateXAIURL tokenEndpoint ''token_endpoint'' of
        Some e \<Rightarrow> Some (Inl (ProtoErr (newError ''discovery_invalid'' (OfErr e) ''reauth'')), w)
      | None \<Rightarrow>
          poll_loop fuel env tokenEndpoint deviceCode
            (time_add (Now env w) (deviceAuthWindow expiresIn)) (clampPollInterval interval) w)"

text \<open>Rounds that always suffice: one for each second of the longest window, and the last check.\<close>

definition poll_rounds :: nat where
  "poll_rounds = nat (MaxDeviceAuthWindow div second) + 1"

subsection \<open>The login\<close>

record LoginResult =
  Tokens :: TokenResponse
  lr_Discovery :: Discovery

text \<open>
  \<^verbatim>\<open>tryOpenBrowser\<close>: a command of the platform gets the URL as one argument. Starting it is an
  operation of the environment; the commands are logged in \<open>spawned\<close>. The goroutine that waits for the
  helper to end changes nothing else.
\<close>

definition browser_command :: "string \<Rightarrow> string \<Rightarrow> string list option" where
  "browser_command os u =
     (if os = ''darwin'' then Some [''open'', u]
      else if os = ''linux'' then Some [''xdg-open'', u]
      else if os = ''windows'' then Some [''rundll32'', ''url.dll,FileProtocolHandler'', u]
      else None)"

definition tryOpenBrowser :: "'n env \<Rightarrow> string \<Rightarrow> 'n world \<Rightarrow> bool \<times> 'n world" where
  "tryOpenBrowser env u w =
     (case browser_command (goos env) u of
        None \<Rightarrow> (False, w)
      | Some argv \<Rightarrow>
          (let (ok, n) = start_cmd env argv (net w) in (ok, w\<lparr>net := n, spawned := spawned w @ [argv]\<rparr>)))"

definition verify_url :: "DeviceCodeResponse \<Rightarrow> string" where
  "verify_url dc = (if VerificationURIComplete dc = '''' then VerificationURI dc else VerificationURIComplete dc)"

text \<open>What is printed before the polling starts.\<close>

definition login_lines :: "bool \<Rightarrow> bool \<Rightarrow> DeviceCodeResponse \<Rightarrow> string list" where
  "login_lines openBrowser opened dc =
     ['''', ''To continue:'', ''  1. Open: '' @ verify_url dc, ''  2. If prompted, enter code: '' @ UserCode dc]
     @ (if \<not> openBrowser then []
        else if opened then [''  (Opened browser for verification)'']
        else [''  Could not open browser automatically '' @ encode_rune 8212 @ '' use the URL above.''])
     @ [''Waiting for approval (polling every '' @ itoa (max 1 (Interval dc)) @ ''s)...'']"

definition DeviceLogin ::
  "nat \<Rightarrow> 'n env \<Rightarrow> bool \<Rightarrow> 'n world \<Rightarrow> ((go_err + LoginResult) \<times> string list \<times> 'n world) option"
where
  "DeviceLogin fuel env openBrowser w =
     (case Discover env w of
        (Inl e, w1) \<Rightarrow> Some (Inl e, [], w1)
      | (Inr disc, w1) \<Rightarrow>
          (case RequestDeviceCode env w1 of
             (Inl e, w2) \<Rightarrow> Some (Inl e, [], w2)
           | (Inr dc, w2) \<Rightarrow>
               (let (opened, w3) = (if openBrowser then tryOpenBrowser env (verify_url dc) w2 else (False, w2)) in
                case PollDeviceToken fuel env (TokenEndpoint disc) (DeviceCode dc) (dc_ExpiresIn dc) (Interval dc) w3 of
                  None \<Rightarrow> None
                | Some (Inl e, w4) \<Rightarrow> Some (Inl e, login_lines openBrowser opened dc, w4)
                | Some (Inr tr, w4) \<Rightarrow>
                    Some (Inr \<lparr>Tokens = tr, lr_Discovery = disc\<rparr>, login_lines openBrowser opened dc, w4))))"

subsection \<open>Bounds of the loop\<close>

lemma MaxDevicePollInterval_secs: "MaxDevicePollInterval div second = 30"
  by (simp add: MaxDevicePollInterval_def second_def)

lemma clampPollInterval_eq: "clampPollInterval n = max 1 (min 30 n)"
  by (auto simp: clampPollInterval_def MaxDevicePollInterval_secs)

lemma clampPollInterval_bounds [simp]: "1 \<le> clampPollInterval n" "clampPollInterval n \<le> 30"
  by (simp_all add: clampPollInterval_eq)

lemma deviceAuthWindow_le: "deviceAuthWindow n \<le> MaxDeviceAuthWindow" "in_i64 (deviceAuthWindow n)"
  by (auto simp: deviceAuthWindow_def Let_def seconds_def)
    (simp add: in_i64_def MaxDeviceAuthWindow_def minute_def second_def)

text \<open>
  The polling window is the \<open>expires_in\<close> of the provider in seconds, capped at thirty
  minutes, for every value up to 292 years.
\<close>

theorem deviceAuthWindow_spec:
  assumes "0 \<le> n" "n \<le> 9223372036"
  shows "deviceAuthWindow n = min n 1800 * second"
  using assms by (auto simp: deviceAuthWindow_def seconds_small MaxDeviceAuthWindow_def minute_def second_def)

theorem deviceAuthWindow_spec_witness:
  "deviceAuthWindow 600 = 600 * second \<and> deviceAuthWindow 86400 = 1800 * second"
  using deviceAuthWindow_spec [of 600] deviceAuthWindow_spec [of 86400] by simp

text \<open>
  Beyond that the product wraps around before it is compared with the cap: the window can be
  negative, and the login then times out at once instead of waiting for thirty minutes.
\<close>

theorem deviceAuthWindow_wraps: "deviceAuthWindow 9223372037 < 0"
  by (simp add: deviceAuthWindow_def seconds_def second_def i64_def MaxDeviceAuthWindow_def minute_def Let_def)

text \<open>
  A clock that does not run backwards, shows times after year 1, and has advanced by at least the
  requested pause when a timer has fired.
\<close>

definition good_clock :: "'n env \<Rightarrow> bool" where
  "good_clock env \<longleftrightarrow>
     (\<forall>n. 0 \<le> clock env n)
     \<and> (\<forall>n rq. clock env n \<le> clock env (snd (roundtrip env rq n)))
     \<and> (\<forall>n d. fst (sleepCtx env d n) = None \<longrightarrow> clock env n + d \<le> clock env (snd (sleepCtx env d n)))"

lemma do_hops_clock:
  "good_clock env \<Longrightarrow> do_hops env via rq w = (r, w') \<Longrightarrow> Now env w \<le> Now env w'"
proof (induction env via rq w arbitrary: r w' rule: do_hops.induct)
  case (1 env via rq w)
  obtain rep w1 where s: "send env rq w = (rep, w1)" by (cases "send env rq w")
  have step: "Now env w \<le> Now env w1"
    using s 1(2) by (auto simp: send_def good_clock_def Now_def split: prod.splits) (metis snd_conv)
  from 1(3) s consider "w' = w1"
    | st loc body url where "rep = Reply st loc body" "redirect_status st" "loc = NextURL url"
        "checkIDPRedirect (Some url) (Suc via) = None"
        "do_hops env (Suc via) (next_hop rq st url) w1 = (r, w')"
    by (subst (asm) do_hops.simps) (auto split: reply.splits location.splits if_splits)
  then show ?case
  proof cases
    case 2
    then have "Now env w1 \<le> Now env w'"
      using "1.IH" [OF s [symmetric]] 1(2) by auto
    with step show ?thesis by simp
  qed (use step in simp)
qed

lemma exchange_clock:
  "good_clock env \<Longrightarrow> exchange env m url body w = (r, w') \<Longrightarrow> Now env w \<le> Now env w'"
  by (auto simp: exchange_def client_Do_def dest: do_hops_clock split: option.splits prod.splits)

lemma do_sleep_clock:
  "good_clock env \<Longrightarrow> do_sleep env d w = (None, w') \<Longrightarrow> Now env w + d \<le> Now env w'"
  by (auto simp: do_sleep_def good_clock_def Now_def split: prod.splits) (metis fst_conv snd_conv)

lemma poll_loop_returns:
  "good_clock env \<Longrightarrow> 1 \<le> ivl \<Longrightarrow> deadline - Now env w \<le> int n * second \<Longrightarrow>
     poll_loop (Suc n) env ep dev deadline ivl w \<noteq> None"
proof (induction n arbitrary: ivl w)
  case 0
  then show ?case by simp
next
  case (Suc n)
  have again: "poll_loop (Suc n) env ep dev deadline ivl' w2 \<noteq> None"
    if x: "exchange env POST ep (device_token_form dev) w = (r, w1)" and s: "do_sleep env (ivl' * second) w1 = (None, w2)"
      and ivl': "1 \<le> ivl'" for r w1 w2 ivl'
  proof (rule Suc.IH [OF Suc.prems(1) ivl'])
    have "Now env w + ivl' * second \<le> Now env w2"
      using exchange_clock [OF Suc.prems(1) x] do_sleep_clock [OF Suc.prems(1) s] by simp
    moreover have "second \<le> ivl' * second"
      using ivl' by (simp add: second_def)
    ultimately show "deadline - Now env w2 \<le> int n * second"
      using Suc.prems(3) by (simp add: algebra_simps)
  qed
  show ?case
    using again Suc.prems(2)
    by (subst poll_loop.simps) (auto simp: Let_def split: prod.splits outcome.splits poll_reply.splits option.splits)
qed

lemma PollDeviceToken_total:
  assumes "good_clock env"
  shows "PollDeviceToken poll_rounds env ep dev expiresIn interval w \<noteq> None"
proof -
  have rounds: "poll_rounds = Suc 1800"
    by (simp add: poll_rounds_def MaxDeviceAuthWindow_def minute_def second_def)
  have "0 \<le> Now env w"
    using assms by (simp add: good_clock_def Now_def)
  then have "time_add (Now env w) (deviceAuthWindow expiresIn) - Now env w \<le> deviceAuthWindow expiresIn"
    using time_add_le [of "Now env w" "deviceAuthWindow expiresIn"] deviceAuthWindow_le by simp
  also have "\<dots> \<le> int 1800 * second"
    using deviceAuthWindow_le(1) [of expiresIn] by (simp add: MaxDeviceAuthWindow_def minute_def)
  finally have "poll_loop (Suc 1800) env ep dev (time_add (Now env w) (deviceAuthWindow expiresIn))
      (clampPollInterval interval) w \<noteq> None"
    by (rule poll_loop_returns [OF assms clampPollInterval_bounds(1)])
  then show ?thesis
    unfolding PollDeviceToken_def rounds by (auto split: option.splits)
qed

text \<open>
  Property C23. The polling always ends. Whatever the provider answers and however large the
  \<open>expires_in\<close> it reports, after at most 1801 rounds the loop has a result; this uses only that
  time passes at least as long as the program pauses.
\<close>

theorem PollDeviceToken_returns:
  assumes "good_clock env"
  shows "PollDeviceToken poll_rounds env ep dev expiresIn interval w \<noteq> None \<and> poll_rounds = 1801"
  using PollDeviceToken_total [OF assms] by (simp add: poll_rounds_def MaxDeviceAuthWindow_def minute_def second_def)

lemma good_clock_stub: "good_clock (stub_env f)"
  by (auto simp: good_clock_def)

theorem PollDeviceToken_returns_witness:
  "PollDeviceToken poll_rounds (stub_env (\<lambda>_. Reply 400 NoLocation ''pending'')) DefaultTokenURL ''dev'' 86400 1
     (stub_world 5) \<noteq> None"
  using PollDeviceToken_returns [OF good_clock_stub] by blast

subsection \<open>Pauses, requests and results\<close>

lemma do_hops_quiet: "do_hops env via rq w = (r, w') \<Longrightarrow> slept w' = slept w \<and> spawned w' = spawned w"
proof (induction env via rq w arbitrary: r w' rule: do_hops.induct)
  case (1 env via rq w)
  obtain rep w1 where s: "send env rq w = (rep, w1)" by (cases "send env rq w")
  then have "slept w1 = slept w \<and> spawned w1 = spawned w" by (auto simp: send_def split: prod.splits)
  with s 1(2) "1.IH" [OF s [symmetric]] show ?case
    by (subst (asm) do_hops.simps) (auto split: reply.splits location.splits if_splits)
qed

lemma exchange_quiet: "exchange env m url body w = (r, w') \<Longrightarrow> slept w' = slept w \<and> spawned w' = spawned w"
  by (auto simp: exchange_def client_Do_def dest: do_hops_quiet split: option.splits prod.splits)

lemma do_sleep_log:
  "do_sleep env d w = (r, w') \<Longrightarrow> slept w' = slept w @ [d] \<and> sent w' = sent w \<and> spawned w' = spawned w"
  by (auto simp: do_sleep_def split: prod.splits)

text \<open>
  What one run of the loop leaves behind: a rising list of pauses between the current interval and
  thirty seconds, and only pinned requests.
\<close>

definition paced :: "int \<Rightarrow> duration list \<Rightarrow> bool" where
  "paced ivl ds \<longleftrightarrow> sorted ds \<and> list_all (\<lambda>d. ivl * second \<le> d \<and> d \<le> 30 * second) ds"

lemma paced_Cons: "paced ivl' ds \<Longrightarrow> ivl \<le> ivl' \<Longrightarrow> ivl' \<le> 30 \<Longrightarrow> paced ivl (ivl' * second # ds)"
  unfolding paced_def list_all_iff second_def by fastforce

lemma poll_loop_trace:
  "pinned_url ep \<Longrightarrow> 1 \<le> ivl \<Longrightarrow> ivl \<le> 30 \<Longrightarrow> poll_loop n env ep dev deadline ivl w = Some (r, w') \<Longrightarrow>
     keeps_pin w w' \<and> (\<exists>ds. slept w' = slept w @ ds \<and> paced ivl ds)"
proof (induction n arbitrary: ivl w)
  case 0
  then show ?case by simp
next
  case (Suc n)
  obtain x w1 where x: "exchange env POST ep (device_token_form dev) w = (x, w1)"
    by (cases "exchange env POST ep (device_token_form dev) w")
  have pin: "keeps_pin w w1" and sl: "slept w1 = slept w"
    using exchange_keeps_pin [OF Suc.prems(1) x] exchange_quiet [OF x] by auto
  have nil: "paced ivl []" by (simp add: paced_def)
  have pause: "keeps_pin w w' \<and> (\<exists>ds. slept w' = slept w @ ds \<and> paced ivl ds)"
    if s: "do_sleep env (ivl' * second) w1 = (e, w2)" and b: "ivl \<le> ivl'" "ivl' \<le> 30"
      and r: "e \<noteq> None \<and> w' = w2 \<or> poll_loop n env ep dev deadline ivl' w2 = Some (r, w')" for ivl' e w2
  proof -
    have s2: "slept w2 = slept w @ [ivl' * second]" "keeps_pin w w2"
      using do_sleep_log [OF s] sl pin by (auto simp: keeps_pin_def)
    from r show ?thesis
    proof
      assume "e \<noteq> None \<and> w' = w2"
      with s2 paced_Cons [of ivl' "[]" ivl] b show ?thesis by (auto simp: paced_def)
    next
      assume "poll_loop n env ep dev deadline ivl' w2 = Some (r, w')"
      with Suc.IH [of ivl' w2] Suc.prems(1,2) b obtain ds
        where "keeps_pin w2 w'" "slept w' = slept w2 @ ds" "paced ivl' ds" by auto
      with s2 keeps_pin_trans [of w w2 w'] paced_Cons [of ivl' ds ivl] b show ?thesis by auto
    qed
  qed
  have grow: "ivl \<le> clampPollInterval (ivl + 1)"
    using Suc.prems(2,3) by (simp add: clampPollInterval_eq)
  show ?case
    using Suc.prems(3,4) x pin sl nil pause [OF _ order_refl] pause [OF _ grow]
    by (auto simp: Let_def split: if_splits option.splits outcome.splits poll_reply.splits prod.splits; fastforce?)
qed

lemma PollDeviceToken_trace:
  "case PollDeviceToken fuel env ep dev expiresIn interval w of
     None \<Rightarrow> True
   | Some (r, w') \<Rightarrow> (\<exists>ds rqs. slept w' = slept w @ ds \<and> sorted ds
       \<and> list_all (\<lambda>d. clampPollInterval interval * second \<le> d \<and> d \<le> 30 * second) ds
       \<and> sent w' = sent w @ rqs \<and> pinned rqs)"
proof (cases "PollDeviceToken fuel env ep dev expiresIn interval w")
  case (Some rw)
  obtain r w' where rw: "rw = (r, w')" by (cases rw)
  have "keeps_pin w w' \<and> (\<exists>ds. slept w' = slept w @ ds \<and> paced (clampPollInterval interval) ds)"
  proof (cases "ValidateXAIURL ep ''token_endpoint''")
    case None
    then have "pinned_url ep" by (simp add: validate_iff)
    moreover have "poll_loop fuel env ep dev (time_add (Now env w) (deviceAuthWindow expiresIn))
        (clampPollInterval interval) w = Some (r, w')"
      using None Some rw by (simp add: PollDeviceToken_def)
    ultimately show ?thesis
      by (rule poll_loop_trace [OF _ clampPollInterval_bounds])
  next
    case (Some e)
    with \<open>_ = Some rw\<close> rw show ?thesis by (simp add: PollDeviceToken_def paced_def)
  qed
  with Some rw show ?thesis by (auto simp: keeps_pin_def paced_def)
qed simp

text \<open>
  Pacing of the polls. Whatever the provider answers (\<open>slow_down\<close> included) and
  whatever interval it proposed, every pause is between one and thirty seconds, at least the
  clamped interval, and the pauses never get shorter; and every request of the polling goes to a
  pinned URL.
\<close>

theorem PollDeviceToken_paced:
  "case PollDeviceToken fuel env ep dev expiresIn interval w of
     None \<Rightarrow> True
   | Some (r, w') \<Rightarrow> (\<exists>ds rqs. slept w' = slept w @ ds \<and> sorted ds
       \<and> list_all (\<lambda>d. clampPollInterval interval * second \<le> d \<and> d \<le> 30 * second) ds
       \<and> sent w' = sent w @ rqs \<and> pinned rqs)"
  by (rule PollDeviceToken_trace)

lemma default_token_type_simps [simp]:
  "AccessToken (default_token_type tr) = AccessToken tr" "RefreshToken (default_token_type tr) = RefreshToken tr"
  "ExpiresIn (default_token_type tr) = ExpiresIn tr" "TokenType (default_token_type tr) \<noteq> ''''"
  by (auto simp: default_token_type_def)

text \<open>Tokens the rest of the program may rely on.\<close>

definition usable :: "TokenResponse \<Rightarrow> bool" where
  "usable tr \<longleftrightarrow> \<not> blank (AccessToken tr) \<and> \<not> blank (RefreshToken tr) \<and> TokenType tr \<noteq> ''''"

lemma read_device_token_ok: "read_device_token body = Inr tr \<Longrightarrow> usable tr"
  by (auto simp: read_device_token_def usable_def split: prod.splits if_splits)

lemma read_poll_ok: "read_poll st body = PollDone (Inr tr) \<Longrightarrow> usable tr"
  by (auto simp: read_poll_def Let_def read_device_token_ok split: if_splits)

lemma poll_loop_ok: "poll_loop n env ep dev deadline ivl w = Some (Inr tr, w') \<Longrightarrow> usable tr"
proof (induction n arbitrary: ivl w)
  case (Suc n)
  then show ?case
    by (auto simp: Let_def read_poll_ok split: if_splits option.splits outcome.splits poll_reply.splits prod.splits)
qed simp

lemma PollDeviceToken_ok:
  "PollDeviceToken fuel env ep dev e i w = Some (Inr tr, w') \<Longrightarrow> usable tr \<and> pinned_url ep"
  by (auto simp: PollDeviceToken_def validate_iff poll_loop_ok split: option.splits)

text \<open>A device-code response that is safe to act on.\<close>

definition device_code_ok :: "DeviceCodeResponse \<Rightarrow> bool" where
  "device_code_ok dc \<longleftrightarrow>
     DeviceCode dc \<noteq> '''' \<and> ValidateUserCode (UserCode dc) = None
     \<and> ValidateVerificationURI (VerificationURI dc) = None
     \<and> (VerificationURIComplete dc = '''' \<or> ValidateVerificationURI (VerificationURIComplete dc) = None)
     \<and> 0 < dc_ExpiresIn dc \<and> 0 < Interval dc"

lemma validate_empty [simp]: "ValidateVerificationURI '''' \<noteq> None" "ValidateUserCode '''' \<noteq> None"
  by (simp_all add: ValidateVerificationURI_def ValidateUserCode_def string_eval)

lemma read_device_code_ok [ok_iff]:
  "read_device_code body = Inr dc \<longleftrightarrow>
     json_unmarshal DeviceCodeResponse_fields body empty_DeviceCodeResponse = (dc, False) \<and> device_code_ok dc"
  using validate_empty
  by (auto simp: read_device_code_def device_code_ok_def simp del: validate_empty split: prod.splits option.splits)

text \<open>
  The device-code request succeeds exactly when the exchange gives status 200 with a
  body that decodes to a response whose user code and URLs all pass their validation, with a
  positive lifetime and interval; nothing unvalidated is printed or opened.
\<close>

theorem RequestDeviceCode_spec:
  "fst (RequestDeviceCode env w) = Inr dc \<longleftrightarrow>
     (\<exists>body. fst (exchange env POST DeviceCodeURL device_code_form w) = Got 200 body
        \<and> json_unmarshal DeviceCodeResponse_fields body empty_DeviceCodeResponse = (dc, False)
        \<and> device_code_ok dc)"
  by (auto simp: RequestDeviceCode_def ok_iff split: prod.splits outcome.splits)

lemma RequestDeviceCode_ok: "RequestDeviceCode env w = (Inr dc, w') \<Longrightarrow> device_code_ok dc"
  by (auto simp: RequestDeviceCode_def ok_iff split: prod.splits outcome.splits if_splits)

lemma RequestDeviceCode_keeps_pin: "RequestDeviceCode env w = (r, w') \<Longrightarrow> keeps_pin w w'"
  using exchange_keeps_pin [of DeviceCodeURL env POST device_code_form w]
  by (auto simp: RequestDeviceCode_def split: prod.splits outcome.splits if_splits)

lemma PollDeviceToken_keeps_pin:
  "PollDeviceToken fuel env ep dev expiresIn interval w = Some (r, w') \<Longrightarrow> keeps_pin w w'"
  using PollDeviceToken_trace [of w interval fuel env ep dev expiresIn] by (auto simp: keeps_pin_def)

text \<open>A string that begins like a command-line option is no verification URL, spaces in front or not.\<close>

lemma trim_space_dash: "\<exists>v. trim_space (CHR ''-'' # u) = CHR ''-'' # v"
proof -
  have "\<not> rune_space 45" by (simp add: rune_space_def)
  then show ?thesis
    by (simp add: trim_space_def runes_Cons_ascii is_ascii_def byte_def dropWhile_append3)
qed

lemma url_parse_dash: "url_parse (CHR ''-'' # v) = Some u \<Longrightarrow> u_Scheme u = ''''"
  by (cases "cut CHR ''#'' v")
    (auto simp: url_parse_def parse_no_fragment_def get_scheme_def scheme_char_def is_letter_def byte_def Let_def to_lower_def
      split: option.splits if_splits list.splits)

lemma ValidateVerificationURI_dash: "ValidateVerificationURI (CHR ''-'' # u) \<noteq> None"
  using trim_space_dash [of u] url_parse_dash
  by (auto simp: ValidateVerificationURI_def Let_def split: option.splits if_splits)

text \<open>Only the browser helper is started, with a URL that passed its validation.\<close>

lemma poll_loop_ran: "poll_loop n env ep dev deadline ivl w = Some (r, w') \<Longrightarrow> spawned w' = spawned w"
proof (induction n arbitrary: ivl w)
  case (Suc n)
  then show ?case
    by (auto simp: Let_def dest!: exchange_quiet do_sleep_log
        split: if_splits option.splits outcome.splits poll_reply.splits prod.splits)
qed simp

lemma PollDeviceToken_ran: "PollDeviceToken fuel env ep dev e i w = Some (r, w') \<Longrightarrow> spawned w' = spawned w"
  by (auto simp: PollDeviceToken_def dest: poll_loop_ran split: option.splits)

lemma Discover_ran: "Discover env w = (r, w') \<Longrightarrow> spawned w' = spawned w"
  using exchange_quiet [of env GET DiscoveryURL "''''" w]
  by (auto simp: Discover_def split: prod.splits outcome.splits if_splits)

lemma RequestDeviceCode_ran: "RequestDeviceCode env w = (r, w') \<Longrightarrow> spawned w' = spawned w"
  using exchange_quiet [of env POST DeviceCodeURL device_code_form w]
  by (auto simp: RequestDeviceCode_def split: prod.splits outcome.splits if_splits)

definition browser_commands :: "'n env \<Rightarrow> bool \<Rightarrow> string list list \<Rightarrow> bool" where
  "browser_commands env openBrowser cs \<longleftrightarrow>
     cs = [] \<or> openBrowser \<and> (\<exists>u argv. cs = [argv] \<and> browser_command (goos env) u = Some argv \<and> ValidateVerificationURI u = None \<and> \<not> prefix ''-'' u)"

lemma tryOpenBrowser_ran:
  assumes "tryOpenBrowser env u w = (r, w')" "ValidateVerificationURI u = None"
  shows "sent w' = sent w \<and> slept w' = slept w \<and> (\<exists>cs. spawned w' = spawned w @ cs \<and> browser_commands env True cs)"
proof -
  have "\<not> prefix ''-'' u"
    using assms(2) ValidateVerificationURI_dash by (cases u) (auto simp del: not_None_eq)
  with assms show ?thesis
    by (auto simp: tryOpenBrowser_def browser_commands_def split: option.splits prod.splits)
qed

lemma verify_url_ok: "device_code_ok dc \<Longrightarrow> ValidateVerificationURI (verify_url dc) = None"
  by (auto simp: device_code_ok_def verify_url_def)

text \<open>A login is discovery, the device code, the browser, and the polling, as far as it gets.\<close>

lemma DeviceLogin_cases:
  assumes "DeviceLogin fuel env openBrowser w = Some (r, printed, w')"
  obtains e where "Discover env w = (Inl e, w')" "r = Inl e" "printed = []"
  | disc w1 e where "Discover env w = (Inr disc, w1)" "RequestDeviceCode env w1 = (Inl e, w')" "r = Inl e" "printed = []"
  | disc w1 dc w2 opened w3 x where "Discover env w = (Inr disc, w1)" "RequestDeviceCode env w1 = (Inr dc, w2)"
      "(if openBrowser then tryOpenBrowser env (verify_url dc) w2 else (False, w2)) = (opened, w3)"
      "PollDeviceToken fuel env (TokenEndpoint disc) (DeviceCode dc) (dc_ExpiresIn dc) (Interval dc) w3 = Some (x, w')"
      "r = map_sum id (\<lambda>tr. \<lparr>Tokens = tr, lr_Discovery = disc\<rparr>) x" "printed = login_lines openBrowser opened dc"
proof (cases "Discover env w")
  case d: (Pair rd w1)
  show thesis
  proof (cases rd)
    case (Inl e)
    with assms d that(1) show thesis by (simp add: DeviceLogin_def)
  next
    case disc: (Inr disc)
    obtain rc w2 where c: "RequestDeviceCode env w1 = (rc, w2)" by (cases "RequestDeviceCode env w1")
    show thesis
    proof (cases rc)
      case (Inl e)
      with assms d c disc that(2) show thesis by (simp add: DeviceLogin_def)
    next
      case (Inr dc)
      obtain opened w3 where b: "(if openBrowser then tryOpenBrowser env (verify_url dc) w2 else (False, w2)) = (opened, w3)"
        by (cases "if openBrowser then tryOpenBrowser env (verify_url dc) w2 else (False, w2)")
      show thesis
        using assms that(3) [OF d [unfolded disc] c [unfolded Inr] b] d disc c Inr b
        by (auto simp: DeviceLogin_def split: option.splits prod.splits sum.splits)
    qed
  qed
qed

lemma DeviceLogin_keeps_pin:
  assumes "DeviceLogin fuel env openBrowser w = Some (r, printed, w')"
  shows "keeps_pin w w' \<and> (\<exists>cs. spawned w' = spawned w @ cs \<and> browser_commands env openBrowser cs)"
  using assms
proof (cases rule: DeviceLogin_cases)
  case (3 disc w1 dc w2 opened w3 x)
  have w3: "sent w3 = sent w2 \<and> (\<exists>cs. spawned w3 = spawned w2 @ cs \<and> browser_commands env openBrowser cs)"
    using 3(3) tryOpenBrowser_ran [OF _ verify_url_ok [OF RequestDeviceCode_ok [OF 3(2)]], of env w2 opened w3]
    by (cases openBrowser) (auto simp: browser_commands_def)
  then have "keeps_pin w2 w3" by (simp add: keeps_pin_def)
  with w3 3(1,2,4) show ?thesis
    using Discover_ran [OF 3(1)] RequestDeviceCode_ran [OF 3(2)] PollDeviceToken_ran [OF 3(4)]
    by (auto dest!: Discover_keeps_pin RequestDeviceCode_keeps_pin PollDeviceToken_keeps_pin intro: keeps_pin_trans)
next
  case (2 disc w1 e)
  with Discover_ran [OF 2(1)] RequestDeviceCode_ran [OF 2(2)] show ?thesis
    by (auto dest!: Discover_keeps_pin RequestDeviceCode_keeps_pin intro: keeps_pin_trans simp: browser_commands_def)
qed (auto dest: Discover_keeps_pin Discover_ran simp: browser_commands_def)

lemma DeviceLogin_ok:
  assumes "DeviceLogin fuel env openBrowser w = Some (Inr lr, printed, w')"
  shows "usable (Tokens lr) \<and> pinned_url (TokenEndpoint (lr_Discovery lr))"
  using assms
proof (cases rule: DeviceLogin_cases)
  case (3 disc w1 dc w2 opened w3 x)
  from 3(5) obtain tr where "x = Inr tr" "lr = \<lparr>Tokens = tr, lr_Discovery = disc\<rparr>" by (cases x) auto
  with PollDeviceToken_ok 3(4) show ?thesis by fastforce
qed auto

text \<open>
  Property C22. A login that succeeds yields tokens that are not blank and a token endpoint on the
  x.ai origin; and whether it succeeds or not, all requests of its three phases were pinned, and the
  only program it started, if the browser was wanted at all, is the URL opener of the platform with a
  verification URL that passed its validation and that it cannot take for an option.
\<close>

theorem DeviceLogin_spec:
  "case DeviceLogin fuel env openBrowser w of
     None \<Rightarrow> True
   | Some (r, printed, w') \<Rightarrow>
       keeps_pin w w' \<and> (\<exists>cs. spawned w' = spawned w @ cs \<and> browser_commands env openBrowser cs)
       \<and> (case r of Inl e \<Rightarrow> True | Inr lr \<Rightarrow> usable (Tokens lr) \<and> pinned_url (TokenEndpoint (lr_Discovery lr)))"
  by (auto dest: DeviceLogin_keeps_pin DeviceLogin_ok split: option.splits sum.splits prod.splits)

end
