(* ===== verification/Refresh.thy ===== *)
theory Refresh
  imports Device
begin

text \<open>
  \<^verbatim>\<open>internal/protocol/refresh.go\<close>: the exchange of a refresh token for a new access token. What
  \<open>Refresh\<close> makes of a response is the pure function \<open>read_refresh\<close>. The contract it offers to the
  session is the locale \<open>refresher\<close>, interpreted on \<open>Refresh\<close> at the end.
\<close>

definition parseOAuthError :: "string \<Rightarrow> string" where
  "parseOAuthError body =
     (let (p, bad) = json_unmarshal error_fields body '''' in
      if bad then '''' else sanitizeOAuthErrorCode p)"

definition refresh_form :: "string \<Rightarrow> string" where
  "refresh_form rt =
     form_encode [(''grant_type'', ''refresh_token''), (''client_id'', ClientID), (''refresh_token'', rt)]"

definition tier_error :: Error where
  "tier_error =
     \<lparr>Code = ''tier_denied'', Message = Phrase ''xai_oauth_tier_denied (HTTP 403)'', HTTPStatus = 403, Kind = ''tier''\<rparr>"

definition read_refresh :: "string \<Rightarrow> int \<Rightarrow> string \<Rightarrow> go_err + TokenResponse" where
  "read_refresh refreshToken st body =
     (if st = 403 then Inl (ProtoErr tier_error)
      else if st \<noteq> 200 then
        (let oauthErr = parseOAuthError body;
             kind = (if oauthErr = ''invalid_grant'' \<or> oauthErr = ''invalid_client'' then ''reauth'' else ''transient'')
         in Inl (ProtoErr (wrapHTTP ''refresh_failed'' st kind)))
      else
        (let (tr, bad) = json_unmarshal TokenResponse_fields body empty_TokenResponse in
         if bad then Inl (proto_err ''refresh_failed'' ''invalid refresh JSON'' ''transient'')
         else if blank (AccessToken tr) then
           Inl (proto_err ''missing_access'' ''refresh response missing access_token'' ''reauth'')
         else
           (let tr' = (if blank (RefreshToken tr) then tr\<lparr>RefreshToken := refreshToken\<rparr> else tr)
            in Inr (default_token_type tr'))))"

text \<open>The endpoint to use: the given one, or the discovered one.\<close>

definition refresh_endpoint :: "'n env \<Rightarrow> string \<Rightarrow> 'n world \<Rightarrow> (go_err + string) \<times> 'n world" where
  "refresh_endpoint env tokenEndpoint w =
     (let endpoint = trim_space tokenEndpoint in
      if endpoint = '''' then
        (case Discover env w of
           (Inl e, w') \<Rightarrow> (Inl e, w')
         | (Inr d, w') \<Rightarrow> (Inr (TokenEndpoint d), w'))
      else (Inr endpoint, w))"

definition Refresh :: "'n env \<Rightarrow> string \<Rightarrow> string \<Rightarrow> 'n world \<Rightarrow> (go_err + TokenResponse) \<times> 'n world" where
  "Refresh env tokenEndpoint refreshToken w =
     (if blank refreshToken then
        (Inl (proto_err ''missing_refresh'' ''missing refresh_token'' ''reauth''), w)
      else
        (case refresh_endpoint env tokenEndpoint w of
           (Inl e, w1) \<Rightarrow> (Inl e, w1)
         | (Inr endpoint, w1) \<Rightarrow>
             (case ValidateXAIURL endpoint ''token_endpoint'' of
                Some e \<Rightarrow> (Inl (proto_err ''discovery_invalid'' ''token_endpoint failed validation'' ''reauth''), w1)
              | None \<Rightarrow>
                  (case exchange env POST endpoint (refresh_form refreshToken) w1 of
                     (BuildFailed, w2) \<Rightarrow>
                       (Inl (proto_err ''refresh_failed'' ''refresh request build failed'' ''transient''), w2)
                   | (DoFailed, w2) \<Rightarrow>
                       (Inl (proto_err ''refresh_failed'' ''token refresh request failed'' ''transient''), w2)
                   | (Got st body, w2) \<Rightarrow> (read_refresh refreshToken st body, w2)))))"

subsection \<open>What a response means\<close>

text \<open>Members of a JSON object that the struct does not have.\<close>

definition unknown_to :: "'s field list \<Rightarrow> (string \<times> json) list \<Rightarrow> bool" where
  "unknown_to fs kvs \<longleftrightarrow> list_all (\<lambda>kv. find_field fs (fst kv) = None) kvs"

lemma unmarshal_members:
  assumes "json_parse body = Some (JObj (kvs @ others))" "unknown_to fs others"
  shows "json_unmarshal fs body x = fold (store_field fs) kvs (x, False)"
  using store_others [OF assms(2) [unfolded unknown_to_def]] assms(1)
  by (simp add: json_unmarshal_def store_json_def)

lemma token_members:
  "fold (store_field TokenResponse_fields) [(''access_token'', JStr at)] (empty_TokenResponse, False)
     = (empty_TokenResponse\<lparr>AccessToken := at\<rparr>, False)"
  "fold (store_field TokenResponse_fields) [(''access_token'', JStr at), (''refresh_token'', JStr new)] (empty_TokenResponse, False)
     = (empty_TokenResponse\<lparr>AccessToken := at, RefreshToken := new\<rparr>, False)"
  by (simp_all add: store_field_def find_field_def TokenResponse_fields_def)

lemma error_member: "fold (store_field error_fields) [(''error'', JStr code)] ('''', False) = (code, False)"
  by (simp add: store_field_def find_field_def error_fields_def)

lemma sanitize_ends:
  "c \<in> {''invalid_grant'', ''invalid_client''} \<Longrightarrow> sanitizeOAuthErrorCode raw = c \<longleftrightarrow> trim_space (to_lower raw) = c"
proof -
  assume c: "c \<in> {''invalid_grant'', ''invalid_client''}"
  then have "\<not> list_ex (\<lambda>p. \<not> oauth_code_rune (fst p)) (runes c)" "length c \<le> 64" "c \<noteq> ''''"
    by (auto simp: runes_ascii is_ascii_def byte_def oauth_code_rune_def)
  then show ?thesis by (auto simp: sanitizeOAuthErrorCode_def Let_def)
qed

text \<open>The two OAuth errors that end a session.\<close>

definition ending :: "string \<Rightarrow> bool" where
  "ending code \<longleftrightarrow> code = ''invalid_grant'' \<or> code = ''invalid_client''"

lemma parse_ending:
  assumes "json_parse body = Some (JObj ([(''error'', JStr code)] @ others))" "unknown_to error_fields others"
  shows "ending (parseOAuthError body) \<longleftrightarrow> ending (trim_space (to_lower code))"
proof -
  have "parseOAuthError body = sanitizeOAuthErrorCode code"
    using unmarshal_members [OF assms] error_member by (simp add: parseOAuthError_def)
  then show ?thesis by (auto simp: ending_def sanitize_ends)
qed

lemma read_refresh_members:
  assumes "unknown_to TokenResponse_fields others" "\<not> blank at"
  shows "json_parse body = Some (JObj ([(''access_token'', JStr at)] @ others)) \<Longrightarrow>
      read_refresh rt 200 body = Inr (empty_TokenResponse\<lparr>AccessToken := at, RefreshToken := rt, TokenType := ''Bearer''\<rparr>)"
    "json_parse body = Some (JObj ([(''access_token'', JStr at), (''refresh_token'', JStr new)] @ others)) \<Longrightarrow> \<not> blank new \<Longrightarrow>
      read_refresh rt 200 body = Inr (empty_TokenResponse\<lparr>AccessToken := at, RefreshToken := new, TokenType := ''Bearer''\<rparr>)"
  using unmarshal_members [OF _ assms(1)] token_members assms(2)
  by (simp_all add: read_refresh_def default_token_type_def empty_TokenResponse_def)

text \<open>
  Property C30. What a response of the token endpoint means, for every status and body. A 200 whose JSON has an
  access token always renews: with its refresh token, or with the old one when it has none. A 200 without an
  access token ends the session, and so does any other status with the OAuth error \<open>invalid_grant\<close> or
  \<open>invalid_client\<close>; 403 denies the tier; everything else is transient. In particular, on the wire, where
  \<open>others\<close> are any other members: a body with an access token only keeps the old refresh token, one with both
  rotates it, and an error body of status 400 ends the session exactly for those two codes, in any case.
\<close>

theorem read_refresh_spec:
  "(case json_unmarshal TokenResponse_fields body empty_TokenResponse of (t, bad) \<Rightarrow>
     (if st = 403 then read_refresh rt st body = Inl (ProtoErr tier_error) \<and> Kind tier_error = ''tier''
      else if st \<noteq> 200 then
        (\<exists>pe. read_refresh rt st body = Inl (ProtoErr pe) \<and> HTTPStatus pe = st
          \<and> Kind pe = (if ending (parseOAuthError body) then ''reauth'' else ''transient''))
      else if bad then (\<exists>pe. read_refresh rt st body = Inl (ProtoErr pe) \<and> Kind pe = ''transient'')
      else if blank (AccessToken t) then (\<exists>pe. read_refresh rt st body = Inl (ProtoErr pe) \<and> Kind pe = ''reauth'')
      else read_refresh rt st body =
        Inr (t\<lparr>RefreshToken := if blank (RefreshToken t) then rt else RefreshToken t,
               TokenType := if TokenType t = '''' then ''Bearer'' else TokenType t\<rparr>)))
   \<and> (unknown_to TokenResponse_fields others \<and> \<not> blank at \<and> \<not> blank new \<longrightarrow>
        (json_parse body = Some (JObj ([(''access_token'', JStr at)] @ others)) \<longrightarrow>
           read_refresh rt 200 body = Inr (empty_TokenResponse\<lparr>AccessToken := at, RefreshToken := rt, TokenType := ''Bearer''\<rparr>))
      \<and> (json_parse body = Some (JObj ([(''access_token'', JStr at), (''refresh_token'', JStr new)] @ others)) \<longrightarrow>
           read_refresh rt 200 body = Inr (empty_TokenResponse\<lparr>AccessToken := at, RefreshToken := new, TokenType := ''Bearer''\<rparr>)))
   \<and> (unknown_to error_fields others \<and> json_parse body = Some (JObj ([(''error'', JStr code)] @ others)) \<longrightarrow>
        (\<exists>pe. read_refresh rt 400 body = Inl (ProtoErr pe)
           \<and> Kind pe = (if ending (trim_space (to_lower code)) then ''reauth'' else ''transient'')))"
proof -
  have "case json_unmarshal TokenResponse_fields body empty_TokenResponse of (t, bad) \<Rightarrow>
     (if st = 403 then read_refresh rt st body = Inl (ProtoErr tier_error) \<and> Kind tier_error = ''tier''
      else if st \<noteq> 200 then
        (\<exists>pe. read_refresh rt st body = Inl (ProtoErr pe) \<and> HTTPStatus pe = st
          \<and> Kind pe = (if ending (parseOAuthError body) then ''reauth'' else ''transient''))
      else if bad then (\<exists>pe. read_refresh rt st body = Inl (ProtoErr pe) \<and> Kind pe = ''transient'')
      else if blank (AccessToken t) then (\<exists>pe. read_refresh rt st body = Inl (ProtoErr pe) \<and> Kind pe = ''reauth'')
      else read_refresh rt st body =
        Inr (t\<lparr>RefreshToken := if blank (RefreshToken t) then rt else RefreshToken t,
               TokenType := if TokenType t = '''' then ''Bearer'' else TokenType t\<rparr>))"
    by (auto simp: read_refresh_def Let_def proto_err_def tier_error_def default_token_type_def ending_def split: prod.splits)
  moreover have "\<exists>pe. read_refresh rt 400 body = Inl (ProtoErr pe)
      \<and> Kind pe = (if ending (trim_space (to_lower code)) then ''reauth'' else ''transient'')"
    if "unknown_to error_fields others \<and> json_parse body = Some (JObj ([(''error'', JStr code)] @ others))"
    using parse_ending [of body code others] that by (simp add: read_refresh_def Let_def ending_def)
  ultimately show ?thesis using read_refresh_members by blast
qed

theorem read_refresh_spec_witness:
  "read_refresh ''old'' 200 (json_print (JObj ([(''access_token'', JStr ''at'')] @ [(''scope'', JStr ''x'')])))
     = Inr (empty_TokenResponse\<lparr>AccessToken := ''at'', RefreshToken := ''old'', TokenType := ''Bearer''\<rparr>)
   \<and> (\<exists>pe. read_refresh ''old'' 400 (json_print (JObj ([(''error'', JStr ''invalid_grant'')] @ [(''scope'', JStr ''x'')]))) = Inl (ProtoErr pe)
        \<and> Kind pe = ''reauth'')"
proof
  let ?o = "[(''scope'', JStr ''x'')]"
  let ?a = "json_print (JObj ([(''access_token'', JStr ''at'')] @ ?o))" and ?e = "json_print (JObj ([(''error'', JStr ''invalid_grant'')] @ ?o))"
  have u: "unknown_to TokenResponse_fields ?o" "unknown_to error_fields ?o"
    by (simp_all add: unknown_to_def find_field_def TokenResponse_fields_def error_fields_def fold_name_def runes_ascii is_ascii_def byte_def fold_rune_def)
  have "to_lower ''invalid_grant'' = ''invalid_grant''" by (simp add: string_eval to_lower_def ascii_lower_def chr_def)
  then have b: "\<not> blank ''at''" "ending (trim_space (to_lower ''invalid_grant''))" by (simp_all add: string_eval ending_def)
  have "utf8_ok ''access_token''" "utf8_ok ''at''" "utf8_ok ''scope''" "utf8_ok ''x''" "utf8_ok ''error''" "utf8_ok ''invalid_grant''"
    by (simp_all add: utf8_ok_ascii is_ascii_def byte_def)
  then have p: "json_parse ?a = Some (JObj ([(''access_token'', JStr ''at'')] @ ?o))"
    "json_parse ?e = Some (JObj ([(''error'', JStr ''invalid_grant'')] @ ?o))"
    by (intro json_parse_print; simp add: max_depth_def)+
  show "read_refresh ''old'' 200 ?a = Inr (empty_TokenResponse\<lparr>AccessToken := ''at'', RefreshToken := ''old'', TokenType := ''Bearer''\<rparr>)"
    using read_refresh_spec [where body = ?a and rt = "''old''" and others = ?o and at = "''at''" and new = "''at''"] u(1) b(1) p(1) by blast
  have "\<exists>pe. read_refresh ''old'' 400 ?e = Inl (ProtoErr pe)
      \<and> Kind pe = (if ending (trim_space (to_lower ''invalid_grant'')) then ''reauth'' else ''transient'')"
    using read_refresh_spec [where body = ?e and rt = "''old''" and others = ?o and code = "''invalid_grant''"] u(2) p(2) by blast
  with b(2) show "\<exists>pe. read_refresh ''old'' 400 ?e = Inl (ProtoErr pe) \<and> Kind pe = ''reauth''" by simp
qed

lemma ValidateXAIURL_trim: "ValidateXAIURL (trim_space url) f = ValidateXAIURL url f"
  by (simp add: ValidateXAIURL_def trim_space_idem)

text \<open>With a pinned endpoint and a refresh token, \<open>Refresh\<close> is one exchange.\<close>

lemma Refresh_exchange:
  assumes "pinned_url ep" "\<not> blank rt" "exchange env POST (trim_space ep) (refresh_form rt) w = (out, w')"
  shows "Refresh env ep rt w =
    (case out of
       BuildFailed \<Rightarrow> (Inl (proto_err ''refresh_failed'' ''refresh request build failed'' ''transient''), w')
     | DoFailed \<Rightarrow> (Inl (proto_err ''refresh_failed'' ''token refresh request failed'' ''transient''), w')
     | Got st body \<Rightarrow> (read_refresh rt st body, w'))"
proof -
  have v: "ValidateXAIURL (trim_space ep) ''token_endpoint'' = None"
    using assms(1) by (simp add: ValidateXAIURL_trim validate_iff)
  then have "trim_space ep \<noteq> ''''" by (auto simp: ValidateXAIURL_def)
  with v assms(2,3) show ?thesis by (simp add: Refresh_def refresh_endpoint_def split: outcome.split)
qed

subsection \<open>The contract\<close>

text \<open>The error codes that can reach \<open>last_error\<close>.\<close>

definition refresh_codes :: "string set" where
  "refresh_codes = {''discovery_failed'', ''discovery_invalid'', ''missing_refresh'', ''refresh_failed'',
     ''missing_access'', ''tier_denied''}"

definition refresh_err :: "go_err \<Rightarrow> bool" where
  "refresh_err e \<longleftrightarrow> (\<exists>pe. e = ProtoErr pe \<and> Code pe \<in> refresh_codes \<and> Kind pe \<in> {''reauth'', ''tier'', ''transient''})"

lemma read_refresh_err: "read_refresh rt st body = Inl e \<Longrightarrow> refresh_err e"
  by (auto simp: read_refresh_def Let_def refresh_err_def refresh_codes_def proto_err_def tier_error_def
      split: prod.splits if_splits)

lemma read_refresh_ok: "read_refresh rt st body = Inr tr \<Longrightarrow> \<not> blank rt \<Longrightarrow> usable tr"
  by (auto simp: read_refresh_def Let_def usable_def split: prod.splits if_splits)

lemma refresh_endpoint_keeps_pin: "refresh_endpoint env ep w = (r, w') \<Longrightarrow> keeps_pin w w'"
  by (auto simp: refresh_endpoint_def Let_def dest: Discover_keeps_pin split: prod.splits sum.splits if_splits)

lemma refresh_endpoint_err: "refresh_endpoint env ep w = (Inl e, w') \<Longrightarrow> refresh_err e"
  by (auto simp: refresh_endpoint_def Let_def refresh_err_def refresh_codes_def dest!: Discover_err
      split: prod.splits sum.splits if_splits)

lemma Refresh_keeps_pin: "Refresh env ep rt w = (r, w') \<Longrightarrow> keeps_pin w w'"
  unfolding Refresh_def validate_iff
  by (auto simp: validate_iff dest!: refresh_endpoint_keeps_pin
      intro: keeps_pin_trans exchange_keeps_pin split: prod.splits sum.splits option.splits outcome.splits if_splits)

lemma Refresh_err: "Refresh env ep rt w = (Inl e, w') \<Longrightarrow> refresh_err e"
  by (auto simp: Refresh_def proto_err_def dest: refresh_endpoint_err read_refresh_err
      split: prod.splits sum.splits option.splits outcome.splits if_splits)
    (auto simp: refresh_err_def refresh_codes_def)

lemma Refresh_ok: "Refresh env ep rt w = (Inr tr, w') \<Longrightarrow> usable tr"
  by (auto simp: Refresh_def dest: read_refresh_ok
      split: prod.splits sum.splits option.splits outcome.splits if_splits)

text \<open>What the pin says of a URL: https, and a host whose normal form is \<open>x.ai\<close> or ends in \<open>.x.ai\<close>.\<close>

definition xai_https :: "string \<Rightarrow> bool" where
  "xai_https url \<longleftrightarrow>
     (\<exists>u. url_parse (trim_space url) = Some u \<and> u_Scheme u = ''https''
        \<and> (pin_normal (to_lower (hostname u)) = ''x.ai'' \<or> (\<exists>p. pin_normal (to_lower (hostname u)) = p @ ''.x.ai'')))"

lemma pinned_xai_https: "pinned_url url \<Longrightarrow> xai_https url"
  unfolding pinned_url_def xai_https_def ValidateXAIURL_def Let_def IsXAIHost_suffix
  by (auto split: if_splits option.splits)

text \<open>One exchange: at most five requests, pinned, with the body or without one.\<close>

definition careful :: "string \<Rightarrow> http_request list \<Rightarrow> bool" where
  "careful body rqs \<longleftrightarrow> list_all (\<lambda>rq. xai_https (rq_URL rq) \<and> rq_Body rq \<in> {'''', body}) rqs"

lemma exchange_careful:
  assumes "pinned_url url" "exchange env m url body w = (r, w')"
  shows "\<exists>rqs. sent w' = sent w @ rqs \<and> careful body rqs \<and> length rqs \<le> 5"
proof (cases "new_request m url body")
  case None
  with assms(2) show ?thesis by (simp add: exchange_def careful_def)
next
  case (Some rq)
  obtain r1 w1 where d: "do_hops env 0 rq w = (r1, w1)" by (cases "do_hops env 0 rq w")
  with do_hops_log [of rq 0 env w r1 w1] assms(1) new_request_SomeD [OF Some]
  obtain rqs where log: "sent w1 = sent w @ rqs" "pinned rqs" "length rqs \<le> 5" by auto
  with do_hops_bodies [OF d] new_request_SomeD [OF Some] have "careful body rqs"
    by (auto simp: careful_def pinned_def list_all_iff pinned_xai_https)
  moreover have "w' = w1"
    using assms(2) Some d by (auto simp: exchange_def client_Do_def split: option.splits)
  ultimately show ?thesis using log by blast
qed

lemma refresh_endpoint_careful:
  "refresh_endpoint env ep w = (r, w') \<Longrightarrow> \<exists>rqs. sent w' = sent w @ rqs \<and> careful '''' rqs \<and> length rqs \<le> 5"
  using exchange_careful [of DiscoveryURL env GET "''''" w]
  by (auto simp: refresh_endpoint_def Discover_def Let_def careful_def split: prod.splits sum.splits outcome.splits if_splits)

text \<open>
  Property C9. Where a refresh sends the refresh token. At most ten requests are made (discovery, the POST,
  redirects of either); each goes over https to a host whose normal form is \<open>x.ai\<close> or ends in \<open>.x.ai\<close>, and
  carries as its body the refresh form or nothing; and without a refresh token nothing is sent. What is pinned is
  the normal form of the host: \<open>ValidateXAIURL_accepts_ip6_zone\<close> and \<open>IsXAIHost_accepts_dotted_I\<close> of theory \<open>Pin\<close>
  show hosts outside x.ai that have such a form.
\<close>

theorem Refresh_pinned:
  "\<exists>rqs. sent (snd (Refresh env ep rt w)) = sent w @ rqs \<and> length rqs \<le> (if blank rt then 0 else 10)
     \<and> list_all (\<lambda>rq. xai_https (rq_URL rq) \<and> rq_Body rq \<in> {'''', refresh_form rt}) rqs"
proof (cases "blank rt")
  case True
  then show ?thesis by (simp add: Refresh_def)
next
  case False
  obtain x w1 where x: "refresh_endpoint env ep w = (x, w1)" by (cases "refresh_endpoint env ep w")
  obtain rqs where rqs: "sent w1 = sent w @ rqs" "careful (refresh_form rt) rqs" "length rqs \<le> 5"
    using refresh_endpoint_careful [OF x] by (auto simp: careful_def list_all_iff)
  have more: ?thesis if "snd (Refresh env ep rt w) = w2" "sent w2 = sent w1 @ rqs'" "careful (refresh_form rt) rqs'" "length rqs' \<le> 5"
    for w2 rqs'
    using that rqs False by (intro exI [of _ "rqs @ rqs'"]) (simp add: careful_def)
  have none: ?thesis if "snd (Refresh env ep rt w) = w1"
    using more [OF that, of "[]"] by (simp add: careful_def)
  show ?thesis
  proof (cases x)
    case (Inl e)
    with False x show ?thesis by (intro none) (simp add: Refresh_def)
  next
    case (Inr endpoint)
    show ?thesis
    proof (cases "ValidateXAIURL endpoint ''token_endpoint''")
      case None
      obtain out w2 where o: "exchange env POST endpoint (refresh_form rt) w1 = (out, w2)"
        by (cases "exchange env POST endpoint (refresh_form rt) w1")
      have "snd (Refresh env ep rt w) = w2"
        using False x Inr None o by (simp add: Refresh_def split: outcome.split)
      with exchange_careful [OF _ o] None more show ?thesis unfolding validate_iff by blast
    next
      case (Some e)
      with False x Inr show ?thesis by (intro none) (simp add: Refresh_def)
    qed
  qed
qed

text \<open>
  What the session may assume of its refresher: a result carries tokens that are not blank; a
  failure is a protocol error of one of three kinds with a code from a fixed list.
\<close>

locale refresher =
  fixes refresh :: "string \<Rightarrow> string \<Rightarrow> 'w \<Rightarrow> (go_err + TokenResponse) \<times> 'w"
  assumes refresh_ok: "refresh ep rt w = (Inr tr, w') \<Longrightarrow> usable tr"
    and refresh_error: "refresh ep rt w = (Inl e, w') \<Longrightarrow> refresh_err e"
begin

lemma public_message:
  "refresh ep rt w = (Inl e, w') \<Longrightarrow>
     \<exists>c \<in> refresh_codes. \<exists>n. PublicMessage (Some e) \<in> {c, with_status c n}"
proof -
  assume "refresh ep rt w = (Inl e, w')"
  then obtain pe where pe: "e = ProtoErr pe" "Code pe \<in> refresh_codes"
    using refresh_error unfolding refresh_err_def by blast
  moreover from pe(2) have "Code pe \<noteq> ''''" by (auto simp: refresh_codes_def)
  ultimately show ?thesis
    using PublicMessage_ProtoErr [of pe] by auto
qed

end

interpretation idp: refresher "Refresh env"
  by unfold_locales (auto dest: Refresh_ok Refresh_err)

end
