(* ===== verification/Session.thy ===== *)
theory Session
  imports Refresh
begin

text \<open>
  \<^verbatim>\<open>internal/session/session.go\<close>, one goroutine at a time: the credentials of the process, its
  lifecycle, and \<open>GetAccessToken\<close>. Each part of the code that runs under the mutex \<^verbatim>\<open>mu\<close> is a function
  of its own, so that the interleavings of several goroutines can be built from the same functions
  (theory \<open>Concurrency\<close>). The call to the identity provider and the clock are the arguments
  \<open>refresh\<close> and \<open>now\<close>.

  The abstract view of a session is \<open>phase\<close>: it holds credentials, or is in one of three terminal
  states. \<open>GetAccessToken_refines\<close> shows that the code implements the intended behaviour on it.
\<close>

subsection \<open>State\<close>

datatype State = StateReady | StateReauthRequired | StateTierDenied | StateHandedOff

fun state_string :: "State \<Rightarrow> string" where
  "state_string StateReady = ''ready''"
| "state_string StateReauthRequired = ''reauth_required''"
| "state_string StateTierDenied = ''tier_denied''"
| "state_string StateHandedOff = ''handed_off''"

record Session =
  accessToken :: string
  refreshToken :: string
  tokenEndpoint :: string
  expiresAt :: gotime
  hasExpiry :: bool
  state :: State
  lastError :: string

datatype login_error = LoginNilResult | LoginMissingToken | LoginBadEndpoint pin_error

definition NewFromLogin :: "LoginResult option \<Rightarrow> gotime \<Rightarrow> login_error + Session" where
  "NewFromLogin oresult t =
     (case oresult of
        None \<Rightarrow> Inl LoginNilResult
      | Some result \<Rightarrow>
          (let tr = Tokens result; ep = TokenEndpoint (lr_Discovery result) in
           if AccessToken tr = '''' \<or> RefreshToken tr = '''' then Inl LoginMissingToken
           else
             (case ValidateXAIURL ep ''token_endpoint'' of
                Some e \<Rightarrow> Inl (LoginBadEndpoint e)
              | None \<Rightarrow>
                  (let (exp, ok) = ExpiresAtFromToken (AccessToken tr) (ExpiresIn tr) t in
                   Inr \<lparr>accessToken = AccessToken tr, refreshToken = RefreshToken tr, tokenEndpoint = ep,
                        expiresAt = exp, hasExpiry = ok, state = StateReady, lastError = ''''\<rparr>))))"

definition accessStillFreshLocked :: "gotime \<Rightarrow> Session \<Rightarrow> bool" where
  "accessStillFreshLocked t s \<longleftrightarrow>
     accessToken s \<noteq> '''' \<and> hasExpiry s \<and> t < time_add (expiresAt s) (- RefreshSkew)"

definition hardValidLocked :: "gotime \<Rightarrow> Session \<Rightarrow> bool" where
  "hardValidLocked t s \<longleftrightarrow> accessToken s \<noteq> '''' \<and> hasExpiry s \<and> t < expiresAt s"

subsection \<open>Snapshots\<close>

record Status =
  st_State :: State
  st_ExpiresAt :: gotime
  st_HasExpiry :: bool
  st_TokenValid :: bool
  st_LastError :: string

definition get_Status :: "gotime \<Rightarrow> Session \<Rightarrow> Status" where
  "get_Status t s =
     \<lparr>st_State = state s, st_ExpiresAt = (if hasExpiry s then expiresAt s else 0),
      st_HasExpiry = hasExpiry s, st_TokenValid = hardValidLocked t s, st_LastError = lastError s\<rparr>"

definition ReadyReasonDegraded :: string where
  "ReadyReasonDegraded = ''degraded''"

definition Ready :: "gotime \<Rightarrow> Session \<Rightarrow> bool \<times> string" where
  "Ready t s =
     (if state s \<noteq> StateReady then (False, state_string (state s))
      else if hardValidLocked t s \<or> lastError s = '''' then (True, state_string StateReady)
      else (False, ReadyReasonDegraded))"

subsection \<open>Handoff and logout\<close>

record HandoffData =
  hd_AccessToken :: string
  hd_RefreshToken :: string
  hd_TokenEndpoint :: string
  hd_ExpiresAt :: gotime
  hd_HasExpiry :: bool

definition wipe :: "State \<Rightarrow> string \<Rightarrow> Session \<Rightarrow> Session" where
  "wipe st err s =
     s\<lparr>accessToken := '''', refreshToken := '''', tokenEndpoint := '''', expiresAt := 0,
       hasExpiry := False, state := st, lastError := err\<rparr>"

definition Handoff :: "Session \<Rightarrow> (State + HandoffData) \<times> Session" where
  "Handoff s =
     (if state s \<noteq> StateReady then (Inl (state s), s)
      else
        (Inr \<lparr>hd_AccessToken = accessToken s, hd_RefreshToken = refreshToken s,
             hd_TokenEndpoint = tokenEndpoint s, hd_ExpiresAt = expiresAt s, hd_HasExpiry = hasExpiry s\<rparr>,
         wipe StateHandedOff ''handed_off'' s))"

definition RestoreHandoff :: "HandoffData option \<Rightarrow> Session \<Rightarrow> Session" where
  "RestoreHandoff od s =
     (case od of
        None \<Rightarrow> s
      | Some d \<Rightarrow>
          if state s \<noteq> StateHandedOff then s
          else s\<lparr>accessToken := hd_AccessToken d, refreshToken := hd_RefreshToken d,
                 tokenEndpoint := hd_TokenEndpoint d, expiresAt := hd_ExpiresAt d,
                 hasExpiry := hd_HasExpiry d, state := StateReady, lastError := ''''\<rparr>)"

definition Clear :: "Session \<Rightarrow> Session" where
  "Clear s = wipe StateReauthRequired ''logged_out'' s"

subsection \<open>Getting a token\<close>

text \<open>The switch on the state that guards every use of the tokens.\<close>

fun state_error :: "State \<Rightarrow> go_err option" where
  "state_error StateReauthRequired = Some ErrReauthRequired"
| "state_error StateTierDenied = Some ErrTierDenied"
| "state_error StateHandedOff = Some ErrUnavailable"
| "state_error StateReady = None"

text \<open>The critical section that both \<open>GetAccessToken\<close> and \<open>refreshIfNeeded\<close> start with.\<close>

definition check_token :: "gotime \<Rightarrow> Session \<Rightarrow> (go_err + string) option" where
  "check_token t s =
     (case state_error (state s) of
        Some e \<Rightarrow> Some (Inl e)
      | None \<Rightarrow> if accessStillFreshLocked t s then Some (Inr (accessToken s)) else None)"

text \<open>Without a refresh token the session needs a login.\<close>

definition no_refresh_token :: "string \<Rightarrow> Session \<Rightarrow> Session" where
  "no_refresh_token err s = s\<lparr>state := StateReauthRequired, lastError := err, accessToken := ''''\<rparr>"

text \<open>The critical section after a successful call; \<open>exp\<close> and \<open>ok\<close> were computed before it.\<close>

definition commit_refresh ::
  "TokenResponse \<Rightarrow> gotime \<Rightarrow> bool \<Rightarrow> Session \<Rightarrow> (go_err + string) \<times> Session" where
  "commit_refresh tr exp ok s =
     (case state_error (state s) of
        Some e \<Rightarrow> (Inl e, s)
      | None \<Rightarrow>
          if refreshToken s = '''' then (Inl ErrReauthRequired, no_refresh_token ''logged_out'' s)
          else
            (Inr (AccessToken tr),
             s\<lparr>accessToken := AccessToken tr, refreshToken := RefreshToken tr, expiresAt := exp,
               hasExpiry := ok, state := StateReady, lastError := ''''\<rparr>))"

text \<open>The critical section of a terminal failure.\<close>

definition terminate :: "State \<Rightarrow> string \<Rightarrow> Session \<Rightarrow> Session" where
  "terminate st pub s = s\<lparr>state := st, lastError := pub, accessToken := '''', refreshToken := ''''\<rparr>"

definition handleRefreshErr :: "go_err \<Rightarrow> gotime \<Rightarrow> Session \<Rightarrow> (go_err + string) \<times> Session" where
  "handleRefreshErr err t s =
     (let pub = PublicMessage (Some err);
          kind = (case errors_As_Error err of Some pe \<Rightarrow> Kind pe | None \<Rightarrow> '''') in
      if kind = ''reauth'' then (Inl ErrReauthRequired, terminate StateReauthRequired pub s)
      else if kind = ''tier'' then (Inl ErrTierDenied, terminate StateTierDenied pub s)
      else if errors_Is err ErrReauthRequired then (Inl ErrReauthRequired, terminate StateReauthRequired pub s)
      else if errors_Is err ErrTierDenied then (Inl ErrTierDenied, terminate StateTierDenied pub s)
      else
        (let s' = s\<lparr>lastError := pub\<rparr> in
         if hardValidLocked t s' then (Inr (accessToken s'), s')
         else (Inl (Wrapped ErrUnavailable pub), s')))"

type_synonym 'w refresh_call = "string \<Rightarrow> string \<Rightarrow> 'w \<Rightarrow> (go_err + TokenResponse) \<times> 'w"

definition refreshIfNeeded ::
  "'w refresh_call \<Rightarrow> ('w \<Rightarrow> gotime) \<Rightarrow> Session \<Rightarrow> 'w \<Rightarrow> (go_err + string) \<times> Session \<times> 'w"
where
  "refreshIfNeeded refresh now s w =
     (case check_token (now w) s of
        Some r \<Rightarrow> (r, s, w)
      | None \<Rightarrow>
          let rt = refreshToken s; ep = tokenEndpoint s in
          if rt = '''' then (Inl ErrReauthRequired, no_refresh_token ''missing_refresh'' s, w)
          else
            (case refresh ep rt w of
               (Inl err, w') \<Rightarrow> (let (r, s') = handleRefreshErr err (now w') s in (r, s', w'))
             | (Inr tr, w') \<Rightarrow>
                 (let (exp, ok) = ExpiresAtFromToken (AccessToken tr) (ExpiresIn tr) (now w');
                      (r, s') = commit_refresh tr exp ok s
                  in (r, s', w'))))"

definition GetAccessToken ::
  "'w refresh_call \<Rightarrow> ('w \<Rightarrow> gotime) \<Rightarrow> Session \<Rightarrow> 'w \<Rightarrow> (go_err + string) \<times> Session \<times> 'w"
where
  "GetAccessToken refresh now s w =
     (case check_token (now w) s of
        Some r \<Rightarrow> (r, s, w)
      | None \<Rightarrow> refreshIfNeeded refresh now s w)"

subsection \<open>The invariant\<close>

text \<open>
  A ready session holds both tokens and a pinned endpoint; a session in any other state holds no
  token at all.
\<close>

definition session_inv :: "Session \<Rightarrow> bool" where
  "session_inv s \<longleftrightarrow>
     (if state s = StateReady
      then accessToken s \<noteq> '''' \<and> refreshToken s \<noteq> '''' \<and> pinned_url (tokenEndpoint s)
      else accessToken s = '''' \<and> refreshToken s = '''')"

lemma session_invD:
  "session_inv s \<Longrightarrow> state s = StateReady \<Longrightarrow>
     accessToken s \<noteq> '''' \<and> refreshToken s \<noteq> '''' \<and> pinned_url (tokenEndpoint s)"
  "session_inv s \<Longrightarrow> state s \<noteq> StateReady \<Longrightarrow> accessToken s = '''' \<and> refreshToken s = ''''"
  by (simp_all add: session_inv_def split: if_splits)

lemma state_error_None [simp]: "state_error st = None \<longleftrightarrow> st = StateReady"
  by (cases st) auto

lemma state_error_ready: "state_error st = Some e \<Longrightarrow> st \<noteq> StateReady"
  by (cases st) auto

lemma blank_empty [simp]: "blank ''''"
  by (simp add: string_eval)

lemma usable_nonempty: "usable tr \<Longrightarrow> AccessToken tr \<noteq> '''' \<and> RefreshToken tr \<noteq> ''''"
  by (auto simp: usable_def)

lemma inv_Handoff [inv_intro]: "session_inv s \<Longrightarrow> session_inv (snd (Handoff s))"
  by (simp add: Handoff_def wipe_def session_inv_def)

lemma inv_Clear [inv_intro]: "session_inv (Clear s)"
  by (simp add: Clear_def wipe_def session_inv_def)

text \<open>A handoff snapshot as it comes out of \<open>Handoff\<close>.\<close>

definition handoff_ok :: "HandoffData \<Rightarrow> bool" where
  "handoff_ok d \<longleftrightarrow> hd_AccessToken d \<noteq> '''' \<and> hd_RefreshToken d \<noteq> '''' \<and> pinned_url (hd_TokenEndpoint d)"

lemma inv_RestoreHandoff [inv_intro]:
  "session_inv s \<Longrightarrow> (\<And>d. od = Some d \<Longrightarrow> handoff_ok d) \<Longrightarrow> session_inv (RestoreHandoff od s)"
  by (cases od) (auto simp: RestoreHandoff_def session_inv_def handoff_ok_def)

lemma Handoff_ok: "session_inv s \<Longrightarrow> fst (Handoff s) = Inr d \<Longrightarrow> handoff_ok d"
  by (auto simp: Handoff_def session_inv_def handoff_ok_def split: if_splits)

lemma inv_commit [inv_intro]:
  "session_inv s \<Longrightarrow> usable tr \<Longrightarrow> session_inv (snd (commit_refresh tr exp ok s))"
  using usable_nonempty [of tr]
  by (auto simp: commit_refresh_def session_inv_def no_refresh_token_def split: option.splits)

lemma inv_terminate [inv_intro]: "st \<noteq> StateReady \<Longrightarrow> session_inv (terminate st pub s)"
  by (simp add: terminate_def session_inv_def)

lemma inv_handleRefreshErr [inv_intro]: "session_inv s \<Longrightarrow> session_inv (snd (handleRefreshErr err t s))"
  by (auto simp: handleRefreshErr_def Let_def inv_terminate) (simp_all add: session_inv_def)

lemma inv_no_refresh_token [inv_intro]: "refreshToken s = '''' \<Longrightarrow> session_inv (no_refresh_token err s)"
  by (simp add: no_refresh_token_def session_inv_def)

lemma NewFromLogin_Inr:
  "NewFromLogin (Some lr) t = Inr s \<longleftrightarrow>
     AccessToken (Tokens lr) \<noteq> '''' \<and> RefreshToken (Tokens lr) \<noteq> '''' \<and> pinned_url (TokenEndpoint (lr_Discovery lr))
     \<and> s = \<lparr>accessToken = AccessToken (Tokens lr), refreshToken = RefreshToken (Tokens lr),
            tokenEndpoint = TokenEndpoint (lr_Discovery lr),
            expiresAt = fst (ExpiresAtFromToken (AccessToken (Tokens lr)) (ExpiresIn (Tokens lr)) t),
            hasExpiry = snd (ExpiresAtFromToken (AccessToken (Tokens lr)) (ExpiresIn (Tokens lr)) t),
            state = StateReady, lastError = ''''\<rparr>"
  by (auto simp: NewFromLogin_def Let_def pinned_url_iff [of _ "''token_endpoint''"] split: option.splits prod.splits)

lemma inv_NewFromLogin [inv_intro]: "NewFromLogin olr t = Inr s \<Longrightarrow> session_inv s"
proof (cases olr)
  case None
  then show "NewFromLogin olr t = Inr s \<Longrightarrow> session_inv s" by (simp add: NewFromLogin_def)
next
  case (Some lr)
  then show "NewFromLogin olr t = Inr s \<Longrightarrow> session_inv s"
    by (simp add: NewFromLogin_Inr session_inv_def)
qed

text \<open>
  A completed login always gives a session: whatever servers and clock did, the result
  of a successful \<open>DeviceLogin\<close> is accepted by \<open>NewFromLogin\<close>, which makes a ready session with
  these tokens that satisfies the invariant.
\<close>

theorem login_gives_session:
  "case DeviceLogin fuel env openBrowser w of
     Some (Inr lr, printed, w') \<Rightarrow>
       (\<exists>s. NewFromLogin (Some lr) t = Inr s \<and> session_inv s \<and> state s = StateReady
          \<and> refreshToken s = RefreshToken (Tokens lr) \<and> accessToken s = AccessToken (Tokens lr))
   | _ \<Rightarrow> True"
proof (cases "DeviceLogin fuel env openBrowser w")
  case (Some r)
  then show ?thesis
    using DeviceLogin_ok [of fuel env openBrowser w] usable_nonempty
    by (auto simp: NewFromLogin_Inr session_inv_def split: sum.splits prod.splits)
qed simp

subsection \<open>What the session does with tokens\<close>

text \<open>
  The intended behaviour on an abstract session. Expiry is the time the token is known to be good
  for, if any.
\<close>

record cred =
  c_at :: string
  c_rt :: string
  c_ep :: string
  c_exp :: "gotime option"

datatype phase = Live cred | NeedLogin | NotEntitled | Gone

definition phase_of :: "Session \<Rightarrow> phase" where
  "phase_of s =
     (case state s of
        StateReady \<Rightarrow> Live \<lparr>c_at = accessToken s, c_rt = refreshToken s, c_ep = tokenEndpoint s,
                           c_exp = (if hasExpiry s then Some (expiresAt s) else None)\<rparr>
      | StateReauthRequired \<Rightarrow> NeedLogin
      | StateTierDenied \<Rightarrow> NotEntitled
      | StateHandedOff \<Rightarrow> Gone)"

definition fresh_at :: "gotime \<Rightarrow> cred \<Rightarrow> bool" where
  "fresh_at t c \<longleftrightarrow> (case c_exp c of None \<Rightarrow> False | Some e \<Rightarrow> t < time_add e (- RefreshSkew))"

definition valid_at :: "gotime \<Rightarrow> cred \<Rightarrow> bool" where
  "valid_at t c \<longleftrightarrow> (case c_exp c of None \<Rightarrow> False | Some e \<Rightarrow> t < e)"

definition renewed :: "cred \<Rightarrow> TokenResponse \<Rightarrow> gotime \<Rightarrow> cred" where
  "renewed c tr t =
     (let (exp, ok) = ExpiresAtFromToken (AccessToken tr) (ExpiresIn tr) t in
      c\<lparr>c_at := AccessToken tr, c_rt := RefreshToken tr, c_exp := (if ok then Some exp else None)\<rparr>)"

definition spec_get ::
  "'w refresh_call \<Rightarrow> ('w \<Rightarrow> gotime) \<Rightarrow> phase \<Rightarrow> 'w \<Rightarrow> (go_err + string) \<times> phase \<times> 'w"
where
  "spec_get refresh now p w =
     (case p of
        NeedLogin \<Rightarrow> (Inl ErrReauthRequired, p, w)
      | NotEntitled \<Rightarrow> (Inl ErrTierDenied, p, w)
      | Gone \<Rightarrow> (Inl ErrUnavailable, p, w)
      | Live c \<Rightarrow>
          if fresh_at (now w) c then (Inr (c_at c), p, w)
          else
            (case refresh (c_ep c) (c_rt c) w of
               (Inr tr, w') \<Rightarrow> (Inr (AccessToken tr), Live (renewed c tr (now w')), w')
             | (Inl e, w') \<Rightarrow>
                 if errors_Is e ErrReauthRequired then (Inl ErrReauthRequired, NeedLogin, w')
                 else if errors_Is e ErrTierDenied then (Inl ErrTierDenied, NotEntitled, w')
                 else if valid_at (now w') c then (Inr (c_at c), p, w')
                 else (Inl (Wrapped ErrUnavailable (PublicMessage (Some e))), p, w')))"

lemma refresh_err_kind:
  assumes "refresh_err e"
  shows "(case errors_As_Error e of Some pe \<Rightarrow> Kind pe | None \<Rightarrow> '''') = ''reauth'' \<longleftrightarrow> errors_Is e ErrReauthRequired"
    and "(case errors_As_Error e of Some pe \<Rightarrow> Kind pe | None \<Rightarrow> '''') = ''tier'' \<longleftrightarrow> errors_Is e ErrTierDenied"
  using assms by (auto simp: refresh_err_def Error_Unwrap_def)

lemma phase_of_Live:
  "state s = StateReady \<Longrightarrow>
     phase_of s = Live \<lparr>c_at = accessToken s, c_rt = refreshToken s, c_ep = tokenEndpoint s,
                       c_exp = (if hasExpiry s then Some (expiresAt s) else None)\<rparr>"
  by (simp add: phase_of_def)

lemma check_token_phase:
  "session_inv s \<Longrightarrow> check_token t s = Some r \<Longrightarrow> now w = t \<Longrightarrow> spec_get refresh now (phase_of s) w = (r, phase_of s, w)"
  by (cases "state s")
    (auto simp: check_token_def spec_get_def phase_of_def accessStillFreshLocked_def fresh_at_def split: if_splits)

lemma handleRefreshErr_phase:
  assumes "session_inv s" "state s = StateReady" "refresh_err e" "phase_of s = Live c" "handleRefreshErr e t s = (r, s')"
  shows "(r, phase_of s') =
    (if errors_Is e ErrReauthRequired then (Inl ErrReauthRequired, NeedLogin)
     else if errors_Is e ErrTierDenied then (Inl ErrTierDenied, NotEntitled)
     else if valid_at t c then (Inr (c_at c), Live c)
     else (Inl (Wrapped ErrUnavailable (PublicMessage (Some e))), Live c))"
  using assms refresh_err_kind [OF assms(3)] session_invD(1) [OF assms(1,2)]
  by (auto simp: handleRefreshErr_def Let_def phase_of_def terminate_def hardValidLocked_def valid_at_def
      split: if_splits)

context refresher
begin

lemma refreshIfNeeded_spec:
  assumes inv: "session_inv s" and run: "refreshIfNeeded refresh now s w = (r, s', w')"
  shows "(r, phase_of s', w') = spec_get refresh now (phase_of s) w \<and> session_inv s'"
proof (cases "check_token (now w) s")
  case (Some r0)
  with run check_token_phase [OF inv Some, of now w refresh] inv show ?thesis
    by (simp add: refreshIfNeeded_def)
next
  case None
  then have ready: "state s = StateReady" and stale: "\<not> accessStillFreshLocked (now w) s"
    by (auto simp: check_token_def split: option.splits if_splits)
  note live = session_invD(1) [OF inv ready]
  let ?c = "\<lparr>c_at = accessToken s, c_rt = refreshToken s, c_ep = tokenEndpoint s,
            c_exp = (if hasExpiry s then Some (expiresAt s) else None)\<rparr>"
  have ph: "phase_of s = Live ?c"
    by (rule phase_of_Live [OF ready])
  have "\<not> fresh_at (now w) ?c"
    using stale live by (simp add: accessStillFreshLocked_def fresh_at_def)
  note spec = spec_get_def [of refresh now "phase_of s" w, unfolded ph phase.case, unfolded if_not_P [OF this]]
  obtain x w1 where x: "refresh (tokenEndpoint s) (refreshToken s) w = (x, w1)"
    by (cases "refresh (tokenEndpoint s) (refreshToken s) w")
  show ?thesis
  proof (cases x)
    case (Inl e)
    obtain r1 s1 where h: "handleRefreshErr e (now w1) s = (r1, s1)"
      by (cases "handleRefreshErr e (now w1) s")
    have err: "refresh_err e"
      using refresh_error x Inl by blast
    have "r = r1" "s' = s1" "w' = w1"
      using run None live x Inl h by (simp_all add: refreshIfNeeded_def)
    then show ?thesis
      using handleRefreshErr_phase [OF inv ready err ph h] inv_handleRefreshErr [OF inv, of e "now w1"] x Inl h ph
      by (auto simp: spec_get_def \<open>\<not> fresh_at (now w) ?c\<close> split: if_splits)
  next
    case (Inr tr)
    have use: "usable tr"
      using refresh_ok x Inr by blast
    obtain exp ok where e: "ExpiresAtFromToken (AccessToken tr) (ExpiresIn tr) (now w1) = (exp, ok)"
      by (cases "ExpiresAtFromToken (AccessToken tr) (ExpiresIn tr) (now w1)")
    have "r = Inr (AccessToken tr)" "w' = w1"
      and s': "s' = snd (commit_refresh tr exp ok s)"
      using run None live x Inr e ready by (auto simp: refreshIfNeeded_def commit_refresh_def)
    moreover have "session_inv s'"
      unfolding s' by (rule inv_commit [OF inv use])
    ultimately show ?thesis
      using ready live x Inr e
      by (simp add: spec_get_def phase_of_def commit_refresh_def renewed_def
          \<open>\<not> fresh_at (now w) ?c\<close> [simplified])
  qed
qed

lemma GetAccessToken_spec:
  assumes "session_inv s" "GetAccessToken refresh now s w = (r, s', w')"
  shows "(r, phase_of s', w') = spec_get refresh now (phase_of s) w \<and> session_inv s'"
proof (cases "check_token (now w) s")
  case (Some r0)
  with assms check_token_phase [OF assms(1) Some, of now w refresh] show ?thesis
    by (simp add: GetAccessToken_def)
next
  case None
  with assms refreshIfNeeded_spec show ?thesis by (simp add: GetAccessToken_def)
qed

end

subsection \<open>Properties\<close>

text \<open>
  Property C5. \<open>GetAccessToken\<close> on \<open>protocol.Refresh\<close> implements the intended behaviour exactly, and
  keeps the invariant. A terminal state answers with its error and makes no call; a token that
  has more than five minutes left is served as it is; otherwise one refresh is made with the
  session's own refresh token, and its result decides: new credentials, a terminal state, or
  (transient failure) the old token while it is valid, with the credentials kept.
\<close>

theorem GetAccessToken_refines:
  assumes "session_inv s"
  shows "case GetAccessToken (Refresh env) (Now env) s w of
    (r, s', w') \<Rightarrow> (r, phase_of s', w') = spec_get (Refresh env) (Now env) (phase_of s) w \<and> session_inv s'"
proof -
  obtain r s' w' where g: "GetAccessToken (Refresh env) (Now env) s w = (r, s', w')"
    by (cases "GetAccessToken (Refresh env) (Now env) s w")
  with idp.GetAccessToken_spec [OF assms g] show ?thesis by simp
qed

definition demo_session :: Session where
  "demo_session = \<lparr>accessToken = ''at'', refreshToken = ''rt'', tokenEndpoint = DefaultTokenURL,
     expiresAt = 1000 * second, hasExpiry = True, state = StateReady, lastError = ''''\<rparr>"

lemma demo_session_inv: "session_inv demo_session"
  by (simp add: demo_session_def session_inv_def)

theorem GetAccessToken_refines_witness:
  "case GetAccessToken (Refresh (stub_env (\<lambda>_. Reply 403 NoLocation ''''))) (Now (stub_env (\<lambda>_. Reply 403 NoLocation '''')))
      demo_session (stub_world 0) of
    (r, s', w') \<Rightarrow> r = Inr ''at'' \<and> session_inv s'"
proof -
  let ?env = "stub_env (\<lambda>_. Reply 403 NoLocation '''')"
  have "fresh_at 0 \<lparr>c_at = ''at'', c_rt = ''rt'', c_ep = DefaultTokenURL, c_exp = Some (1000 * second)\<rparr>"
    by (simp add: fresh_at_def time_add_def RefreshSkew_def minute_def second_def max_sec_def)
  then have "spec_get (Refresh ?env) (Now ?env) (phase_of demo_session) (stub_world 0)
      = (Inr ''at'', phase_of demo_session, stub_world 0)"
    by (simp add: spec_get_def phase_of_def demo_session_def Now_def stub_world_def)
  with GetAccessToken_refines [OF demo_session_inv, of ?env "stub_world 0"] show ?thesis
    by (auto split: prod.splits)
qed

text \<open>
  What the provider's answer to a refresh says about the session: new tokens, an end, or nothing. \<open>rt\<close> is the
  refresh token of the request.
\<close>

datatype answer = Renews TokenResponse | Ends State | Fails

definition answer_of :: "string \<Rightarrow> outcome \<Rightarrow> answer" where
  "answer_of rt out =
     (case out of
        Got st body \<Rightarrow>
          (case json_unmarshal TokenResponse_fields body empty_TokenResponse of
             (t, bad) \<Rightarrow>
               if st = 403 then Ends StateTierDenied
               else if st \<noteq> 200 then (if ending (parseOAuthError body) then Ends StateReauthRequired else Fails)
               else if bad then Fails
               else if blank (AccessToken t) then Ends StateReauthRequired
               else Renews (t\<lparr>RefreshToken := if blank (RefreshToken t) then rt else RefreshToken t\<rparr>))
      | _ \<Rightarrow> Fails)"

lemma Refresh_answers:
  assumes "pinned_url ep" "\<not> blank rt" "exchange env POST (trim_space ep) (refresh_form rt) w = (out, w')"
  obtains (renews) tr ty where "answer_of rt out = Renews tr" "Refresh env ep rt w = (Inr (tr\<lparr>TokenType := ty\<rparr>), w')"
  | (reauth) pe where "answer_of rt out = Ends StateReauthRequired" "Refresh env ep rt w = (Inl (ProtoErr pe), w')" "Kind pe = ''reauth''"
  | (tier) pe where "answer_of rt out = Ends StateTierDenied" "Refresh env ep rt w = (Inl (ProtoErr pe), w')" "Kind pe = ''tier''"
  | (fails) pe where "answer_of rt out = Fails" "Refresh env ep rt w = (Inl (ProtoErr pe), w')" "Kind pe = ''transient''"
proof (cases out)
  case (Got st body)
  obtain t bad where t: "json_unmarshal TokenResponse_fields body empty_TokenResponse = (t, bad)"
    by (cases "json_unmarshal TokenResponse_fields body empty_TokenResponse")
  let ?tr = "t\<lparr>RefreshToken := if blank (RefreshToken t) then rt else RefreshToken t\<rparr>"
  have "default_token_type tr = tr\<lparr>TokenType := TokenType (default_token_type tr)\<rparr>" for tr
    by (simp add: default_token_type_def)
  note ty = this [of ?tr]
  have r: "Refresh env ep rt w = (read_refresh rt st body, w')"
    using Refresh_exchange [OF assms] Got by simp
  consider "st = 403" | "st \<noteq> 403" "st \<noteq> 200" "ending (parseOAuthError body)"
    | "st \<noteq> 403" "st \<noteq> 200" "\<not> ending (parseOAuthError body)" | "st = 200" bad
    | "st = 200" "\<not> bad" "blank (AccessToken t)" | "st = 200" "\<not> bad" "\<not> blank (AccessToken t)" by blast
  then show ?thesis
  proof cases
    case 1
    with r Got t show ?thesis by (intro tier [of tier_error]) (simp_all add: answer_of_def read_refresh_def tier_error_def)
  next
    case 2
    with r Got t show ?thesis
      by (intro reauth [of "wrapHTTP ''refresh_failed'' st ''reauth''"]) (simp_all add: answer_of_def read_refresh_def ending_def)
  next
    case 3
    with r Got t show ?thesis
      by (intro fails [of "wrapHTTP ''refresh_failed'' st ''transient''"]) (simp_all add: answer_of_def read_refresh_def ending_def)
  next
    case 4
    with r Got t show ?thesis
      by (intro fails [of "newError ''refresh_failed'' (Phrase ''invalid refresh JSON'') ''transient''"])
        (simp_all add: answer_of_def read_refresh_def proto_err_def)
  next
    case 5
    with r Got t show ?thesis
      by (intro reauth [of "newError ''missing_access'' (Phrase ''refresh response missing access_token'') ''reauth''"])
        (simp_all add: answer_of_def read_refresh_def proto_err_def)
  next
    case 6
    have "read_refresh rt st body = Inr (default_token_type ?tr)" using 6 t by (simp add: read_refresh_def)
    with r ty have "Refresh env ep rt w = (Inr (?tr\<lparr>TokenType := TokenType (default_token_type ?tr)\<rparr>), w')" by simp
    moreover have "answer_of rt out = Renews ?tr" using 6 Got t by (simp add: answer_of_def)
    ultimately show ?thesis by (rule renews [rotated])
  qed
qed (use Refresh_exchange [OF assms] in \<open>auto simp: answer_of_def proto_err_def intro: fails\<close>)

text \<open>
  Property C12. Only the provider ends a session. When \<open>GetAccessToken\<close> has to refresh, its answer decides: new
  tokens replace the old ones; 403 and the OAuth errors \<open>invalid_grant\<close> and \<open>invalid_client\<close>, or a 200 without an
  access token, end the session and wipe it; anything else (no connection, a redirect that was refused, a
  server error, JSON that does not parse) changes nothing but \<open>last_error\<close>, and the old token is still served
  until it expires.
\<close>

theorem GetAccessToken_keeps_credentials:
  assumes "session_inv s" "state s = StateReady" "\<not> blank (refreshToken s)" "\<not> accessStillFreshLocked (Now env w) s"
    and "exchange env POST (trim_space (tokenEndpoint s)) (refresh_form (refreshToken s)) w = (out, w')"
  shows "case GetAccessToken (Refresh env) (Now env) s w of
    (r, s', w1) \<Rightarrow> w1 = w' \<and>
      (case answer_of (refreshToken s) out of
         Renews tr \<Rightarrow> r = Inr (AccessToken tr) \<and> state s' = StateReady \<and> tokenEndpoint s' = tokenEndpoint s
           \<and> accessToken s' = AccessToken tr \<and> refreshToken s' = RefreshToken tr \<and> lastError s' = ''''
       | Ends st \<Rightarrow> state s' = st \<and> accessToken s' = '''' \<and> refreshToken s' = '''' \<and> map_option Inl (state_error st) = Some r
       | Fails \<Rightarrow> \<exists>m. s' = s\<lparr>lastError := m\<rparr>
           \<and> r = (if hardValidLocked (Now env w') s then Inr (accessToken s) else Inl (Wrapped ErrUnavailable m)))"
proof -
  note live = session_invD(1) [OF assms(1,2)]
  have "check_token (Now env w) s = None" using assms(2,4) by (simp add: check_token_def)
  then have g: "GetAccessToken (Refresh env) (Now env) s w =
      (case Refresh env (tokenEndpoint s) (refreshToken s) w of
         (Inl err, w') \<Rightarrow> (let (r, s') = handleRefreshErr err (Now env w') s in (r, s', w'))
       | (Inr tr, w') \<Rightarrow>
           (let (exp, ok) = ExpiresAtFromToken (AccessToken tr) (ExpiresIn tr) (Now env w'); (r, s') = commit_refresh tr exp ok s
            in (r, s', w')))"
    using live by (simp add: GetAccessToken_def refreshIfNeeded_def)
  have ep: "pinned_url (tokenEndpoint s)" using live by blast
  from ep assms(3,5) show ?thesis
  proof (cases rule: Refresh_answers)
    case (renews tr ty)
    then show ?thesis using assms(2) live by (simp add: g commit_refresh_def split: prod.split)
  next
    case (fails pe)
    then show ?thesis by (auto simp: g handleRefreshErr_def Let_def hardValidLocked_def Error_Unwrap_def)
  qed (simp_all add: g handleRefreshErr_def terminate_def Let_def)
qed

theorem GetAccessToken_keeps_credentials_witness:
  "\<exists>m w'. GetAccessToken (Refresh (stub_env (\<lambda>_. TransportError))) (Now (stub_env (\<lambda>_. TransportError)))
      demo_session (stub_world 800000000000) = (Inr ''at'', demo_session\<lparr>lastError := m\<rparr>, w')"
proof -
  let ?env = "stub_env (\<lambda>_. TransportError)" and ?w = "stub_world 800000000000"
  obtain out w' where x: "exchange ?env POST (trim_space (tokenEndpoint demo_session)) (refresh_form (refreshToken demo_session)) ?w = (out, w')"
    by (cases "exchange ?env POST (trim_space (tokenEndpoint demo_session)) (refresh_form (refreshToken demo_session)) ?w")
  then have "out = BuildFailed \<and> w' = ?w \<or> out = DoFailed \<and> net w' = net ?w"
    by (auto simp: exchange_def client_Do_def do_hops.simps send_def split: option.splits)
  then have o: "answer_of (refreshToken demo_session) out = Fails" "Now ?env w' = 800 * second"
    by (auto simp: answer_of_def Now_def stub_world_def second_def)
  have s: "state demo_session = StateReady" "\<not> blank (refreshToken demo_session)"
    "\<not> accessStillFreshLocked (Now ?env ?w) demo_session" "hardValidLocked (800 * second) demo_session" "accessToken demo_session = ''at''"
    by (simp_all add: demo_session_def string_eval accessStillFreshLocked_def hardValidLocked_def time_add_def RefreshSkew_def
        minute_def second_def max_sec_def Now_def stub_world_def)
  from GetAccessToken_keeps_credentials [OF demo_session_inv s(1-3) x] o s(4,5) show ?thesis
    by (auto split: prod.splits)
qed

text \<open>
  A handoff moves the credentials as a whole: the snapshot holds exactly what the
  session held, the session keeps nothing of it, restoring the snapshot gives the session back
  (with its error cleared), and a logout in between cannot be undone by the restore.
\<close>

theorem Handoff_moves_credentials:
  "case Handoff s of
     (Inl st, s') \<Rightarrow> st = state s \<and> st \<noteq> StateReady \<and> s' = s
   | (Inr d, s') \<Rightarrow>
       state s = StateReady
       \<and> (hd_AccessToken d, hd_RefreshToken d, hd_TokenEndpoint d, hd_ExpiresAt d, hd_HasExpiry d)
           = (accessToken s, refreshToken s, tokenEndpoint s, expiresAt s, hasExpiry s)
       \<and> (accessToken s', refreshToken s', tokenEndpoint s', state s') = ('''', '''', '''', StateHandedOff)
       \<and> RestoreHandoff (Some d) s' = s\<lparr>lastError := ''''\<rparr>
       \<and> RestoreHandoff (Some d) (Clear s') = Clear s'"
  by (auto simp: Handoff_def RestoreHandoff_def Clear_def wipe_def)

text \<open>
  Status and readiness reveal nothing about the tokens: sessions that differ only in
  their tokens and endpoint (both having an access token, or neither) give the same answers.
\<close>

theorem Status_hides_tokens:
  assumes "a = '''' \<longleftrightarrow> accessToken s = ''''"
  shows "get_Status t (s\<lparr>accessToken := a, refreshToken := r, tokenEndpoint := e\<rparr>) = get_Status t s
    \<and> Ready t (s\<lparr>accessToken := a, refreshToken := r, tokenEndpoint := e\<rparr>) = Ready t s"
  using assms by (simp add: get_Status_def Ready_def hardValidLocked_def)

theorem Status_hides_tokens_witness:
  "get_Status 0 (demo_session\<lparr>accessToken := ''other'', refreshToken := ''x'', tokenEndpoint := ''''\<rparr>) = get_Status 0 demo_session"
  using Status_hides_tokens [where a = "''other''" and s = demo_session and t = 0 and r = "''x''" and e = "''''"]
  by (simp add: demo_session_def)

text \<open>The texts \<open>last_error\<close> can hold.\<close>

definition public_error :: "string \<Rightarrow> bool" where
  "public_error m \<longleftrightarrow>
     m \<in> {'''', ''missing_refresh'', ''logged_out'', ''handed_off''}
     \<or> (\<exists>c \<in> refresh_codes. \<exists>n. m \<in> {c, with_status c n})"

context refresher
begin

lemma public_GetAccessToken:
  assumes "public_error (lastError s)" "GetAccessToken refresh now s w = (r, s', w')"
  shows "public_error (lastError s')"
proof -
  have err: "public_error (lastError (snd (handleRefreshErr e t s)))"
    if "refresh ep rt w0 = (Inl e, w1)" for ep rt w0 e w1 t
    using public_message [OF that] by (auto simp: public_error_def handleRefreshErr_def Let_def terminate_def)
  have ok: "public_error (lastError (snd (commit_refresh tr exp ok s)))" for tr exp ok
    using assms(1) by (auto simp: public_error_def commit_refresh_def no_refresh_token_def split: option.splits)
  have miss: "public_error (lastError (no_refresh_token ''missing_refresh'' s))"
    by (simp add: public_error_def no_refresh_token_def)
  obtain x w1 where x: "refresh (tokenEndpoint s) (refreshToken s) w = (x, w1)"
    by (cases "refresh (tokenEndpoint s) (refreshToken s) w")
  have "s' = s \<or> s' = no_refresh_token ''missing_refresh'' s
      \<or> (\<exists>e t. x = Inl e \<and> s' = snd (handleRefreshErr e t s)) \<or> (\<exists>tr exp ok. s' = snd (commit_refresh tr exp ok s))"
    using assms(2) x
    by (cases x; cases "check_token (now w) s"; cases "refreshToken s = ''''")
      (auto simp: GetAccessToken_def refreshIfNeeded_def Let_def split: prod.splits; metis snd_conv)+
  then show ?thesis using assms(1) err ok miss x by auto
qed

end

text \<open>
  \<open>last_error\<close> stays within a fixed vocabulary: whatever the provider answers, after
  \<open>GetAccessToken\<close> it is empty, one of three fixed words, or one of six codes with at most an HTTP
  status; never text from the wire.
\<close>

theorem GetAccessToken_public_error:
  assumes "public_error (lastError s)"
  shows "public_error (lastError (fst (snd (GetAccessToken (Refresh env) (Now env) s w))))"
  using idp.public_GetAccessToken [OF assms] by (cases "GetAccessToken (Refresh env) (Now env) s w") auto

theorem GetAccessToken_public_error_witness:
  "public_error (lastError (fst (snd (GetAccessToken (Refresh (stub_env (\<lambda>_. Reply 500 NoLocation ''secret'')))
     (Now (stub_env (\<lambda>_. Reply 500 NoLocation ''secret''))) demo_session (stub_world 5)))))"
  using GetAccessToken_public_error [of demo_session "stub_env (\<lambda>_. Reply 500 NoLocation ''secret'')" "stub_world 5"]
  by (simp add: public_error_def demo_session_def)

end
