(* ===== verification/Go_JSON_Types.thy ===== *)
theory Go_JSON_Types
  imports Go_JSON
begin

text \<open>
  What the JSON decoder can return at all. Whatever bytes it reads, its values are well formed:
  every string, object keys included, is valid UTF-8 (invalid bytes and lone surrogates have been
  replaced), every number obeys the grammar, and nothing is nested deeper than the limit. So a
  decoded value can be printed and read again without loss, and a struct filled from a document holds
  valid UTF-8 wherever it did before.
\<close>

subsection \<open>Runes in front of other bytes\<close>

text \<open>A rune that was decoded in one place is decoded in front of any bytes.\<close>

lemma runes_good_append:
  "(r, bs) \<in> set (runes s) \<Longrightarrow> \<not> bad_rune (r, bs) \<Longrightarrow> runes (bs @ rest) = (r, bs) # runes rest"
proof (induction s rule: runes.induct)
  case (2 c cs)
  obtain r' w where d: "decode_rune (c # cs) = (r', w)" by (cases "decode_rune (c # cs)")
  from 2(2) consider "(r, bs) = (r', c # take (w - 1) cs)" | "(r, bs) \<in> set (runes (drop (w - 1) cs))"
    by (auto simp: runes.simps(2) d)
  then show ?case
  proof cases
    case 1
    have len: "length (take (w - 1) cs) = w - 1"
      using decode_rune_chunk [OF d] by (auto simp: min_def)
    have w: "w \<noteq> 0" using d by (auto simp: decode_rune.simps(2) Let_def split: list.splits if_splits)
    then have "\<not> (r' = rune_error \<and> w = 1)" using 1 2(3) len by (auto simp: bad_rune_def)
    from decode_rune_local [OF d this, of rest] len 1 show ?thesis
      by (simp add: runes.simps(2))
  next
    case 2
    with "2.IH" [OF d [symmetric] refl] "2.prems"(2) show ?thesis by simp
  qed
qed simp

lemma error_rune_decode: "runes (encode_rune rune_error @ rest) = (rune_error, encode_rune rune_error) # runes rest"
  by (simp add: encode_rune_def rune_error_def rune_eval Let_def)

text \<open>Replacing the invalid bytes gives valid UTF-8.\<close>

lemma utf8_ok_to_valid [simp]: "utf8_ok (to_valid_utf8 s)"
proof -
  let ?f = "\<lambda>p. if bad_rune p then encode_rune rune_error else snd p"
  have "utf8_ok (concat (map ?f ps))" if "set ps \<subseteq> set (runes s)" for ps
    using that
  proof (induction ps)
    case Nil
    show ?case by (simp add: utf8_ok_def)
  next
    case (Cons p ps)
    obtain r bs where p: "p = (r, bs)" by (cases p)
    have "\<not> bad_rune (rune_error, encode_rune rune_error)"
      by (simp add: bad_rune_def encode_rune_def rune_error_def)
    with Cons p show ?case
      using runes_good_append [of r bs s "concat (map ?f ps)"] error_rune_decode [of "concat (map ?f ps)"]
      by (auto simp: utf8_ok_def)
  qed
  from this [of "runes s"] show ?thesis by (simp add: to_valid_utf8_def)
qed

lemma utf8_ok_Nil [simp]: "utf8_ok ''''"
  by (simp add: utf8_ok_def)

subsection \<open>Tokens and stacks\<close>

fun tok_ok :: "jtok \<Rightarrow> bool" where
  "tok_ok (TStr s) = utf8_ok s"
| "tok_ok (TAtom j) = (json_ok j \<and> json_depth j = 0)"
| "tok_ok _ = True"

lemma json_word_ok: "json_word s = Some j \<Longrightarrow> json_ok j \<and> json_depth j = 0"
  by (auto simp: json_word_def split: if_splits)

lemma lfinish_ok: "lfinish st = Some ts \<Longrightarrow> list_all tok_ok ts"
  by (cases st) (auto dest: json_word_ok split: if_splits)

lemma lstart_ok: "lstart c = Some (st, ts) \<Longrightarrow> list_all tok_ok ts"
  by (auto simp: lstart_def split: if_splits)

lemma then_start_ok: "then_start ts c = Some (st, us) \<Longrightarrow> (\<And>t. ts = Some t \<Longrightarrow> list_all tok_ok t) \<Longrightarrow> list_all tok_ok us"
  by (auto simp: then_start_def dest: lstart_ok split: option.splits)

lemma then_finish_ok: "then_start (lfinish st) c = Some (st', us) \<Longrightarrow> list_all tok_ok us"
  by (erule then_start_ok) (rule lfinish_ok)

lemma lstep_ok: "lstep st c = Some (st', ts) \<Longrightarrow> list_all tok_ok ts"
  by (cases "(st, c)" rule: lstep.cases)
    (auto simp del: lfinish.simps dest: then_finish_ok lstart_ok split: if_splits)

lemma lex_ok: "lex st cs = Some ts \<Longrightarrow> list_all tok_ok ts"
  by (induction st cs arbitrary: ts rule: lex.induct) (auto dest: lfinish_ok lstep_ok split: option.splits)

text \<open>A value may stand on a stack if what is open around it leaves room for its depth.\<close>

definition fits :: "nat \<Rightarrow> json \<Rightarrow> bool" where
  "fits n j \<longleftrightarrow> json_ok j \<and> json_depth j + n \<le> max_depth"

fun frame_ok :: "nat \<Rightarrow> frame \<Rightarrow> bool" where
  "frame_ok n (FArr xs) = list_all (fits n) xs"
| "frame_ok n (FObj kvs) = list_all (\<lambda>kv. utf8_ok (fst kv) \<and> fits n (snd kv)) kvs"
| "frame_ok n (FKey kvs k) = (utf8_ok k \<and> list_all (\<lambda>kv. utf8_ok (fst kv) \<and> fits n (snd kv)) kvs)"

fun stack_ok :: "frame list \<Rightarrow> bool" where
  "stack_ok [] = True"
| "stack_ok (f # st) = (length (f # st) \<le> max_depth \<and> frame_ok (length (f # st)) f \<and> stack_ok st)"

fun pstate_ok :: "pstate \<Rightarrow> bool" where
  "pstate_ok (P m st) = stack_ok st"
| "pstate_ok (PDone v) = fits 0 v"

lemma accept_ok: "accept v st = Some p \<Longrightarrow> stack_ok st \<Longrightarrow> fits (length st) v \<Longrightarrow> pstate_ok p"
  by (induction v st rule: accept.induct) auto

lemma depth_bound: "(\<And>x. x \<in> set xs \<Longrightarrow> f x + Suc n \<le> m) \<Longrightarrow> Suc n \<le> m \<Longrightarrow> Suc (foldr max (map f xs) 0) + n \<le> (m :: nat)"
  using foldr_max_le [of f xs "m - Suc n"] by (auto simp: le_diff_conv2)

lemma fits_closed:
  "stack_ok (FArr xs # st) \<Longrightarrow> fits (length st) (JArr (rev xs))"
  "stack_ok (FObj kvs # st) \<Longrightarrow> fits (length st) (JObj (rev kvs))"
  using depth_bound [of "rev xs" json_depth "length st" max_depth]
    depth_bound [of "rev kvs" "\<lambda>kv. json_depth (snd kv)" "length st" max_depth]
  by (auto simp: fits_def list_all_iff)

lemma stack_ok_length: "stack_ok st \<Longrightarrow> length st \<le> max_depth"
  by (cases st) auto

lemma pvalue_ok: "pvalue t st = Some p \<Longrightarrow> stack_ok st \<Longrightarrow> tok_ok t \<Longrightarrow> pstate_ok p"
  using stack_ok_length [of st]
  by (cases t) (auto simp: open_frame_def fits_def intro: accept_ok split: if_splits)

lemma closed_ok:
  "accept (JArr (rev xs)) st = Some p \<Longrightarrow> stack_ok (FArr xs # st) \<Longrightarrow> pstate_ok p"
  "accept (JObj (rev kvs)) st = Some p \<Longrightarrow> stack_ok (FObj kvs # st) \<Longrightarrow> pstate_ok p"
  using accept_ok fits_closed by auto

lemma key_ok: "stack_ok (FObj kvs # st) \<Longrightarrow> utf8_ok k \<Longrightarrow> stack_ok (FKey kvs k # st)"
  by simp

lemma pstep_ok: "pstep p t = Some p' \<Longrightarrow> pstate_ok p \<Longrightarrow> tok_ok t \<Longrightarrow> pstate_ok p'"
  by (cases "(p, t)" rule: pstep.cases)
    (auto simp del: pvalue.simps stack_ok.simps(2) dest: pvalue_ok closed_ok key_ok)

lemma prun_ok: "prun p ts = Some p' \<Longrightarrow> pstate_ok p \<Longrightarrow> list_all tok_ok ts \<Longrightarrow> pstate_ok p'"
  by (induction ts arbitrary: p) (auto dest: pstep_ok split: option.splits)

lemma prun_first_ok: "prun_first p ts = Some p' \<Longrightarrow> pstate_ok p \<Longrightarrow> list_all tok_ok ts \<Longrightarrow> pstate_ok p'"
  by (induction p ts rule: prun_first.induct) (auto dest: pstep_ok split: option.splits)

subsection \<open>Decoded values\<close>

lemma json_parse_fits: "json_parse s = Some v \<Longrightarrow> fits 0 v"
  by (auto simp: json_parse_def dest!: lex_ok prun_ok split: option.splits pstate.splits)

lemma scan_value_fits: "scan_value st p cs = Some v \<Longrightarrow> pstate_ok p \<Longrightarrow> fits 0 v"
proof (induction st p cs rule: scan_value.induct)
  case (1 st p)
  then show ?case
    by (auto dest!: lfinish_ok prun_first_ok split: option.splits pstate.splits)
next
  case (2 st p c cs)
  obtain st' ts where step: "lstep st c = Some (st', ts)"
    using "2.prems"(1) by (auto split: option.splits)
  then obtain q where q: "prun_first p ts = Some q"
    using "2.prems"(1) by (auto split: option.splits)
  from prun_first_ok [OF q "2.prems"(2) lstep_ok [OF step]] have "pstate_ok q" .
  then show ?case
    using 2 step q by (cases q) auto
qed

lemma json_first_fits: "json_first s = Some v \<Longrightarrow> fits 0 v"
  unfolding json_first_def by (erule scan_value_fits) simp

text \<open>
  Whatever bytes the JSON decoder reads, its result is well typed: all strings and
  keys are valid UTF-8, all numbers obey the grammar, the nesting is within the limit; and it is a
  normal form: printed and decoded again it is itself.
\<close>

theorem json_decoded:
  assumes "json_parse s = Some v"
  shows "json_ok v \<and> json_depth v \<le> max_depth \<and> json_parse (json_print v) = Some v"
  using json_parse_fits [OF assms] by (simp add: fits_def json_parse_print)

theorem json_decoded_witness:
  "json_parse (json_print (JStr (encode_rune rune_error @ ''a''))) = Some (JStr (encode_rune rune_error @ ''a''))"
proof -
  have "json_parse [CHR 0x22, CHR 0xFF, CHR 0x5C, CHR ''u'', CHR ''0'', CHR ''0'', CHR ''6'', CHR ''1'', CHR 0x22]
      = Some (JStr (encode_rune rune_error @ ''a''))"
    by (simp add: json_parse_def lstart_def json_ws_def is_hex_def unhex_def to_valid_utf8_def bad_rune_def
        encode_rune_def rune_error_def rune_eval Let_def is_digit_def word_char_def)
  from json_decoded [OF this] show ?thesis by blast
qed

subsection \<open>Structs filled from a document\<close>

text \<open>A property of a struct is kept by decoding if every field keeps it.\<close>

definition keeps :: "'s field list \<Rightarrow> ('s \<Rightarrow> bool) \<Rightarrow> bool" where
  "keeps fs Q \<longleftrightarrow> (\<forall>f \<in> set fs. \<forall>j s s'. json_ok j \<longrightarrow> Q s \<longrightarrow> snd f j s = Some s' \<longrightarrow> Q s')"

lemma keeps_Nil: "keeps [] Q"
  by (simp add: keeps_def)

lemma keeps_str: "keeps fs Q \<Longrightarrow> (\<And>v s. utf8_ok v \<Longrightarrow> Q s \<Longrightarrow> Q (upd v s)) \<Longrightarrow> keeps (str_field name upd # fs) Q"
  by (auto simp: keeps_def str_field_def split: json.splits)

lemma keeps_int: "keeps fs Q \<Longrightarrow> (\<And>n s. in_i64 n \<Longrightarrow> Q s \<Longrightarrow> Q (upd n s)) \<Longrightarrow> keeps (int_field name upd # fs) Q"
  by (auto simp: keeps_def int_field_def parse_int64_def Let_def split: json.splits if_splits)

lemma keeps_bool: "keeps fs Q \<Longrightarrow> (\<And>n s. Q s \<Longrightarrow> Q (upd n s)) \<Longrightarrow> keeps (bool_field name upd # fs) Q"
  by (auto simp: keeps_def bool_field_def split: json.splits)

lemmas keeps_intros = keeps_Nil keeps_str keeps_int keeps_bool

lemma find_field_in: "find_field fs k = Some f \<Longrightarrow> f \<in> set fs"
  by (auto simp: find_field_def find_Some_iff split: option.splits)

lemma store_field_keeps:
  "keeps fs Q \<Longrightarrow> json_ok (snd kv) \<Longrightarrow> Q (fst sb) \<Longrightarrow> Q (fst (store_field fs kv sb))"
  by (auto simp: store_field_def keeps_def split: option.splits prod.splits dest!: find_field_in)

lemma store_json_keeps:
  assumes "keeps fs Q" "Q s" "\<And>j. v = Some j \<Longrightarrow> fits 0 j"
  shows "Q (fst (store_json fs v s))"
proof -
  have "Q (fst (fold (store_field fs) kvs sb))" if "list_all (\<lambda>kv. json_ok (snd kv)) kvs" "Q (fst sb)" for kvs sb
    using that by (induction kvs arbitrary: sb) (simp_all add: store_field_keeps [OF assms(1)])
  with assms(2,3) show ?thesis
    by (auto simp: store_json_def fits_def list_all_iff split: option.splits json.splits)
qed

lemma json_unmarshal_keeps: "keeps fs Q \<Longrightarrow> Q s \<Longrightarrow> Q (fst (json_unmarshal fs body s))"
  unfolding json_unmarshal_def by (rule store_json_keeps) (simp_all add: json_parse_fits)

lemma json_decode_keeps: "keeps fs Q \<Longrightarrow> Q s \<Longrightarrow> Q (fst (json_decode fs body s))"
  unfolding json_decode_def by (rule store_json_keeps) (simp_all add: json_first_fits)

end
