(* ===== verification/Typed.thy ===== *)
theory Typed
  imports Session Go_JSON_Types
begin

text \<open>
  The types of the data the program passes on: tokens and endpoints are valid UTF-8, tokens are not
  blank, numbers fit into 64 bits. The wire formats of the handoff and of the local API are lossless
  exactly for such data. Everything that comes from the identity provider is typed because the JSON
  decoder returns nothing else (theory \<open>Go_JSON_Types\<close>), and every operation of the session
  keeps the type.
\<close>

subsection \<open>Responses of the identity provider\<close>

definition typed_tokens :: "TokenResponse \<Rightarrow> bool" where
  "typed_tokens tr \<longleftrightarrow>
     utf8_ok (AccessToken tr) \<and> utf8_ok (RefreshToken tr) \<and> utf8_ok (IDToken tr) \<and> utf8_ok (TokenType tr)
     \<and> in_i64 (ExpiresIn tr)"

lemma TokenResponse_keeps: "keeps TokenResponse_fields typed_tokens"
  unfolding TokenResponse_fields_def by (intro keeps_intros) (simp_all add: typed_tokens_def)

lemma typed_empty_tokens: "typed_tokens empty_TokenResponse"
  by (simp add: typed_tokens_def empty_TokenResponse_def in_i64_def)

lemma unmarshal_tokens_typed:
  "json_unmarshal TokenResponse_fields body empty_TokenResponse = (tr, bad) \<Longrightarrow> typed_tokens tr"
  using json_unmarshal_keeps [OF TokenResponse_keeps typed_empty_tokens, of body] by simp

lemma typed_default_type [simp]: "typed_tokens (default_token_type tr) \<longleftrightarrow> typed_tokens tr"
proof -
  have "utf8_ok ''Bearer''" by (rule utf8_ok_ascii) (simp add: is_ascii_def byte_def)
  then show ?thesis by (auto simp: default_token_type_def typed_tokens_def)
qed

lemma read_refresh_typed: "read_refresh rt st body = Inr tr \<Longrightarrow> utf8_ok rt \<Longrightarrow> typed_tokens tr"
  by (auto simp: read_refresh_def Let_def dest!: unmarshal_tokens_typed split: prod.splits if_splits)
    (auto simp: typed_tokens_def)

lemma Refresh_typed: "Refresh env ep rt w = (Inr tr, w') \<Longrightarrow> utf8_ok rt \<Longrightarrow> typed_tokens tr"
  by (auto simp: Refresh_def dest: read_refresh_typed
      split: prod.splits sum.splits option.splits outcome.splits if_splits)

lemma read_poll_typed: "read_poll st body = PollDone (Inr tr) \<Longrightarrow> typed_tokens tr"
  by (auto simp: read_poll_def read_device_token_def Let_def dest!: unmarshal_tokens_typed split: prod.splits if_splits)

lemma poll_loop_typed: "poll_loop n env ep dev deadline ivl w = Some (Inr tr, w') \<Longrightarrow> typed_tokens tr"
proof (induction n arbitrary: ivl w)
  case (Suc n)
  then show ?case
    by (auto simp: Let_def read_poll_typed split: if_splits option.splits outcome.splits poll_reply.splits prod.splits)
qed simp

lemma PollDeviceToken_typed: "PollDeviceToken fuel env ep dev e i w = Some (Inr tr, w') \<Longrightarrow> typed_tokens tr"
  by (auto simp: PollDeviceToken_def dest: poll_loop_typed split: option.splits)

definition typed_discovery :: "Discovery \<Rightarrow> bool" where
  "typed_discovery d \<longleftrightarrow> utf8_ok (TokenEndpoint d) \<and> utf8_ok (AuthorizationEndpoint d)"

lemma Discover_typed: "Discover env w = (Inr d, w') \<Longrightarrow> typed_discovery d"
proof -
  have "keeps Discovery_fields typed_discovery"
    unfolding Discovery_fields_def by (intro keeps_intros) (simp_all add: typed_discovery_def)
  from json_unmarshal_keeps [OF this, of empty_Discovery]
  have "typed_discovery d" if "json_unmarshal Discovery_fields body empty_Discovery = (d, bad)" for body d bad
    using that by (metis fst_conv typed_discovery_def empty_Discovery_def Discovery.simps(1,2) utf8_ok_Nil)
  then show "Discover env w = (Inr d, w') \<Longrightarrow> typed_discovery d"
    by (auto simp: Discover_def ok_iff split: prod.splits outcome.splits if_splits)
qed

text \<open>
  What a successful login returns is typed, whatever the servers sent: tokens, token type and
  endpoints are valid UTF-8, the tokens are not blank, and the lifetime is a 64-bit integer.
\<close>

definition typed_login :: "LoginResult \<Rightarrow> bool" where
  "typed_login lr \<longleftrightarrow> typed_tokens (Tokens lr) \<and> usable (Tokens lr) \<and> typed_discovery (lr_Discovery lr)"

theorem DeviceLogin_typed:
  assumes "DeviceLogin fuel env openBrowser w = Some (Inr lr, printed, w')"
  shows "typed_login lr"
  using assms
proof (cases rule: DeviceLogin_cases)
  case (3 disc w1 dc w2 opened w3 x)
  from 3(5) obtain tr where x: "x = Inr tr" "lr = \<lparr>Tokens = tr, lr_Discovery = disc\<rparr>" by (cases x) auto
  with 3(4) PollDeviceToken_typed PollDeviceToken_ok Discover_typed [OF 3(1)] show ?thesis
    unfolding typed_login_def by fastforce
qed auto

subsection \<open>Sessions\<close>

definition typed_session :: "Session \<Rightarrow> bool" where
  "typed_session s \<longleftrightarrow>
     utf8_ok (accessToken s) \<and> utf8_ok (refreshToken s) \<and> utf8_ok (tokenEndpoint s)
     \<and> (if state s = StateReady then \<not> blank (accessToken s) \<and> \<not> blank (refreshToken s) else True)"

lemma typed_NewFromLogin: "NewFromLogin (Some lr) t = Inr s \<Longrightarrow> typed_login lr \<Longrightarrow> typed_session s"
  by (auto simp: NewFromLogin_Inr typed_login_def typed_tokens_def typed_discovery_def typed_session_def usable_def)

lemma demo_session_typed: "typed_session demo_session"
proof -
  have "list_all is_ascii (tokenEndpoint demo_session)" "list_all is_ascii ''at''" "list_all is_ascii ''rt''"
    by (simp_all add: demo_session_def DefaultTokenURL_def Issuer_def is_ascii_def byte_def)
  then show ?thesis
    by (simp add: typed_session_def utf8_ok_ascii) (simp add: demo_session_def utf8_ok_ascii string_eval)
qed

definition typed_handoff :: "HandoffData \<Rightarrow> bool" where
  "typed_handoff d \<longleftrightarrow>
     utf8_ok (hd_AccessToken d) \<and> utf8_ok (hd_RefreshToken d) \<and> utf8_ok (hd_TokenEndpoint d)
     \<and> \<not> blank (hd_AccessToken d) \<and> \<not> blank (hd_RefreshToken d)"

named_theorems typed_intro

lemma typed_Handoff [typed_intro]: "typed_session s \<Longrightarrow> typed_session (snd (Handoff s))"
  by (simp add: Handoff_def wipe_def typed_session_def)

lemma typed_Handoff_data: "typed_session s \<Longrightarrow> fst (Handoff s) = Inr d \<Longrightarrow> typed_handoff d"
  by (auto simp: Handoff_def typed_session_def typed_handoff_def split: if_splits)

lemma typed_Clear [typed_intro]: "typed_session (Clear s)"
  by (simp add: Clear_def wipe_def typed_session_def)

lemma typed_RestoreHandoff [typed_intro]:
  "typed_session s \<Longrightarrow> (\<And>d. od = Some d \<Longrightarrow> typed_handoff d) \<Longrightarrow> typed_session (RestoreHandoff od s)"
  by (cases od) (auto simp: RestoreHandoff_def typed_session_def typed_handoff_def)

lemma typed_commit [typed_intro]:
  "typed_session s \<Longrightarrow> usable tr \<Longrightarrow> typed_tokens tr \<Longrightarrow> typed_session (snd (commit_refresh tr exp ok s))"
  by (auto simp: commit_refresh_def typed_session_def typed_tokens_def usable_def no_refresh_token_def split: option.splits)

lemma typed_no_refresh_token [typed_intro]: "typed_session s \<Longrightarrow> typed_session (no_refresh_token err s)"
  by (simp add: no_refresh_token_def typed_session_def)

lemma typed_handleRefreshErr [typed_intro]: "typed_session s \<Longrightarrow> typed_session (snd (handleRefreshErr err t s))"
  by (auto simp: handleRefreshErr_def Let_def terminate_def typed_session_def)

text \<open>A token that is given out.\<close>

definition typed_result :: "go_err + string \<Rightarrow> bool" where
  "typed_result r \<longleftrightarrow> (case r of Inl e \<Rightarrow> True | Inr tok \<Rightarrow> utf8_ok tok \<and> \<not> blank tok)"

lemma check_token_typed: "typed_session s \<Longrightarrow> check_token t s = Some r \<Longrightarrow> typed_result r"
  by (auto simp: check_token_def typed_session_def typed_result_def split: option.splits if_splits)

lemma handleRefreshErr_typed: "typed_session s \<Longrightarrow> state s = StateReady \<Longrightarrow> typed_result (fst (handleRefreshErr err t s))"
  by (auto simp: handleRefreshErr_def Let_def typed_session_def typed_result_def)

lemma commit_refresh_typed: "usable tr \<Longrightarrow> typed_tokens tr \<Longrightarrow> typed_result (fst (commit_refresh tr exp ok s))"
  by (auto simp: commit_refresh_def typed_result_def typed_tokens_def usable_def split: option.splits)

text \<open>A refresher whose tokens are typed if the refresh token it was given is.\<close>

locale typed_refresher = refresher +
  assumes refresh_typed: "refresh ep rt w = (Inr tr, w') \<Longrightarrow> utf8_ok rt \<Longrightarrow> typed_tokens tr"
begin

lemma refreshIfNeeded_typed:
  assumes "typed_session s" "refreshIfNeeded refresh now s w = (r, s', w')"
  shows "typed_session s' \<and> typed_result r"
proof (cases "check_token (now w) s")
  case (Some r0)
  with assms check_token_typed [OF assms(1) Some] show ?thesis by (simp add: refreshIfNeeded_def)
next
  case None
  then have ready: "state s = StateReady" by (auto simp: check_token_def split: option.splits)
  show ?thesis
  proof (cases "refreshToken s = ''''")
    case True
    with assms None typed_no_refresh_token show ?thesis by (auto simp: refreshIfNeeded_def typed_result_def)
  next
    case False
    obtain x w1 where x: "refresh (tokenEndpoint s) (refreshToken s) w = (x, w1)"
      by (cases "refresh (tokenEndpoint s) (refreshToken s) w")
    show ?thesis
    proof (cases x)
      case (Inl e)
      with assms None False x typed_handleRefreshErr [OF assms(1), of e "now w1"] handleRefreshErr_typed [OF assms(1) ready, of e "now w1"]
      show ?thesis by (auto simp: refreshIfNeeded_def split: prod.splits)
    next
      case (Inr tr)
      have tr: "usable tr" "typed_tokens tr"
        using refresh_ok refresh_typed x Inr assms(1) by (auto simp: typed_session_def)
      show ?thesis
        using assms(2) None False x Inr typed_commit [OF assms(1) tr] commit_refresh_typed [OF tr]
        by (auto simp: refreshIfNeeded_def Let_def split: prod.splits) (metis fst_conv snd_conv)+
    qed
  qed
qed

lemma GetAccessToken_typed:
  assumes "typed_session s" "GetAccessToken refresh now s w = (r, s', w')"
  shows "typed_session s' \<and> typed_result r"
  using assms check_token_typed [OF assms(1)] refreshIfNeeded_typed [OF assms(1)]
  by (auto simp: GetAccessToken_def split: option.splits)

end

interpretation typed_idp: typed_refresher "Refresh env"
  by unfold_locales (rule Refresh_typed)

end
