(* ===== verification/Go_RFC3339.thy ===== *)
theory Go_RFC3339
  imports Go_Time Go_URL
begin

text \<open>
  \<^verbatim>\<open>Time.UTC().Format(time.RFC3339)\<close> and \<^verbatim>\<open>time.Parse(time.RFC3339, s)\<close> on byte strings, with the
  proleptic Gregorian calendar. The parser accepts what Go's accepts: a fraction of the second, a
  numeric zone, an hour of one digit. The main result is that parsing gives back the formatted time
  without its nanoseconds (\<open>rfc3339_roundtrip\<close>).
\<close>

subsection \<open>Calendar\<close>

definition days_before_year :: "int \<Rightarrow> int" where
  "days_before_year y = 365 * (y - 1) + (y - 1) div 4 - (y - 1) div 100 + (y - 1) div 400"

definition leap :: "int \<Rightarrow> bool" where
  "leap y \<longleftrightarrow> y mod 4 = 0 \<and> (y mod 100 \<noteq> 0 \<or> y mod 400 = 0)"

definition month_lengths :: "int \<Rightarrow> int list" where
  "month_lengths y = [31, if leap y then 29 else 28, 31, 30, 31, 30, 31, 31, 30, 31, 30, 31]"

text \<open>Year and day of the year (from 0) of a day number (from 0 on January 1 of year 1), by cycles of
  400, 100, 4 and 1 years.\<close>

definition year_day :: "int \<Rightarrow> int \<times> int" where
  "year_day d =
     (let a = d div 146097; r = d mod 146097;
          b = min 3 (r div 36524); r2 = r - b * 36524;
          c = r2 div 1461; r3 = r2 mod 1461;
          e = min 3 (r3 div 365)
      in (400 * a + 100 * b + 4 * c + e + 1, r3 - 365 * e))"

fun month_day :: "int list \<Rightarrow> int \<Rightarrow> int \<Rightarrow> int \<times> int" where
  "month_day [] m n = (m, n + 1)"
| "month_day (l # ls) m n = (if n < l then (m, n + 1) else month_day ls (m + 1) (n - l))"

definition day_number :: "int \<Rightarrow> int \<Rightarrow> int \<Rightarrow> int" where
  "day_number y m d = days_before_year y + sum_list (take (nat (m - 1)) (month_lengths y)) + (d - 1)"

subsection \<open>Formatting\<close>

definition digit :: "int \<Rightarrow> char" where
  "digit n = chr (48 + nat n)"

definition two :: "int \<Rightarrow> string" where
  "two n = [digit (n div 10), digit (n mod 10)]"

text \<open>A year is written with at least four digits.\<close>

definition year_digits :: "int \<Rightarrow> string" where
  "year_digits y =
     (if 0 \<le> y \<and> y < 10000 then two (y div 100) @ two (y mod 100)
      else if y < 0 then CHR ''-'' # (let s = nat_digits (nat (- y)) in replicate (4 - length s) CHR ''0'' @ s)
      else nat_digits (nat y))"

definition rfc3339_format :: "gotime \<Rightarrow> string" where
  "rfc3339_format t =
     (let secs = t div second; days = secs div 86400; s = secs mod 86400;
          (y, n) = year_day days; (m, d) = month_day (month_lengths y) 1 n
      in year_digits y @ ''-'' @ two m @ ''-'' @ two d @ ''T''
         @ two (s div 3600) @ '':'' @ two (s div 60 mod 60) @ '':'' @ two (s mod 60) @ ''Z'')"

subsection \<open>Parsing\<close>

definition get_num :: "nat \<Rightarrow> string \<Rightarrow> (int \<times> string) option" where
  "get_num n s =
     (if length s < n \<or> \<not> list_all is_digit (take n s) then None
      else Some (int (digits_val (take n s)), drop n s))"

text \<open>An hour may have one digit.\<close>

definition get_hour :: "string \<Rightarrow> (int \<times> string) option" where
  "get_hour s =
     (case get_num 2 s of
        Some r \<Rightarrow> Some r
      | None \<Rightarrow> get_num 1 s)"

definition expect :: "char \<Rightarrow> string \<Rightarrow> string option" where
  "expect c s = (case s of [] \<Rightarrow> None | d # ds \<Rightarrow> if d = c then Some ds else None)"

definition get_fraction :: "string \<Rightarrow> int \<times> string" where
  "get_fraction s =
     (if 2 \<le> length s \<and> (s ! 0 = CHR ''.'' \<or> s ! 0 = CHR '','') \<and> is_digit (s ! 1)
      then (let ds = takeWhile is_digit (tl s); ns = take 9 ds
            in (int (digits_val ns) * 10 ^ (9 - length ns), dropWhile is_digit (tl s)))
      else (0, s))"

text \<open>The offset of the zone in seconds.\<close>

definition get_zone :: "string \<Rightarrow> int option" where
  "get_zone s =
     (if s = ''Z'' then Some 0
      else if length s = 6 \<and> s ! 3 = CHR '':'' then
        (case (get_num 2 (take 2 (drop 1 s)), get_num 2 (drop 4 s)) of
           (Some (h, _), Some (m, _)) \<Rightarrow>
             if 24 < h \<or> 60 < m then None
             else if s ! 0 = CHR ''+'' then Some ((h * 60 + m) * 60)
             else if s ! 0 = CHR ''-'' then Some (- ((h * 60 + m) * 60))
             else None
         | _ \<Rightarrow> None)
      else None)"

definition rfc3339_parse :: "string \<Rightarrow> gotime option" where
  "rfc3339_parse s0 =
     Option.bind (get_num 4 s0) (\<lambda>(y, s1). Option.bind (expect CHR ''-'' s1) (\<lambda>s2.
     Option.bind (get_num 2 s2) (\<lambda>(m, s3). Option.bind (expect CHR ''-'' s3) (\<lambda>s4.
     Option.bind (get_num 2 s4) (\<lambda>(d, s5). Option.bind (expect CHR ''T'' s5) (\<lambda>s6.
     Option.bind (get_hour s6) (\<lambda>(hh, s7). Option.bind (expect CHR '':'' s7) (\<lambda>s8.
     Option.bind (get_num 2 s8) (\<lambda>(mm, s9). Option.bind (expect CHR '':'' s9) (\<lambda>s10.
     Option.bind (get_num 2 s10) (\<lambda>(ss, s11).
       (let (ns, s12) = get_fraction s11 in
        Option.bind (get_zone s12) (\<lambda>z.
          if 1 \<le> m \<and> m \<le> 12 \<and> 1 \<le> d \<and> d \<le> month_lengths y ! nat (m - 1)
             \<and> hh < 24 \<and> mm < 60 \<and> ss < 60
          then Some ((day_number y m d * 86400 + hh * 3600 + mm * 60 + ss - z) * second + ns)
          else None)))))))))))))"

subsection \<open>Round trip\<close>

lemma cycle_days:
  fixes a b c e r r2 r3 n d y D :: int
  assumes "D = 365 * (y - 1) + (100 * a + 25 * b + c) - (4 * a + b) + a" "y = 400 * a + 100 * b + 4 * c + e + 1"
    "d = 146097 * a + r" "r2 = r - b * 36524" "r2 = 1461 * c + r3" "n = r3 - 365 * e"
  shows "D + n = d"
  using assms by (simp add: algebra_simps)

lemma clock_sum: "h * 60 + m = k \<Longrightarrow> k * 60 + z = s \<Longrightarrow> h * 3600 + m * 60 + z = s" for h m k z s :: int
  by simp

lemma cycle_div: "0 \<le> k \<Longrightarrow> k < m \<Longrightarrow> (m * a + k) div m = a" for k :: int
  by simp

text \<open>The cycles a day number is made of.\<close>

lemma year_day_parts:
  assumes "year_day d = (y, n)"
  obtains a b c e r r3 where
    "y = 400 * a + 100 * b + 4 * c + e + 1" "n = r3 - 365 * e" "a = d div 146097"
    "d = 146097 * a + r" "0 \<le> r" "r < 146097" "0 \<le> b" "b \<le> 3" "0 \<le> c" "c \<le> 24"
    "r - b * 36524 = 1461 * c + r3" "0 \<le> r3" "c = 24 \<and> b < 3 \<longrightarrow> r3 < 1460"
    "0 \<le> e" "e \<le> 3" "0 \<le> n" "n \<le> 365" "e < 3 \<longrightarrow> n < 365" "r3 < 1095 \<longrightarrow> e < 3"
proof -
  define a r where "a = d div 146097" and "r = d mod 146097"
  define b where "b = min 3 (r div 36524)"
  define r2 where "r2 = r - b * 36524"
  define c r3 where "c = r2 div 1461" and "r3 = r2 mod 1461"
  define e where "e = min 3 (r3 div 365)"
  have "year_day d = (400 * a + 100 * b + 4 * c + e + 1, r3 - 365 * e)"
    by (simp only: year_day_def Let_def a_def r_def b_def r2_def c_def r3_def e_def)
  with assms have y: "y = 400 * a + 100 * b + 4 * c + e + 1" and n: "n = r3 - 365 * e"
    by (simp_all only: prod.inject)
  have r: "0 \<le> r" "r < 146097" "d = 146097 * a + r"
    by (simp_all add: a_def r_def)
  have b: "0 \<le> b" "b \<le> 3" "0 \<le> r2" "r2 < 36525" "b < 3 \<longrightarrow> r2 < 36524"
    using r(1,2) by (auto simp: b_def r2_def min_def)
  have c: "0 \<le> c" "c \<le> 24" "0 \<le> r3" "r3 < 1461" "r2 = 1461 * c + r3"
    using b(3,4) by (auto simp: c_def r3_def)
  have c_last: "c = 24 \<and> b < 3 \<longrightarrow> r3 < 1460"
    using b(5) c(5) by auto
  have e: "0 \<le> e" "e \<le> 3" "0 \<le> n" "n \<le> 365" "e < 3 \<longrightarrow> n < 365" "r3 < 1095 \<longrightarrow> e < 3"
    using c(3,4) by (auto simp: e_def n min_def)
  show ?thesis
    by (rule that [OF y n a_def r(3,1,2) b(1,2) c(1,2) _ c(3) c_last e]) (use c(5) in \<open>simp only: r2_def\<close>)
qed

lemma year_day_correct:
  "year_day d = (y, n) \<Longrightarrow> days_before_year y + n = d \<and> 0 \<le> n \<and> n < (if leap y then 366 else 365)"
proof -
  assume "year_day d = (y, n)"
  then obtain a b c e r r3 where y: "y = 400 * a + 100 * b + 4 * c + e + 1" and n: "n = r3 - 365 * e"
    and r: "d = 146097 * a + r" and b: "0 \<le> b" "b \<le> 3" and c: "0 \<le> c" "c \<le> 24"
    and r2: "r - b * 36524 = 1461 * c + r3" and c_last: "c = 24 \<and> b < 3 \<longrightarrow> r3 < 1460"
    and e: "0 \<le> e" "e \<le> 3" "0 \<le> n" "n \<le> 365" "e < 3 \<longrightarrow> n < 365"
    by (rule year_day_parts) blast
  have "y - 1 = 4 * (100 * a + 25 * b + c) + e" "y - 1 = 100 * (4 * a + b) + (4 * c + e)"
    "y - 1 = 400 * a + (100 * b + 4 * c + e)"
    by (simp_all add: y)
  note y1 = this
  have q4: "(y - 1) div 4 = 100 * a + 25 * b + c"
    unfolding y1(1) by (rule cycle_div) (use e(1,2) in linarith)+
  have q100: "(y - 1) div 100 = 4 * a + b"
    unfolding y1(2) by (rule cycle_div) (use e(1,2) c(1,2) in linarith)+
  have q400: "(y - 1) div 400 = a"
    unfolding y1(3) by (rule cycle_div) (use e(1,2) c(1,2) b(1,2) in linarith)+
  have "days_before_year y = 365 * (y - 1) + (100 * a + 25 * b + c) - (4 * a + b) + a"
    by (simp only: days_before_year_def q4 q100 q400)
  then have "days_before_year y + n = d"
    by (rule cycle_days [OF _ y r refl r2 n])
  moreover have "n = 365 \<Longrightarrow> leap y"
  proof -
    assume "n = 365"
    with e have "e = 3" "r3 = 1460" by (auto simp: n)
    with c_last b(2) have "c \<noteq> 24 \<or> b = 3" by auto
    have "y = 4 * (100 * a + 25 * b + c + 1)" using y \<open>e = 3\<close> by simp
    then have "y mod 4 = 0" by simp
    moreover have "y mod 100 \<noteq> 0 \<or> y mod 400 = 0"
    proof (cases "c = 24")
      case True
      with y \<open>e = 3\<close> \<open>c \<noteq> 24 \<or> b = 3\<close> have "y = 400 * (a + 1)" by simp
      then show ?thesis by simp
    next
      case False
      with c(2) have "4 * c + 4 < 100" by simp
      have "y = 100 * (4 * a + b) + (4 * c + 4)" using y \<open>e = 3\<close> by simp
      then have "y mod 100 = (4 * c + 4) mod 100" by (simp only: mod_mult_self4)
      also have "\<dots> = 4 * c + 4" using \<open>4 * c + 4 < 100\<close> c(1) by simp
      finally show ?thesis using c(1) by simp
    qed
    ultimately show "leap y" by (simp add: leap_def)
  qed
  ultimately show ?thesis using e by (cases "n = 365") auto
qed

lemma month_day_correct:
  "month_day ls m n = (m', d) \<Longrightarrow> 0 \<le> n \<Longrightarrow> n < sum_list ls \<Longrightarrow> list_all (\<lambda>l. 0 < l) ls \<Longrightarrow>
     m \<le> m' \<and> m' < m + int (length ls) \<and> 1 \<le> d \<and> d \<le> ls ! nat (m' - m)
     \<and> sum_list (take (nat (m' - m)) ls) + (d - 1) = n"
proof (induction ls m n rule: month_day.induct)
  case (1 m n)
  then show ?case by simp
next
  case (2 l ls m n)
  show ?case
  proof (cases "n < l")
    case True
    with 2 show ?thesis by auto
  next
    case False
    with 2 have ih: "m + 1 \<le> m' \<and> m' < m + 1 + int (length ls) \<and> 1 \<le> d \<and> d \<le> ls ! nat (m' - (m + 1))
        \<and> sum_list (take (nat (m' - (m + 1))) ls) + (d - 1) = n - l"
      by auto
    then have "nat (m' - m) = Suc (nat (m' - (m + 1)))" by auto
    with ih show ?thesis by auto
  qed
qed

lemma months_sum: "sum_list (month_lengths y) = (if leap y then 366 else 365)"
  by (simp add: month_lengths_def)

lemma months_range: "1 \<le> m \<Longrightarrow> m \<le> 12 \<Longrightarrow> month_lengths y ! nat (m - 1) \<le> 31"
proof -
  assume "1 \<le> m" "m \<le> 12"
  then have "nat (m - 1) < length (month_lengths y)" by (simp add: month_lengths_def)
  then have "month_lengths y ! nat (m - 1) \<in> set (month_lengths y)" by (rule nth_mem)
  then show ?thesis by (auto simp: month_lengths_def split: if_splits)
qed

text \<open>Date and day number determine each other.\<close>

lemma date_correct:
  assumes "year_day d = (y, n)" "month_day (month_lengths y) 1 n = (m, k)"
  shows "day_number y m k = d" "1 \<le> m" "m \<le> 12" "1 \<le> k" "k \<le> month_lengths y ! nat (m - 1)" "k \<le> 31"
proof -
  note yd = year_day_correct [OF assms(1)]
  have pos: "list_all (\<lambda>l. 0 < l) (month_lengths y)" by (simp add: month_lengths_def)
  have "n < sum_list (month_lengths y)" using yd by (simp add: months_sum)
  from month_day_correct [OF assms(2) _ this pos] yd
  have md: "1 \<le> m" "m < 1 + int (length (month_lengths y))" "1 \<le> k" "k \<le> month_lengths y ! nat (m - 1)"
    "sum_list (take (nat (m - 1)) (month_lengths y)) + (k - 1) = n"
    by auto
  have m12: "m \<le> 12" using md(2) by (simp add: month_lengths_def)
  show "day_number y m k = d" using md(5) yd by (simp add: day_number_def)
  show "1 \<le> m" "m \<le> 12" "1 \<le> k" "k \<le> month_lengths y ! nat (m - 1)" by (rule md(1) m12 md(3) md(4))+
  show "k \<le> 31" using months_range [OF md(1) m12, of y] md(4) by simp
qed

lemma is_digit_digit: "0 \<le> n \<Longrightarrow> n < 10 \<Longrightarrow> is_digit (digit n) \<and> byte (digit n) = 48 + nat n"
  by (simp add: digit_def is_digit_def nat_less_iff)

lemma get_num_two: "0 \<le> n \<Longrightarrow> n < 100 \<Longrightarrow> get_num 2 (two n @ s) = Some (n, s)"
proof -
  assume n: "0 \<le> n" "n < 100"
  have "is_digit (digit (n div 10)) \<and> byte (digit (n div 10)) = 48 + nat (n div 10)"
    "is_digit (digit (n mod 10)) \<and> byte (digit (n mod 10)) = 48 + nat (n mod 10)"
    by (rule is_digit_digit; use n in simp)+
  moreover have "0 \<le> n div 10" using n by simp
  then have "int (10 * nat (n div 10) + nat (n mod 10)) = n" using n by simp
  ultimately show ?thesis by (simp add: get_num_def two_def digits_val_def)
qed

lemma get_num_year: "0 \<le> y \<Longrightarrow> y < 10000 \<Longrightarrow> get_num 4 (year_digits y @ s) = Some (y, s)"
proof -
  assume y: "0 \<le> y" "y < 10000"
  define p q where "p = y div 100" and "q = y mod 100"
  have pq: "0 \<le> p" "p < 100" "0 \<le> q" "q < 100" "y = 100 * p + q"
    using y by (simp_all add: p_def q_def)
  have "get_num 2 (two p @ two q @ s) = Some (p, two q @ s)" "get_num 2 (two q @ s) = Some (q, s)"
    using pq by (simp_all add: get_num_two)
  moreover have "length (two p) = 2" "length (two q) = 2" by (simp_all add: two_def)
  ultimately have d: "list_all is_digit (two p)" "list_all is_digit (two q)"
    "int (digits_val (two p)) = p" "int (digits_val (two q)) = q"
    by (auto simp: get_num_def split: if_splits)
  have "digits_val (two p @ two q) = 100 * digits_val (two p) + digits_val (two q)"
    by (simp add: two_def digits_val_def)
  then have "int (digits_val (two p @ two q)) = y"
    using d(3,4) pq(5) by simp
  moreover have "year_digits y = two p @ two q"
    using y by (simp add: year_digits_def p_def q_def)
  ultimately show ?thesis
    using d(1,2) \<open>length (two p) = 2\<close> \<open>length (two q) = 2\<close> by (simp add: get_num_def)
qed

lemma year_day_range:
  assumes "year_day d = (y, n)" "0 \<le> d" "d < 3652059"
  shows "0 \<le> y" "y < 10000"
proof -
  obtain a b c e r r3 where y: "y = 400 * a + 100 * b + 4 * c + e + 1" and a_def: "a = d div 146097"
    and r: "d = 146097 * a + r" and b: "0 \<le> b" "b \<le> 3" and c: "0 \<le> c" "c \<le> 24"
    and r2: "r - b * 36524 = 1461 * c + r3" and e: "0 \<le> e" "e \<le> 3" "r3 < 1095 \<longrightarrow> e < 3"
    by (rule year_day_parts [OF assms(1)]) blast
  have a: "0 \<le> a" "a \<le> 24"
    using assms(2,3) by (simp_all add: a_def)
  show "0 \<le> y" using a(1) b(1) c(1) e(1) y by linarith
  have "e < 3" if "a = 24" "b = 3" "c = 24"
    using that r r2 e(3) assms(3) by auto
  then show "y < 10000" using a(2) b(2) c(2) e(2) y by linarith
qed

lemma rfc3339_roundtrip:
  assumes "0 \<le> t" "t < 3652059 * 86400 * second"
  shows "rfc3339_parse (rfc3339_format t) = Some (t - t mod second)"
proof -
  define days s where "days = t div second div 86400" and "s = t div second mod 86400"
  obtain y n where yn: "year_day days = (y, n)" by (cases "year_day days")
  obtain m d where md: "month_day (month_lengths y) 1 n = (m, d)" by (cases "month_day (month_lengths y) 1 n")
  note date = date_correct [OF yn md]
  have days: "0 \<le> days" "days < 3652059"
    using assms by (simp_all add: days_def second_def)
  note y = year_day_range [OF yn days]
  have s: "0 \<le> s div 3600" "s div 3600 < 24" "0 \<le> s div 60 mod 60" "s div 60 mod 60 < 60" "0 \<le> s mod 60" "s mod 60 < 60"
    by (simp_all add: s_def)
  have hms: "s div 3600 * 3600 + s div 60 mod 60 * 60 + s mod 60 = s"
  proof -
    have h: "s div 3600 = s div 60 div 60" by (simp add: zdiv_zmult2_eq [symmetric])
    show ?thesis
      unfolding h by (rule clock_sum [OF div_mult_mod_eq div_mult_mod_eq])
  qed
  have t: "(days * 86400 + s) * second = t - t mod second"
    by (simp add: days_def s_def minus_mod_eq_div_mult [symmetric])
  have hour: "get_hour (two (s div 3600) @ r) = Some (s div 3600, r)" for r
    using get_num_two [of "s div 3600" r] s by (simp add: get_hour_def)
  have frac: "get_fraction ''Z'' = (0, ''Z'')" by (simp add: get_fraction_def)
  have zone: "get_zone ''Z'' = Some 0" by (simp add: get_zone_def)
  have nums: "get_num 2 (two m @ r) = Some (m, r)" "get_num 2 (two d @ r) = Some (d, r)"
    "get_num 2 (two (s div 60 mod 60) @ r) = Some (s div 60 mod 60, r)"
    "get_num 2 (two (s mod 60) @ r) = Some (s mod 60, r)" for r
  proof -
    have lt: "x < 60 \<Longrightarrow> x < 100" "x \<le> 31 \<Longrightarrow> x < 100" "x \<le> 12 \<Longrightarrow> x < 100" "1 \<le> x \<Longrightarrow> 0 \<le> x" for x :: int
      by simp_all
    show "get_num 2 (two m @ r) = Some (m, r)" by (rule get_num_two [OF lt(4) [OF date(2)] lt(3) [OF date(3)]])
    show "get_num 2 (two d @ r) = Some (d, r)" by (rule get_num_two [OF lt(4) [OF date(4)] lt(2) [OF date(6)]])
    show "get_num 2 (two (s div 60 mod 60) @ r) = Some (s div 60 mod 60, r)"
      by (rule get_num_two [OF s(3) lt(1) [OF s(4)]])
    show "get_num 2 (two (s mod 60) @ r) = Some (s mod 60, r)"
      by (rule get_num_two [OF s(5) lt(1) [OF s(6)]])
  qed
  have fmt: "rfc3339_format t = year_digits y @ ''-'' @ two m @ ''-'' @ two d @ ''T''
      @ two (s div 3600) @ '':'' @ two (s div 60 mod 60) @ '':'' @ two (s mod 60) @ ''Z''"
    by (simp add: rfc3339_format_def Let_def days_def [symmetric] s_def [symmetric] yn md)
  have val: "(day_number y m d * 86400 + s div 3600 * 3600 + s div 60 mod 60 * 60 + s mod 60 - 0) * second + 0
      = t - t mod second"
    using hms t date(1) by (simp only: add.assoc diff_zero add_0_right)
  show ?thesis
    unfolding fmt rfc3339_parse_def
    by (simp only: append_Cons append_Nil get_num_year [OF y] nums hour frac zone expect_def list.case
        Option.bind.simps prod.case Let_def refl if_True date(2-5) s(2,4,6) val simp_thms)
qed

end
