(* ===== verification/Sha256.thy ===== *)
theory Sha256
  imports Go_Strings "HOL-Library.Word"
begin

text \<open>
  \<^verbatim>\<open>crypto/sha256\<close>, which the comparison of secrets in \<^verbatim>\<open>internal/server\<close> uses: FIPS 180-4 on byte
  strings, with 32-bit words. The two known digests at the end check the tables and the rounds.
\<close>

unbundle bit_operations_syntax

type_synonym w32 = "32 word"

definition sha_k :: "w32 list" where
  "sha_k = [1116352408, 1899447441, 3049323471, 3921009573, 961987163, 1508970993, 2453635748,
    2870763221, 3624381080, 310598401, 607225278, 1426881987, 1925078388, 2162078206,
    2614888103, 3248222580, 3835390401, 4022224774, 264347078, 604807628, 770255983, 1249150122,
    1555081692, 1996064986, 2554220882, 2821834349, 2952996808, 3210313671, 3336571891,
    3584528711, 113926993, 338241895, 666307205, 773529912, 1294757372, 1396182291, 1695183700,
    1986661051, 2177026350, 2456956037, 2730485921, 2820302411, 3259730800, 3345764771,
    3516065817, 3600352804, 4094571909, 275423344, 430227734, 506948616, 659060556, 883997877,
    958139571, 1322822218, 1537002063, 1747873779, 1955562222, 2024104815, 2227730452,
    2361852424, 2428436474, 2756734187, 3204031479, 3329325298]"

definition sha_init :: "w32 list" where
  "sha_init = [1779033703, 3144134277, 1013904242, 2773480762, 1359893119, 2600822924, 528734635,
    1541459225]"

definition rotr :: "nat \<Rightarrow> w32 \<Rightarrow> w32" where
  "rotr n x = drop_bit n x OR push_bit (32 - n) x"

definition big_sigma0 :: "w32 \<Rightarrow> w32" where
  "big_sigma0 x = rotr 2 x XOR rotr 13 x XOR rotr 22 x"

definition big_sigma1 :: "w32 \<Rightarrow> w32" where
  "big_sigma1 x = rotr 6 x XOR rotr 11 x XOR rotr 25 x"

definition small_sigma0 :: "w32 \<Rightarrow> w32" where
  "small_sigma0 x = rotr 7 x XOR rotr 18 x XOR drop_bit 3 x"

definition small_sigma1 :: "w32 \<Rightarrow> w32" where
  "small_sigma1 x = rotr 17 x XOR rotr 19 x XOR drop_bit 10 x"

text \<open>The message schedule, the most recent word first: each new word is computed from the sixteen
  before it.\<close>

fun schedule :: "nat \<Rightarrow> w32 list \<Rightarrow> w32 list" where
  "schedule 0 ws = ws"
| "schedule (Suc n) ws =
     schedule n ((small_sigma1 (ws ! 1) + ws ! 6 + small_sigma0 (ws ! 14) + ws ! 15) # ws)"

type_synonym sha_state = "w32 \<times> w32 \<times> w32 \<times> w32 \<times> w32 \<times> w32 \<times> w32 \<times> w32"

definition sha_round :: "w32 \<times> w32 \<Rightarrow> sha_state \<Rightarrow> sha_state" where
  "sha_round = (\<lambda>(k, w) (a, b, c, d, e, f, g, h).
     (let t1 = h + big_sigma1 e + ((e AND f) XOR (NOT e AND g)) + k + w;
          t2 = big_sigma0 a + ((a AND b) XOR (a AND c) XOR (b AND c))
      in (t1 + t2, a, b, c, d + t1, e, f, g)))"

definition add_state :: "sha_state \<Rightarrow> sha_state \<Rightarrow> sha_state" where
  "add_state = (\<lambda>(a, b, c, d, e, f, g, h) (a', b', c', d', e', f', g', h').
     (a + a', b + b', c + c', d + d', e + e', f + f', g + g', h + h'))"

definition sha_block :: "sha_state \<Rightarrow> w32 list \<Rightarrow> sha_state" where
  "sha_block st ws = add_state st (fold sha_round (zip sha_k (rev (schedule 48 (rev ws)))) st)"

fun be_words :: "string \<Rightarrow> w32 list" where
  "be_words (a # b # c # d # rest) =
     (push_bit 24 (of_char a) OR push_bit 16 (of_char b) OR push_bit 8 (of_char c) OR of_char d) # be_words rest"
| "be_words _ = []"

definition low_byte :: "'a::len word \<Rightarrow> char" where
  "low_byte w = chr (unat (take_bit 8 w))"

definition be_bytes4 :: "w32 \<Rightarrow> string" where
  "be_bytes4 w = [low_byte (drop_bit 24 w), low_byte (drop_bit 16 w), low_byte (drop_bit 8 w), low_byte w]"

definition be_bytes8 :: "64 word \<Rightarrow> string" where
  "be_bytes8 w = be_bytes4 (ucast (drop_bit 32 w)) @ be_bytes4 (ucast w)"

text \<open>A one bit, zeros up to eight bytes short of a block, the length in bits.\<close>

definition sha_pad :: "string \<Rightarrow> string" where
  "sha_pad s = s @ CHR 0x80 # replicate ((119 - length s mod 64) mod 64) CHR 0x00 @ be_bytes8 (of_nat (8 * length s))"

fun sha_blocks :: "nat \<Rightarrow> sha_state \<Rightarrow> w32 list \<Rightarrow> sha_state" where
  "sha_blocks 0 st ws = st"
| "sha_blocks (Suc n) st ws = sha_blocks n (sha_block st (take 16 ws)) (drop 16 ws)"

definition sha_start :: sha_state where
  "sha_start = (let h = sha_init in (h ! 0, h ! 1, h ! 2, h ! 3, h ! 4, h ! 5, h ! 6, h ! 7))"

text \<open>The digest as its eight words.\<close>

definition sha256_words :: "string \<Rightarrow> sha_state" where
  "sha256_words s = (let ws = be_words (sha_pad s) in sha_blocks (length ws div 16) sha_start ws)"

definition Sum256 :: "string \<Rightarrow> string" where
  "Sum256 s =
     (case sha256_words s of (a, b, c, d, e, f, g, h) \<Rightarrow>
        concat (map be_bytes4 [a, b, c, d, e, f, g, h]))"

subsection \<open>Known digests\<close>

lemma sha256_empty:
  "sha256_words '''' = (3820012610, 2566659092, 2600203464, 2574235940, 665731556, 1687917388, 2761267483, 2018687061)"
  by code_simp

lemma sha256_abc:
  "sha256_words ''abc'' = (3128432319, 2399260650, 1094795486, 1571693091, 2953011619, 2518121116, 3021012833, 4060091821)"
  by code_simp

lemma Sum256_abc: "Sum256 ''abc'' \<noteq> Sum256 ''''"
  by (simp add: Sum256_def sha256_empty sha256_abc be_bytes4_def low_byte_def chr_def)

lemma sha256_sixteen:
  "sha256_words ''sixteen-byte-key'' = (2296115923, 1215427412, 3043936305, 2318274129, 3624042244, 2091941570, 2850363577, 39823256)"
  by code_simp

lemma Sum256_sixteen: "Sum256 ''sixteen-byte-key'' \<noteq> Sum256 ''''"
  by (simp add: Sum256_def sha256_empty sha256_sixteen be_bytes4_def low_byte_def chr_def)

end
