(* ===== verification/Server.thy ===== *)
theory Server
  imports Typed Go_RFC3339 Sha256
begin

text \<open>
  \<^verbatim>\<open>internal/server/server.go\<close>: the local HTTP API. A request is its method, its path as the
  multiplexer matches it and its \<^verbatim>\<open>Authorization\<close> header; a handler gives the response, the session
  afterwards and whether it scheduled the shutdown hook. The handlers are pure functions of the
  operations of theory \<open>Session\<close>; \<open>handle\<close> is the multiplexer.

  Whether the response of \<^verbatim>\<open>POST /handoff\<close> could be written is an argument (\<open>wrote\<close>). The order in
  which \<^verbatim>\<open>http.ResponseWriter\<close> is used is fixed, so a response is a value.
\<close>

subsection \<open>Secrets\<close>

text \<open>\<^verbatim>\<open>subtle.ConstantTimeCompare\<close> and \<^verbatim>\<open>subtle.ConstantTimeEq\<close>.\<close>

definition ConstantTimeCompare :: "string \<Rightarrow> string \<Rightarrow> int" where
  "ConstantTimeCompare a b = (if a = b then 1 else 0)"

definition ConstantTimeEq :: "int \<Rightarrow> int \<Rightarrow> int" where
  "ConstantTimeEq a b = (if a = b then 1 else 0)"

definition secretEqual :: "string \<Rightarrow> string \<Rightarrow> bool" where
  "secretEqual got want \<longleftrightarrow>
     (let gh = Sum256 got; wh = Sum256 want; none = Sum256 '''';
          wantEmpty = ConstantTimeCompare wh none;
          matching = ConstantTimeCompare gh wh
      in and (ConstantTimeEq matching 1) (ConstantTimeEq wantEmpty 0) = 1)"

text \<open>\<^verbatim>\<open>strings.EqualFold\<close> with an ASCII string.\<close>

definition EqualFold :: "string \<Rightarrow> string \<Rightarrow> bool" where
  "EqualFold s t \<longleftrightarrow> fold_name s = fold_name t"

definition bearer :: "string \<Rightarrow> string" where
  "bearer h0 =
     (let h = trim_space h0; p = ''bearer '' in
      if length h > length p \<and> EqualFold (take (length p) h) p then trim_space (drop (length p) h)
      else '''')"

subsection \<open>Requests and responses\<close>

record api_request =
  ar_Method :: string
  ar_Path :: string
  ar_Authorization :: string

record api_response =
  rs_Status :: int
  rs_ContentType :: string
  rs_Body :: string

text \<open>A \<^verbatim>\<open>map[string]any\<close> is marshalled with its keys in order.\<close>

definition json_map :: "(string \<times> json) list \<Rightarrow> json" where
  "json_map kvs = JObj (sort_key fst kvs)"

definition writeJSON :: "int \<Rightarrow> (string \<times> json) list \<Rightarrow> api_response" where
  "writeJSON code kvs =
     \<lparr>rs_Status = code, rs_ContentType = ''application/json'', rs_Body = json_encode (json_map kvs)\<rparr>"

record Server =
  srv_Session :: Session
  srv_Secret :: string
  srv_OnLogout :: bool

text \<open>What a handler leaves: the response, the session, the world, and whether the shutdown hook runs.\<close>

record 'w served =
  sv_Response :: api_response
  sv_Session :: Session
  sv_World :: 'w
  sv_Shutdown :: bool

definition reply_only :: "api_response \<Rightarrow> Session \<Rightarrow> 'w \<Rightarrow> 'w served" where
  "reply_only r s w = \<lparr>sv_Response = r, sv_Session = s, sv_World = w, sv_Shutdown = False\<rparr>"

definition unauthorized_response :: api_response where
  "unauthorized_response =
     writeJSON 401 [(''error'', JStr ''unauthorized''), (''message'', JStr ''invalid local secret'')]"

definition checkSecret :: "Server \<Rightarrow> api_request \<Rightarrow> bool" where
  "checkSecret srv rq \<longleftrightarrow> secretEqual (bearer (ar_Authorization rq)) (srv_Secret srv)"

subsection \<open>Handlers\<close>

definition handleHealth :: api_response where
  "handleHealth = writeJSON 200 [(''ok'', JBool True)]"

definition handleReady :: "gotime \<Rightarrow> Session \<Rightarrow> api_response" where
  "handleReady t s =
     (let (ready, reason) = Ready t s in
      if ready then writeJSON 200 [(''ready'', JBool True)]
      else writeJSON 503 [(''ready'', JBool False), (''state'', JStr reason)])"

definition status_body :: "Status \<Rightarrow> (string \<times> json) list" where
  "status_body st =
     [(''state'', JStr (state_string (st_State st))), (''has_expiry'', JBool (st_HasExpiry st)),
      (''token_valid'', JBool (st_TokenValid st))]
     @ (if st_HasExpiry st \<and> st_ExpiresAt st \<noteq> 0
        then [(''expires_at'', JStr (rfc3339_format (st_ExpiresAt st)))] else [])
     @ (if st_LastError st \<noteq> '''' then [(''last_error'', JStr (st_LastError st))] else [])"

definition handleStatus :: "Server \<Rightarrow> api_request \<Rightarrow> gotime \<Rightarrow> api_response" where
  "handleStatus srv rq t =
     (if \<not> checkSecret srv rq then unauthorized_response
      else writeJSON 200 (status_body (get_Status t (srv_Session srv))))"

definition token_error :: "go_err \<Rightarrow> api_response" where
  "token_error err =
     (if errors_Is err ErrReauthRequired then
        writeJSON 401 [(''error'', JStr ''reauth_required''),
          (''message'', JStr ''refresh token rejected; restart xai-oauth serve and sign in'')]
      else if errors_Is err ErrTierDenied then
        writeJSON 403 [(''error'', JStr ''tier_denied''),
          (''message'', JStr ''oauth account not entitled for API access'')]
      else if errors_Is err ErrUnavailable then
        writeJSON 503 [(''error'', JStr ''unavailable''), (''message'', JStr ''token refresh temporarily failed'')]
      else
        writeJSON 503 [(''error'', JStr ''unavailable''), (''message'', JStr ''token refresh temporarily failed'')])"

definition token_response :: "string \<Rightarrow> api_response" where
  "token_response tok = writeJSON 200 [(''access_token'', JStr tok), (''token_type'', JStr ''Bearer'')]"

definition handleToken ::
  "'w refresh_call \<Rightarrow> ('w \<Rightarrow> gotime) \<Rightarrow> Server \<Rightarrow> api_request \<Rightarrow> 'w \<Rightarrow> 'w served"
where
  "handleToken refresh now srv rq w =
     (if \<not> checkSecret srv rq then reply_only unauthorized_response (srv_Session srv) w
      else
        (case GetAccessToken refresh now (srv_Session srv) w of
           (Inl err, s, w') \<Rightarrow> reply_only (token_error err) s w'
         | (Inr tok, s, w') \<Rightarrow> reply_only (token_response tok) s w'))"

definition handleLogout :: "Server \<Rightarrow> api_request \<Rightarrow> 'w \<Rightarrow> 'w served" where
  "handleLogout srv rq w =
     (if \<not> checkSecret srv rq then reply_only unauthorized_response (srv_Session srv) w
      else
        \<lparr>sv_Response = writeJSON 200 [(''ok'', JBool True), (''logged_out'', JBool True)],
         sv_Session = Clear (srv_Session srv), sv_World = w, sv_Shutdown = srv_OnLogout srv\<rparr>)"

definition handoff_body :: "HandoffData \<Rightarrow> (string \<times> json) list" where
  "handoff_body d =
     [(''access_token'', JStr (hd_AccessToken d)), (''refresh_token'', JStr (hd_RefreshToken d)),
      (''token_endpoint'', JStr (hd_TokenEndpoint d)), (''has_expiry'', JBool (hd_HasExpiry d))]
     @ (if hd_HasExpiry d then [(''expires_at'', JStr (rfc3339_format (hd_ExpiresAt d)))] else [])"

text \<open>
  Marshalling strings and booleans cannot fail. The body is written without the newline of the
  encoder.
\<close>

definition handleHandoff :: "bool \<Rightarrow> Server \<Rightarrow> api_request \<Rightarrow> 'w \<Rightarrow> 'w served" where
  "handleHandoff wrote srv rq w =
     (if \<not> checkSecret srv rq then reply_only unauthorized_response (srv_Session srv) w
      else
        (case Handoff (srv_Session srv) of
           (Inl st, s) \<Rightarrow>
             reply_only (writeJSON 409 [(''error'', JStr ''handoff_unavailable''), (''state'', JStr (state_string st))]) s w
         | (Inr d, s) \<Rightarrow>
             (let r = \<lparr>rs_Status = 200, rs_ContentType = ''application/json'',
                       rs_Body = json_print (json_map (handoff_body d))\<rparr>
              in if \<not> wrote then reply_only r (RestoreHandoff (Some d) s) w
                 else \<lparr>sv_Response = r, sv_Session = s, sv_World = w, sv_Shutdown = srv_OnLogout srv\<rparr>)))"

subsection \<open>The multiplexer\<close>

datatype route = RHealth | RReady | RStatus | RToken | RLogout | RHandoff | RNotFound | RMethodNotAllowed

text \<open>A pattern for GET also serves HEAD.\<close>

definition route_of :: "string \<Rightarrow> string \<Rightarrow> route" where
  "route_of m p =
     (let get = (\<lambda>r. if m = ''GET'' \<or> m = ''HEAD'' then r else RMethodNotAllowed);
          post = (\<lambda>r. if m = ''POST'' then r else RMethodNotAllowed) in
      if p = ''/health'' then get RHealth
      else if p = ''/ready'' then get RReady
      else if p = ''/status'' then get RStatus
      else if p = ''/token'' then get RToken
      else if p = ''/logout'' then post RLogout
      else if p = ''/handoff'' then post RHandoff
      else RNotFound)"

definition text_response :: "int \<Rightarrow> string \<Rightarrow> api_response" where
  "text_response code msg =
     \<lparr>rs_Status = code, rs_ContentType = ''text/plain; charset=utf-8'', rs_Body = msg @ [CHR 0x0A]\<rparr>"

definition handle ::
  "'w refresh_call \<Rightarrow> ('w \<Rightarrow> gotime) \<Rightarrow> bool \<Rightarrow> Server \<Rightarrow> api_request \<Rightarrow> 'w \<Rightarrow> 'w served"
where
  "handle refresh now wrote srv rq w =
     (case route_of (ar_Method rq) (ar_Path rq) of
        RHealth \<Rightarrow> reply_only handleHealth (srv_Session srv) w
      | RReady \<Rightarrow> reply_only (handleReady (now w) (srv_Session srv)) (srv_Session srv) w
      | RStatus \<Rightarrow> reply_only (handleStatus srv rq (now w)) (srv_Session srv) w
      | RToken \<Rightarrow> handleToken refresh now srv rq w
      | RLogout \<Rightarrow> handleLogout srv rq w
      | RHandoff \<Rightarrow> handleHandoff wrote srv rq w
      | RNotFound \<Rightarrow> reply_only (text_response 404 ''404 page not found'') (srv_Session srv) w
      | RMethodNotAllowed \<Rightarrow> reply_only (text_response 405 ''Method Not Allowed'') (srv_Session srv) w)"

subsection \<open>The secret\<close>

lemma secretEqual_iff: "secretEqual got want \<longleftrightarrow> Sum256 got = Sum256 want \<and> Sum256 want \<noteq> Sum256 ''''"
  by (auto simp: secretEqual_def ConstantTimeCompare_def ConstantTimeEq_def Let_def)

text \<open>
  The comparison of secrets decides exactly whether the SHA-256 digests agree and the
  wanted secret is not one with the digest of the empty string; so an unset secret is matched by
  nothing, not even by an empty one.
\<close>

theorem secretEqual_spec:
  "(secretEqual got want \<longleftrightarrow> Sum256 got = Sum256 want \<and> Sum256 want \<noteq> Sum256 '''') \<and> \<not> secretEqual got ''''"
  by (simp add: secretEqual_iff)

lemma fold_name_ascii: "list_all is_ascii s \<Longrightarrow> fold_name s = map (fold_rune \<circ> byte) s"
  by (simp add: fold_name_def runes_ascii)

lemma bearer_header:
  assumes "trim_space s = s" "s \<noteq> ''''"
  shows "bearer (''Bearer '' @ s) = s"
proof -
  have low: "list_all is_ascii ''Bearer ''" "list_all is_ascii ''bearer ''"
    by (simp_all add: is_ascii_def byte_def)
  have t: "trim_space (''Bearer '' @ s) = ''Bearer '' @ s"
    using trim_space_prefix [OF assms low(1)] by (simp add: ascii_space_def byte_def)
  have e: "EqualFold ''Bearer '' ''bearer ''"
    by (simp only: EqualFold_def fold_name_ascii [OF low(1)] fold_name_ascii [OF low(2)])
      (simp add: fold_rune_def byte_def)
  have n: "length ''Bearer '' = 7" "length ''bearer '' = 7" by simp_all
  show ?thesis
    unfolding bearer_def Let_def t
    using assms e by (simp add: n del: append_Cons)
qed

subsection \<open>What a request does to the session\<close>

text \<open>
  Property C10. The authentication gate. A request without the local secret changes nothing: the
  session, the world (so nothing is sent to the provider) and the shutdown hook are untouched, and
  on every guarded route the answer is 401.
\<close>

theorem unauthorized_changes_nothing:
  assumes "\<not> checkSecret srv rq"
  shows "sv_Session (handle refresh now wrote srv rq w) = srv_Session srv
    \<and> sv_World (handle refresh now wrote srv rq w) = w \<and> \<not> sv_Shutdown (handle refresh now wrote srv rq w)
    \<and> (route_of (ar_Method rq) (ar_Path rq) \<in> {RHealth, RReady, RNotFound, RMethodNotAllowed}
       \<or> sv_Response (handle refresh now wrote srv rq w) = unauthorized_response)"
  using assms
  by (cases "route_of (ar_Method rq) (ar_Path rq)")
    (simp_all add: handle_def handleToken_def handleLogout_def handleHandoff_def handleStatus_def reply_only_def)

definition demo_server :: Server where
  "demo_server = \<lparr>srv_Session = demo_session, srv_Secret = '''', srv_OnLogout = True\<rparr>"

theorem unauthorized_changes_nothing_witness:
  "sv_Response (handle (Refresh (stub_env (\<lambda>_. TransportError))) (Now (stub_env (\<lambda>_. TransportError))) True demo_server
      \<lparr>ar_Method = ''POST'', ar_Path = ''/handoff'', ar_Authorization = ''Bearer guess''\<rparr> (stub_world 0)) = unauthorized_response"
  using unauthorized_changes_nothing [of demo_server "\<lparr>ar_Method = ''POST'', ar_Path = ''/handoff'', ar_Authorization = ''Bearer guess''\<rparr>"
      "Refresh (stub_env (\<lambda>_. TransportError))" "Now (stub_env (\<lambda>_. TransportError))" True "stub_world 0"]
  by (auto simp: checkSecret_def demo_server_def secretEqual_iff route_of_def)

text \<open>What can be seen of a session from outside: everything but the tokens and the endpoint.\<close>

definition same_view :: "Session \<Rightarrow> Session \<Rightarrow> bool" where
  "same_view s s' \<longleftrightarrow>
     state s = state s' \<and> expiresAt s = expiresAt s' \<and> hasExpiry s = hasExpiry s' \<and> lastError s = lastError s'
     \<and> (accessToken s = '''' \<longleftrightarrow> accessToken s' = '''')"

text \<open>
  Property C15. No token leaves except through \<open>/token\<close> and \<open>/handoff\<close> with the secret. For every
  other request the response is the same for any two sessions that differ only in their tokens
  and endpoint; it carries no information about them.
\<close>

theorem responses_hide_tokens:
  assumes "same_view s s'"
    and "checkSecret srv rq \<Longrightarrow> route_of (ar_Method rq) (ar_Path rq) \<notin> {RToken, RHandoff}"
  shows "sv_Response (handle refresh now wrote (srv\<lparr>srv_Session := s\<rparr>) rq w)
    = sv_Response (handle refresh now wrote (srv\<lparr>srv_Session := s'\<rparr>) rq w)"
proof -
  have view: "Ready t s = Ready t s'" "get_Status t s = get_Status t s'" for t
    using assms(1) by (simp_all add: same_view_def Ready_def get_Status_def hardValidLocked_def)
  have sec: "checkSecret (srv\<lparr>srv_Session := x\<rparr>) rq = checkSecret srv rq" for x
    by (simp add: checkSecret_def)
  show ?thesis
    using assms(2)
    by (cases "route_of (ar_Method rq) (ar_Path rq)"; cases "checkSecret srv rq")
      (simp_all add: handle_def handleReady_def handleStatus_def handleToken_def handleLogout_def handleHandoff_def
        reply_only_def sec view)
qed

theorem responses_hide_tokens_witness:
  "sv_Response (handle (Refresh (stub_env (\<lambda>_. TransportError))) (Now (stub_env (\<lambda>_. TransportError))) True
      (demo_server\<lparr>srv_Session := demo_session\<rparr>) \<lparr>ar_Method = ''GET'', ar_Path = ''/token'', ar_Authorization = ''''\<rparr> (stub_world 0))
   = sv_Response (handle (Refresh (stub_env (\<lambda>_. TransportError))) (Now (stub_env (\<lambda>_. TransportError))) True
      (demo_server\<lparr>srv_Session := demo_session\<lparr>accessToken := ''other''\<rparr>\<rparr>)
      \<lparr>ar_Method = ''GET'', ar_Path = ''/token'', ar_Authorization = ''''\<rparr> (stub_world 0))"
  by (rule responses_hide_tokens)
    (simp_all add: same_view_def demo_session_def checkSecret_def demo_server_def secretEqual_iff)

text \<open>
  What the server relies on: the operations of the session keep an invariant, and a handoff that
  could not be delivered can be taken back.
\<close>

locale session_service =
  fixes inv :: "'s \<Rightarrow> bool"
    and get :: "'s \<Rightarrow> 'w \<Rightarrow> (go_err + string) \<times> 's \<times> 'w"
    and handoff :: "'s \<Rightarrow> (State + HandoffData) \<times> 's"
    and restore :: "HandoffData option \<Rightarrow> 's \<Rightarrow> 's"
    and clear :: "'s \<Rightarrow> 's"
  assumes get_keeps: "inv s \<Longrightarrow> get s w = (r, s', w') \<Longrightarrow> inv s'"
    and handoff_keeps: "inv s \<Longrightarrow> handoff s = (x, s') \<Longrightarrow> inv s'"
    and restore_keeps: "inv s \<Longrightarrow> handoff s = (Inr d, s') \<Longrightarrow> inv (restore (Some d) s')"
    and clear_keeps: "inv s \<Longrightarrow> inv (clear s)"
begin

lemma delivery_keeps:
  "inv s \<Longrightarrow> handoff s = (x, s') \<Longrightarrow> inv (case x of Inl st \<Rightarrow> s' | Inr d \<Rightarrow> if wrote then s' else restore (Some d) s')"
  by (auto intro: handoff_keeps restore_keeps split: sum.splits)

end

context refresher
begin

lemma GetAccessToken_keeps: "session_inv s \<Longrightarrow> GetAccessToken refresh now s w = (r, s', w') \<Longrightarrow> session_inv s'"
  using GetAccessToken_spec by blast

end

interpretation service: session_service session_inv "GetAccessToken (Refresh env) (Now env)" Handoff RestoreHandoff Clear
proof unfold_locales
  fix s r s' and w w' :: "'a world"
  show "session_inv s \<Longrightarrow> GetAccessToken (Refresh env) (Now env) s w = (r, s', w') \<Longrightarrow> session_inv s'"
    by (rule idp.GetAccessToken_keeps)
next
  fix s s' :: Session and x
  assume "session_inv s" "Handoff s = (x, s')"
  then show "session_inv s'" using inv_Handoff [of s] by simp
next
  fix s s' :: Session and d
  assume a: "session_inv s" "Handoff s = (Inr d, s')"
  then have "handoff_ok d" "session_inv s'"
    using Handoff_ok [of s d] inv_Handoff [of s] by simp_all
  then show "session_inv (RestoreHandoff (Some d) s')" by (intro inv_RestoreHandoff) auto
qed (rule inv_Clear)

lemma GetAccessToken_keeps_pin:
  assumes "GetAccessToken (Refresh env) (Now env) s w = (r, s', w')"
  shows "keeps_pin w w'"
proof -
  obtain x w1 where x: "Refresh env (tokenEndpoint s) (refreshToken s) w = (x, w1)"
    by (cases "Refresh env (tokenEndpoint s) (refreshToken s) w")
  have "w' = w \<or> w' = w1"
    using assms x
    by (cases x) (auto simp: GetAccessToken_def refreshIfNeeded_def Let_def split: option.splits if_splits prod.splits)
  with Refresh_keeps_pin [OF x] show ?thesis by auto
qed

interpretation typed_service: session_service typed_session "GetAccessToken (Refresh env) (Now env)" Handoff RestoreHandoff Clear
proof unfold_locales
  fix s r s' and w w' :: "'a world"
  show "typed_session s \<Longrightarrow> GetAccessToken (Refresh env) (Now env) s w = (r, s', w') \<Longrightarrow> typed_session s'"
    using typed_idp.GetAccessToken_typed by blast
next
  fix s s' :: Session and x
  assume "typed_session s" "Handoff s = (x, s')"
  then show "typed_session s'" using typed_Handoff [of s] by simp
next
  fix s s' :: Session and d
  assume a: "typed_session s" "Handoff s = (Inr d, s')"
  then have "typed_handoff d" "typed_session s'"
    using typed_Handoff_data [of s d] typed_Handoff [of s] by simp_all
  then show "typed_session (RestoreHandoff (Some d) s')" by (intro typed_RestoreHandoff) auto
qed (rule typed_Clear)

text \<open>Whatever the operations of the session keep, every request keeps.\<close>

lemma handle_keeps:
  assumes "session_service ok (GetAccessToken refresh now) Handoff RestoreHandoff Clear" "ok (srv_Session srv)"
  shows "ok (sv_Session (handle refresh now wrote srv rq w))"
proof (cases "route_of (ar_Method rq) (ar_Path rq)")
  case RToken
  obtain r s w' where g: "GetAccessToken refresh now (srv_Session srv) w = (r, s, w')"
    by (cases "GetAccessToken refresh now (srv_Session srv) w")
  with RToken assms(2) session_service.get_keeps [OF assms(1,2) g] show ?thesis
    by (simp add: handle_def handleToken_def reply_only_def split: sum.splits)
next
  case RLogout
  with assms(2) session_service.clear_keeps [OF assms(1)] show ?thesis
    by (simp add: handle_def handleLogout_def reply_only_def)
next
  case RHandoff
  obtain x s where h: "Handoff (srv_Session srv) = (x, s)" by (cases "Handoff (srv_Session srv)")
  with RHandoff assms(2) session_service.delivery_keeps [OF assms(1,2) h, of wrote] show ?thesis
    by (auto simp: handle_def handleHandoff_def reply_only_def Let_def split: sum.splits)
qed (use assms(2) in \<open>simp_all add: handle_def reply_only_def\<close>)

lemma handle_keeps_pin: "keeps_pin w (sv_World (handle (Refresh env) (Now env) wrote srv rq w))"
proof (cases "route_of (ar_Method rq) (ar_Path rq)")
  case RToken
  obtain r s w' where g: "GetAccessToken (Refresh env) (Now env) (srv_Session srv) w = (r, s, w')"
    by (cases "GetAccessToken (Refresh env) (Now env) (srv_Session srv) w")
  with RToken GetAccessToken_keeps_pin [OF g] show ?thesis
    by (simp add: handle_def handleToken_def reply_only_def split: sum.splits)
qed (simp_all add: handle_def handleHandoff_def handleLogout_def reply_only_def Let_def split: sum.splits prod.splits)

text \<open>
  Property C14. Every request keeps the invariant of the session (tokens only while it is ready) and
  the pin: whatever a client sends, with or without the secret, all requests the daemon makes on
  its behalf go to the x.ai origin.
\<close>

theorem handle_keeps_invariant:
  assumes "session_inv (srv_Session srv)"
  shows "session_inv (sv_Session (handle (Refresh env) (Now env) wrote srv rq w))
    \<and> keeps_pin w (sv_World (handle (Refresh env) (Now env) wrote srv rq w))"
  by (intro conjI handle_keeps [OF service.session_service_axioms] handle_keeps_pin) (rule assms)

theorem handle_keeps_invariant_witness:
  "session_inv (sv_Session (handle (Refresh (stub_env (\<lambda>_. Reply 403 NoLocation '''')))
     (Now (stub_env (\<lambda>_. Reply 403 NoLocation ''''))) True demo_server
     \<lparr>ar_Method = ''POST'', ar_Path = ''/logout'', ar_Authorization = ''Bearer x''\<rparr> (stub_world 0)))"
  using handle_keeps_invariant [of demo_server "stub_env (\<lambda>_. Reply 403 NoLocation '''')" True
      "\<lparr>ar_Method = ''POST'', ar_Path = ''/logout'', ar_Authorization = ''Bearer x''\<rparr>" "stub_world 0"] demo_session_inv
  by (simp add: demo_server_def)

text \<open>
  Every request keeps the type of the session: whatever a client sends, the tokens the
  daemon holds stay valid UTF-8, and not blank while it is ready, so that they survive the JSON of the
  local API and of a handoff.
\<close>

theorem handle_keeps_typed:
  assumes "typed_session (srv_Session srv)"
  shows "typed_session (sv_Session (handle (Refresh env) (Now env) wrote srv rq w))"
  by (rule handle_keeps [OF typed_service.session_service_axioms assms])

theorem handle_keeps_typed_witness:
  "typed_session (sv_Session (handle (Refresh (stub_env (\<lambda>_. Reply 403 NoLocation '''')))
     (Now (stub_env (\<lambda>_. Reply 403 NoLocation ''''))) True demo_server
     \<lparr>ar_Method = ''POST'', ar_Path = ''/logout'', ar_Authorization = ''Bearer x''\<rparr> (stub_world 0)))"
  by (rule handle_keeps_typed) (simp add: demo_server_def demo_session_typed)

text \<open>
  \<open>handleHandoff\<close> goes by the result of \<^verbatim>\<open>Write\<close>. With the secret, on a ready session: when \<^verbatim>\<open>Write\<close> fails the
  daemon keeps serving, with its credentials unchanged and no shutdown; when it does not, the session is
  drained, the hook runs, and a second handoff is refused with 409. What arrives is the matter of
  \<open>handoff_outcomes\<close> (theory \<open>Takeover\<close>).
\<close>

theorem handoff_delivery:
  assumes "checkSecret srv rq" "route_of (ar_Method rq) (ar_Path rq) = RHandoff" "state (srv_Session srv) = StateReady"
  shows "handle refresh now False srv rq w =
      \<lparr>sv_Response = \<lparr>rs_Status = 200, rs_ContentType = ''application/json'',
         rs_Body = json_print (json_map (handoff_body (case Handoff (srv_Session srv) of (Inr d, s) \<Rightarrow> d)))\<rparr>,
       sv_Session = (srv_Session srv)\<lparr>lastError := ''''\<rparr>, sv_World = w, sv_Shutdown = False\<rparr>
    \<and> state (sv_Session (handle refresh now True srv rq w)) = StateHandedOff
    \<and> refreshToken (sv_Session (handle refresh now True srv rq w)) = ''''
    \<and> sv_Shutdown (handle refresh now True srv rq w) = srv_OnLogout srv
    \<and> rs_Status (sv_Response (handle refresh now b
        (srv\<lparr>srv_Session := sv_Session (handle refresh now True srv rq w)\<rparr>) rq w)) = 409"
  using assms
  by (simp add: handle_def handleHandoff_def Handoff_def wipe_def RestoreHandoff_def reply_only_def Let_def
      checkSecret_def writeJSON_def)

lemma secretEqual_abc: "secretEqual ''abc'' ''abc''"
  using Sum256_abc by (simp add: secretEqual_iff)

lemma trim_abc: "trim_space ''abc'' = ''abc''"
  by (simp add: string_eval)

theorem handoff_delivery_witness:
  "sv_Session (handle (Refresh (stub_env (\<lambda>_. TransportError))) (Now (stub_env (\<lambda>_. TransportError))) False
      (demo_server\<lparr>srv_Secret := ''abc''\<rparr>) \<lparr>ar_Method = ''POST'', ar_Path = ''/handoff'', ar_Authorization = ''Bearer '' @ ''abc''\<rparr> (stub_world 0))
   = demo_session"
  using handoff_delivery [of "demo_server\<lparr>srv_Secret := ''abc''\<rparr>"
      "\<lparr>ar_Method = ''POST'', ar_Path = ''/handoff'', ar_Authorization = ''Bearer '' @ ''abc''\<rparr>"
      "Refresh (stub_env (\<lambda>_. TransportError))" "Now (stub_env (\<lambda>_. TransportError))" "stub_world 0" True]
    bearer_header [OF trim_abc] secretEqual_abc
  by (simp add: checkSecret_def demo_server_def route_of_def demo_session_def)

end
