(* ===== verification/Go_Path.thy ===== *)
theory Go_Path
  imports Go_Strings
begin

text \<open>
  The functions of Go's package \<^verbatim>\<open>path/filepath\<close> the program uses, as they work on Unix: \<^verbatim>\<open>Clean\<close>,
  \<^verbatim>\<open>Join\<close> and \<^verbatim>\<open>Dir\<close>. A path is cleaned by a walk over its elements with a stack; the result of
  cleaning is a normal form (\<open>path_clean_idem\<close>).
\<close>

abbreviation slash :: char where
  "slash \<equiv> CHR ''/''"

definition rooted :: "string \<Rightarrow> bool" where
  "rooted p \<longleftrightarrow> p \<noteq> [] \<and> hd p = slash"

text \<open>One element of the path on the stack of those before it (the last one first).\<close>

definition clean_step :: "bool \<Rightarrow> string \<Rightarrow> string list \<Rightarrow> string list" where
  "clean_step r e acc =
     (if e = '''' \<or> e = ''.'' then acc
      else if e = ''..'' then
        (case acc of
           [] \<Rightarrow> if r then [] else [e]
         | q # qs \<Rightarrow> if q = ''..'' then e # acc else qs)
      else e # acc)"

definition clean_elems :: "bool \<Rightarrow> string list \<Rightarrow> string list" where
  "clean_elems r es = rev (fold (clean_step r) es [])"

definition path_string :: "bool \<Rightarrow> string list \<Rightarrow> string" where
  "path_string r es =
     (let s = (if r then [slash] else []) @ join_with slash es in if s = '''' then ''.'' else s)"

definition path_clean :: "string \<Rightarrow> string" where
  "path_clean p = path_string (rooted p) (clean_elems (rooted p) (split_on slash p))"

text \<open>\<^verbatim>\<open>filepath.Join\<close> leaves out leading empty elements.\<close>

definition path_join :: "string list \<Rightarrow> string" where
  "path_join es =
     (let ne = dropWhile (\<lambda>e. e = '''') es in if ne = [] then '''' else path_clean (join_with slash ne))"

text \<open>\<^verbatim>\<open>filepath.Dir\<close>: everything up to the last separator, cleaned.\<close>

definition path_dir :: "string \<Rightarrow> string" where
  "path_dir p = path_clean (rev (dropWhile (\<lambda>c. c \<noteq> slash) (rev p)))"

subsection \<open>Cleaning is idempotent\<close>

text \<open>Elements a cleaned path has: no empty ones, no dots, and \<open>..\<close> only at the front of a relative path.\<close>

definition plain_elem :: "string \<Rightarrow> bool" where
  "plain_elem e \<longleftrightarrow> e \<noteq> '''' \<and> e \<noteq> ''.'' \<and> e \<noteq> ''..'' \<and> slash \<notin> set e"

definition clean_form :: "bool \<Rightarrow> string list \<Rightarrow> bool" where
  "clean_form r es \<longleftrightarrow> (\<exists>n ps. es = replicate n ''..'' @ ps \<and> list_all plain_elem ps \<and> (r \<longrightarrow> n = 0))"

lemma clean_form_Nil [simp]: "clean_form r []"
  by (simp add: clean_form_def)

lemma clean_step_form:
  assumes "clean_form r (rev acc)" "slash \<notin> set e"
  shows "clean_form r (rev (clean_step r e acc))"
proof -
  obtain n ps where es: "rev acc = replicate n ''..'' @ ps" "list_all plain_elem ps" "r \<longrightarrow> n = 0"
    using assms(1) unfolding clean_form_def by blast
  then have acc: "acc = rev ps @ replicate n ''..''" by (metis rev_append rev_replicate rev_rev_ident)
  consider "e = '''' \<or> e = ''.''" | "e = ''..''" "ps = []" | q qs where "e = ''..''" "ps = qs @ [q]" | "plain_elem e"
    using assms(2) by (auto simp: plain_elem_def) (metis rev_exhaust)
  then show ?thesis
  proof cases
    case 1
    with assms(1) show ?thesis by (auto simp: clean_step_def)
  next
    case 2
    then have "clean_step r e acc = (if r then [] else replicate (Suc n) ''..'')"
      using acc es(3) by (cases n) (auto simp: clean_step_def)
    moreover have "clean_form False (replicate (Suc n) ''..'')"
      unfolding clean_form_def by (intro exI [of _ "Suc n"] exI [of _ "[]"]) simp
    ultimately show ?thesis by (simp del: replicate.simps)
  next
    case 3
    with es(2) have "clean_step r e acc = rev qs @ replicate n ''..''"
      by (simp add: clean_step_def acc plain_elem_def)
    with 3 es(2,3) show ?thesis by (auto simp: clean_form_def)
  next
    case 4
    then have "rev (clean_step r e acc) = replicate n ''..'' @ (ps @ [e])"
      by (simp add: clean_step_def plain_elem_def acc)
    with 4 es(2,3) show ?thesis unfolding clean_form_def by (intro exI [of _ n] exI [of _ "ps @ [e]"]) simp
  qed
qed

lemma clean_elems_form:
  assumes "\<forall>e \<in> set es. slash \<notin> set e"
  shows "clean_form r (clean_elems r es)"
proof -
  have "clean_form r (rev acc) \<Longrightarrow> clean_form r (rev (fold (clean_step r) es acc))" for acc
    using assms by (induction es arbitrary: acc) (auto simp: clean_step_form)
  then show ?thesis by (simp add: clean_elems_def)
qed

lemma fold_clean_dots: "fold (clean_step False) (replicate n ''..'') (replicate m ''..'') = replicate (n + m) ''..''"
proof (induction n arbitrary: m)
  case (Suc n)
  have "clean_step False ''..'' (replicate m ''..'') = replicate (Suc m) ''..''"
    by (cases m) (simp_all add: clean_step_def)
  with Suc [of "Suc m"] show ?case by simp
qed simp

lemma fold_clean_plain: "list_all plain_elem ps \<Longrightarrow> fold (clean_step r) ps acc = rev ps @ acc"
  by (induction ps arbitrary: acc) (auto simp: clean_step_def plain_elem_def)

lemma clean_elems_id:
  assumes "clean_form r es"
  shows "clean_elems r es = es"
proof -
  obtain n ps where es: "es = replicate n ''..'' @ ps" "list_all plain_elem ps" "r \<longrightarrow> n = 0"
    using assms unfolding clean_form_def by blast
  have "fold (clean_step r) (replicate n ''..'') [] = replicate n ''..''"
    using fold_clean_dots [of n 0] es(3) by (cases r) simp_all
  with es(1,2) show ?thesis by (simp add: clean_elems_def fold_clean_plain)
qed

lemma split_join: "\<forall>e \<in> set es. slash \<notin> set e \<Longrightarrow> es \<noteq> [] \<Longrightarrow> split_on slash (join_with slash es) = es"
  by (induction slash es rule: join_with.induct) (auto simp: split_on_no_sep split_on_append_sep)

lemma clean_form_elems: "clean_form r es \<Longrightarrow> e \<in> set es \<Longrightarrow> e \<noteq> '''' \<and> e \<noteq> ''.'' \<and> slash \<notin> set e"
proof -
  assume "clean_form r es" "e \<in> set es"
  then obtain n ps where "es = replicate n ''..'' @ ps" "list_all plain_elem ps" "e \<in> set es"
    unfolding clean_form_def by blast
  then have "e = ''..'' \<or> plain_elem e"
    by (cases n) (simp_all add: list_all_iff, blast+)
  then show ?thesis
    by (elim disjE) (simp_all add: plain_elem_def)
qed

lemma join_hd: "es \<noteq> [] \<Longrightarrow> hd es \<noteq> [] \<Longrightarrow> join_with d es \<noteq> [] \<and> hd (join_with d es) = hd (hd es)"
  by (cases "(d, es)" rule: join_with.cases) auto

lemma path_clean_path_string:
  assumes "clean_form r es"
  shows "path_clean (path_string r es) = path_string r es"
proof (cases "es = []")
  case True
  then show ?thesis by (cases r) (simp_all add: path_string_def path_clean_def rooted_def clean_elems_def clean_step_def)
next
  case False
  then have e: "hd es \<noteq> ''''" "slash \<notin> set (hd es)"
    using clean_form_elems [OF assms, of "hd es"] by auto
  then have j: "join_with slash es \<noteq> []" "hd (join_with slash es) \<noteq> slash"
    using join_hd [OF False e(1), of slash] by (auto simp: in_set_conv_nth hd_conv_nth)
  have sp: "split_on slash (join_with slash es) = es"
    using clean_form_elems [OF assms] False by (auto intro!: split_join)
  have "clean_elems True ([] # es) = clean_elems True es" by (simp add: clean_elems_def clean_step_def)
  with j sp clean_elems_id [OF assms] show ?thesis
    by (cases r) (simp_all add: path_string_def path_clean_def rooted_def)
qed

lemma path_clean_idem: "path_clean (path_clean p) = path_clean p"
proof -
  have "clean_form (rooted p) (clean_elems (rooted p) (split_on slash p))"
    by (intro clean_elems_form) (blast dest: split_on_parts)
  from path_clean_path_string [OF this] show ?thesis
    unfolding path_clean_def [of p] .
qed

lemma path_clean_nonempty [simp]: "path_clean p \<noteq> ''''"
  by (simp add: path_clean_def path_string_def Let_def)

lemma path_join_clean: "path_join es = '''' \<or> path_clean (path_join es) = path_join es"
  by (simp add: path_join_def path_clean_idem Let_def)

lemma path_clean_elem:
  assumes "plain_elem e"
  shows "path_clean (slash # e) = slash # e"
  using path_clean_path_string [of True "[e]"] assms
  by (simp add: path_string_def clean_form_def)

end
