(* ===== verification/Client.thy ===== *)
theory Client
  imports Server Go_Path
begin

text \<open>
  The SDK of \<^verbatim>\<open>client/\<close>: \<^verbatim>\<open>client.go\<close>, \<^verbatim>\<open>transport.go\<close>, \<^verbatim>\<open>errors.go\<close> and \<^verbatim>\<open>socketpath_unix.go\<close>. The
  methods of a \<^verbatim>\<open>Client\<close> are functions of the HTTP call over the socket (\<open>call\<close>), the environment
  variables (\<open>getenv\<close>, empty when unset) and, for \<open>WaitReady\<close>, the timer. A \<^verbatim>\<open>*Client\<close> is an option,
  \<open>None\<close> for \<^verbatim>\<open>nil\<close>.

  \<open>daemon\<close> connects the client to the server of theory \<open>Server\<close>; the end-to-end theorems say what
  a method returns in terms of the session of the daemon.
\<close>

subsection \<open>Errors\<close>

datatype client_sentinel =
  CErrUnreachable | CErrUnauthorized | CErrReauthRequired | CErrTierDenied | CErrUnavailable

text \<open>
  The errors the package builds: a text; a text after a sentinel (\<^verbatim>\<open>%w: ...\<close>); a text before another
  error; the reason \<open>WaitReady\<close> remembers. The text of a library error is left out.
\<close>

datatype client_err =
    CPlain string
  | CWrap client_sentinel string
  | CPrefix string client_err
  | CDaemonState string

text \<open>\<^verbatim>\<open>errors.Is\<close> with one of the sentinels.\<close>

fun client_Is :: "client_err \<Rightarrow> client_sentinel \<Rightarrow> bool" where
  "client_Is (CWrap s t) target \<longleftrightarrow> s = target"
| "client_Is (CPrefix t e) target \<longleftrightarrow> client_Is e target"
| "client_Is (CPlain t) target \<longleftrightarrow> False"
| "client_Is (CDaemonState t) target \<longleftrightarrow> False"

subsection \<open>Construction\<close>

definition EnvSocket :: string where
  "EnvSocket = ''XAI_OAUTH_SOCKET''"

definition EnvSecret :: string where
  "EnvSecret = ''XAI_OAUTH_SECRET''"

definition httpHost :: string where
  "httpHost = ''http://xai-oauth.local''"

record Client =
  cl_secret :: string
  cl_socket :: string

text \<open>\<^verbatim>\<open>os.TempDir\<close> and \<^verbatim>\<open>os.UserHomeDir\<close>, the latter empty for an error.\<close>

definition TempDir :: "(string \<Rightarrow> string) \<Rightarrow> string" where
  "TempDir getenv = (if getenv ''TMPDIR'' = '''' then ''/tmp'' else getenv ''TMPDIR'')"

definition DefaultSocketPath :: "(string \<Rightarrow> string) \<Rightarrow> string" where
  "DefaultSocketPath getenv =
     (let runtime = trim_space (getenv ''XDG_RUNTIME_DIR''); home = getenv ''HOME'' in
      if runtime \<noteq> '''' then path_join [runtime, ''xai-oauth'', ''daemon.sock'']
      else if home = '''' then path_join [TempDir getenv, ''xai-oauth'', ''daemon.sock'']
      else path_join [home, ''.xai-oauth'', ''daemon.sock''])"

definition New :: "(string \<Rightarrow> string) \<Rightarrow> string \<Rightarrow> client_err + Client" where
  "New getenv cfg_SocketPath =
     (let secret = trim_space (getenv EnvSecret) in
      if secret = '''' then Inl (CPlain (''xai-oauth client: secret is required (set env '' @ EnvSecret @ '')''))
      else
        (let sock1 = trim_space cfg_SocketPath;
             sock2 = (if sock1 = '''' then trim_space (getenv EnvSocket) else sock1);
             sock3 = (if sock2 = '''' then DefaultSocketPath getenv else sock2);
             sock = path_clean sock3 in
         if sock = ''.'' \<or> sock = ''/'' then Inl (CPlain ''xai-oauth client: invalid socket path'')
         else Inr \<lparr>cl_secret = secret, cl_socket = sock\<rparr>))"

definition require :: "Client option \<Rightarrow> client_err option" where
  "require c = (if c = None then Some (CPlain ''xai-oauth client: nil client'') else None)"

definition SocketPath :: "Client option \<Rightarrow> string" where
  "SocketPath oc = (case oc of None \<Rightarrow> '''' | Some c \<Rightarrow> cl_socket c)"

subsection \<open>One call\<close>

text \<open>
  What \<^verbatim>\<open>http.Client.Do\<close> on the socket gives: an error with its text, or a status, the body, and
  whether reading it failed.
\<close>

datatype do_result = DoErr string | DoReply int string bool

type_synonym 'w unix_call = "api_request \<Rightarrow> 'w \<Rightarrow> do_result \<times> 'w"

definition doJSON :: "'w unix_call \<Rightarrow> Client \<Rightarrow> string \<Rightarrow> string \<Rightarrow> 'w \<Rightarrow> (client_err + string \<times> int) \<times> 'w" where
  "doJSON call c method path w =
     (case url_parse (httpHost @ path) of
        None \<Rightarrow> (Inl (CPlain ''xai-oauth client: build request''), w)
      | Some _ \<Rightarrow>
          (case call \<lparr>ar_Method = method, ar_Path = path, ar_Authorization = ''Bearer '' @ cl_secret c\<rparr> w of
             (DoErr t, w') \<Rightarrow> (Inl (CWrap CErrUnreachable ('' (socket '' @ cl_socket c @ ''): '' @ t)), w')
           | (DoReply status body failed, w') \<Rightarrow>
               if failed then (Inl (CPlain ''xai-oauth client: read body''), w')
               else (Inr (limit_body body, status), w')))"

record tokenOK =
  ok_AccessToken :: string
  ok_TokenType :: string

definition tokenOK_fields :: "tokenOK field list" where
  "tokenOK_fields =
     [str_field ''access_token'' (\<lambda>v s. s\<lparr>ok_AccessToken := v\<rparr>), str_field ''token_type'' (\<lambda>v s. s\<lparr>ok_TokenType := v\<rparr>)]"

record tokenErr =
  te_Error :: string
  te_Message :: string

definition tokenErr_fields :: "tokenErr field list" where
  "tokenErr_fields =
     [str_field ''error'' (\<lambda>v s. s\<lparr>te_Error := v\<rparr>), str_field ''message'' (\<lambda>v s. s\<lparr>te_Message := v\<rparr>)]"

definition mapHTTPError :: "int \<Rightarrow> tokenErr \<Rightarrow> client_err" where
  "mapHTTPError status er =
     (let code = trim_space (te_Error er); msg1 = trim_space (te_Message er);
          msg2 = (if msg1 = '''' then code else msg1);
          msg = (if msg2 = '''' then ''HTTP '' @ itoa status else msg2) in
      if status = 401 \<and> code = ''reauth_required'' then CWrap CErrReauthRequired ('': '' @ msg)
      else if status = 401 \<and> (code = ''unauthorized'' \<or> code = '''') then CWrap CErrUnauthorized ('': '' @ msg)
      else if status = 403 \<and> code = ''tier_denied'' then CWrap CErrTierDenied ('': '' @ msg)
      else if status = 503 \<or> code = ''unavailable'' then CWrap CErrUnavailable ('': '' @ msg)
      else CPlain (''xai-oauth client: '' @ msg @ '' (HTTP '' @ itoa status @ '')''))"

text \<open>\<^verbatim>\<open>var er tokenErr; _ = json.Unmarshal(body, &er)\<close>\<close>

definition error_of :: "string \<Rightarrow> tokenErr" where
  "error_of body = fst (json_unmarshal tokenErr_fields body \<lparr>te_Error = '''', te_Message = ''''\<rparr>)"

subsection \<open>Methods\<close>

definition Get :: "'w unix_call \<Rightarrow> Client option \<Rightarrow> 'w \<Rightarrow> (client_err + string) \<times> 'w" where
  "Get call oc w =
     (case require oc of
        Some e \<Rightarrow> (Inl e, w)
      | None \<Rightarrow>
          (case doJSON call (the oc) ''GET'' ''/token'' w of
             (Inl e, w') \<Rightarrow> (Inl e, w')
           | (Inr (body, status), w') \<Rightarrow>
               ((if status = 200 then
                   (let (ok, bad) = json_unmarshal tokenOK_fields body \<lparr>ok_AccessToken = '''', ok_TokenType = ''''\<rparr> in
                    if bad then Inl (CPlain ''xai-oauth client: invalid token JSON'')
                    else if trim_space (ok_AccessToken ok) = '''' then Inl (CPlain ''xai-oauth client: empty access_token'')
                    else Inr (ok_AccessToken ok))
                 else Inl (mapHTTPError status (error_of body))), w')))"

record ClientStatus =
  cs_State :: string
  cs_HasExpiry :: bool
  cs_ExpiresAt :: gotime
  cs_TokenValid :: bool
  cs_LastError :: string

definition empty_ClientStatus :: ClientStatus where
  "empty_ClientStatus =
     \<lparr>cs_State = '''', cs_HasExpiry = False, cs_ExpiresAt = 0, cs_TokenValid = False, cs_LastError = ''''\<rparr>"

text \<open>
  \<^verbatim>\<open>Time.UnmarshalJSON\<close> is stricter than \<^verbatim>\<open>time.Parse\<close>: the hour has two digits, a fraction begins
  with a period, and the zone is below 24:00.
\<close>

definition rfc3339_strict :: "string \<Rightarrow> gotime option" where
  "rfc3339_strict s =
     (case rfc3339_parse s of
        None \<Rightarrow> None
      | Some t \<Rightarrow>
          if s ! 12 = CHR '':'' \<or> s ! 19 = CHR '','' then None
          else if last s \<noteq> CHR ''Z''
             \<and> (24 \<le> digits_val (take 2 (drop (length s - 5) s)) \<or> 60 \<le> digits_val (drop (length s - 2) s))
          then None
          else Some t)"

definition time_field :: "string \<Rightarrow> (gotime \<Rightarrow> 's \<Rightarrow> 's) \<Rightarrow> 's field" where
  "time_field name upd =
     (name, \<lambda>j s. case j of JStr v \<Rightarrow> map_option (\<lambda>t. upd t s) (rfc3339_strict v) | JNull \<Rightarrow> Some s | _ \<Rightarrow> None)"

definition ClientStatus_fields :: "ClientStatus field list" where
  "ClientStatus_fields =
     [str_field ''state'' (\<lambda>v s. s\<lparr>cs_State := v\<rparr>), bool_field ''has_expiry'' (\<lambda>v s. s\<lparr>cs_HasExpiry := v\<rparr>),
      time_field ''expires_at'' (\<lambda>v s. s\<lparr>cs_ExpiresAt := v\<rparr>), bool_field ''token_valid'' (\<lambda>v s. s\<lparr>cs_TokenValid := v\<rparr>),
      str_field ''last_error'' (\<lambda>v s. s\<lparr>cs_LastError := v\<rparr>)]"

definition client_Status :: "'w unix_call \<Rightarrow> Client option \<Rightarrow> 'w \<Rightarrow> (client_err + ClientStatus) \<times> 'w" where
  "client_Status call oc w =
     (case require oc of
        Some e \<Rightarrow> (Inl e, w)
      | None \<Rightarrow>
          (case doJSON call (the oc) ''GET'' ''/status'' w of
             (Inl e, w') \<Rightarrow> (Inl e, w')
           | (Inr (body, status), w') \<Rightarrow>
               ((if status \<noteq> 200 then Inl (mapHTTPError status (error_of body))
                 else
                   (let (st, bad) = json_unmarshal ClientStatus_fields body empty_ClientStatus in
                    if bad then Inl (CPlain ''xai-oauth client: invalid status JSON'') else Inr st)), w')))"

record ready_reply =
  rr_Ready :: bool
  rr_State :: string

definition ready_fields :: "ready_reply field list" where
  "ready_fields = [bool_field ''ready'' (\<lambda>v s. s\<lparr>rr_Ready := v\<rparr>), str_field ''state'' (\<lambda>v s. s\<lparr>rr_State := v\<rparr>)]"

definition client_Ready :: "'w unix_call \<Rightarrow> Client option \<Rightarrow> 'w \<Rightarrow> (client_err + bool \<times> string) \<times> 'w" where
  "client_Ready call oc w =
     (case require oc of
        Some e \<Rightarrow> (Inl e, w)
      | None \<Rightarrow>
          (case doJSON call (the oc) ''GET'' ''/ready'' w of
             (Inl e, w') \<Rightarrow> (Inl e, w')
           | (Inr (body, status), w') \<Rightarrow>
               (let out = fst (json_unmarshal ready_fields body \<lparr>rr_Ready = False, rr_State = ''''\<rparr>) in
                if status = 200 \<and> rr_Ready out then (Inr (True, ''ready''), w')
                else (Inr (False, if rr_State out = '''' then ''not_ready'' else rr_State out), w'))))"

definition client_Logout :: "'w unix_call \<Rightarrow> Client option \<Rightarrow> 'w \<Rightarrow> client_err option \<times> 'w" where
  "client_Logout call oc w =
     (case require oc of
        Some e \<Rightarrow> (Some e, w)
      | None \<Rightarrow>
          (case doJSON call (the oc) ''POST'' ''/logout'' w of
             (Inl e, w') \<Rightarrow> (Some e, w')
           | (Inr (body, status), w') \<Rightarrow>
               (if status \<noteq> 200 then Some (mapHTTPError status (error_of body)) else None, w')))"

definition Health :: "'w unix_call \<Rightarrow> Client option \<Rightarrow> 'w \<Rightarrow> client_err option \<times> 'w" where
  "Health call oc w =
     (case require oc of
        Some e \<Rightarrow> (Some e, w)
      | None \<Rightarrow>
          (case doJSON call (the oc) ''GET'' ''/health'' w of
             (Inl e, w') \<Rightarrow> (Some e, w')
           | (Inr (body, status), w') \<Rightarrow>
               (if status \<noteq> 200 then Some (CPlain (''xai-oauth client: health HTTP '' @ itoa status)) else None, w')))"

text \<open>
  The loop of \<^verbatim>\<open>WaitReady\<close> on a status call and a pause; the pause tells whether the context ended
  before the 50 ms were over. What the code keeps in \<^verbatim>\<open>last\<close> is always set in the same round.
  \<open>fuel\<close> bounds the rounds.
\<close>

fun wait_loop ::
  "nat \<Rightarrow> ('w \<Rightarrow> (client_err + ClientStatus) \<times> 'w) \<Rightarrow> ('w \<Rightarrow> bool \<times> 'w) \<Rightarrow> 'w \<Rightarrow> (client_err option \<times> 'w) option"
where
  "wait_loop 0 status pause w = None"
| "wait_loop (Suc n) status pause w =
     (let again = (\<lambda>last w1.
        (case pause w1 of
           (True, w2) \<Rightarrow> Some (Some (CPrefix ''wait ready: '' last), w2)
         | (False, w2) \<Rightarrow> wait_loop n status pause w2))
      in
      case status w of
        (Inr st, w1) \<Rightarrow>
          if cs_State st = ''ready'' then Some (None, w1)
          else if cs_State st = ''reauth_required'' then
            Some (Some (CWrap CErrReauthRequired ('': daemon state '' @ cs_State st)), w1)
          else if cs_State st = ''tier_denied'' then
            Some (Some (CWrap CErrTierDenied ('': daemon state '' @ cs_State st)), w1)
          else again (CDaemonState (cs_State st)) w1
      | (Inl e, w1) \<Rightarrow>
          if client_Is e CErrUnauthorized then Some (Some e, w1) else again e w1)"

definition WaitReady ::
  "nat \<Rightarrow> 'w unix_call \<Rightarrow> ('w \<Rightarrow> bool \<times> 'w) \<Rightarrow> Client option \<Rightarrow> 'w \<Rightarrow> (client_err option \<times> 'w) option"
where
  "WaitReady fuel call pause oc w =
     (case require oc of
        Some e \<Rightarrow> Some (Some e, w)
      | None \<Rightarrow> wait_loop fuel (client_Status call oc) pause w)"

subsection \<open>The bearer transport\<close>

text \<open>An outgoing request of the caller: its URL, and its \<^verbatim>\<open>Authorization\<close> header as \<^verbatim>\<open>Header.Get\<close> gives it.\<close>

record out_request =
  or_URL :: "url option"
  or_Authorization :: string

definition bearerEligible :: "out_request option \<Rightarrow> bool" where
  "bearerEligible oreq =
     (case oreq of
        None \<Rightarrow> False
      | Some req \<Rightarrow>
          (case or_URL req of
             None \<Rightarrow> False
           | Some u \<Rightarrow>
               if u_Scheme u \<noteq> ''https'' then False
               else if or_Authorization req \<noteq> '''' then False
               else IsXAIHost (hostname u)))"

text \<open>\<open>base\<close> is the transport below; its result is passed on.\<close>

definition RoundTrip ::
  "'w unix_call \<Rightarrow> (out_request option \<Rightarrow> 'w \<Rightarrow> (client_err + 'r) \<times> 'w) \<Rightarrow> Client option \<Rightarrow> out_request option \<Rightarrow> 'w
     \<Rightarrow> (client_err + 'r) \<times> 'w"
where
  "RoundTrip call base oc oreq w =
     (if \<not> bearerEligible oreq then base oreq w
      else
        (case Get call oc w of
           (Inl e, w1) \<Rightarrow> (Inl (CPrefix ''xai-oauth transport: '' e), w1)
         | (Inr tok, w1) \<Rightarrow> base (map_option (\<lambda>req. req\<lparr>or_Authorization := ''Bearer '' @ tok\<rparr>) oreq) w1))"

subsection \<open>Construction and errors\<close>

text \<open>
  What \<open>New\<close> builds. A client exists exactly when \<^verbatim>\<open>XAI_OAUTH_SECRET\<close> holds more than white space
  and the path is not the current directory or the root; its secret is that variable trimmed, never
  anything of the configuration, and its path is in normal form and taken from the configuration,
  the environment and the default in this order.
\<close>

theorem New_spec:
  "case New getenv cfg of
     Inl e \<Rightarrow> trim_space (getenv EnvSecret) = ''''
        \<or> (\<exists>p \<in> {trim_space cfg, trim_space (getenv EnvSocket), DefaultSocketPath getenv}. path_clean p \<in> {''.'', ''/''})
   | Inr c \<Rightarrow> cl_secret c = trim_space (getenv EnvSecret) \<and> cl_secret c \<noteq> ''''
        \<and> path_clean (cl_socket c) = cl_socket c \<and> cl_socket c \<notin> {'''', ''.'', ''/''}
        \<and> cl_socket c = path_clean
            (if trim_space cfg \<noteq> '''' then trim_space cfg
             else if trim_space (getenv EnvSocket) \<noteq> '''' then trim_space (getenv EnvSocket)
             else DefaultSocketPath getenv)"
  by (auto simp: New_def Let_def path_clean_idem split: sum.splits if_splits)

text \<open>
  How an HTTP failure of the daemon is classified. The sentinel a caller can match with \<^verbatim>\<open>errors.Is\<close>
  is a function of the status and the error code alone, and at most one matches.
\<close>

theorem mapHTTPError_spec:
  "client_Is (mapHTTPError status er) s \<longleftrightarrow>
     (let code = trim_space (te_Error er) in
      case s of
        CErrReauthRequired \<Rightarrow> status = 401 \<and> code = ''reauth_required''
      | CErrUnauthorized \<Rightarrow> status = 401 \<and> (code = ''unauthorized'' \<or> code = '''')
      | CErrTierDenied \<Rightarrow> status = 403 \<and> code = ''tier_denied''
      | CErrUnavailable \<Rightarrow> status = 503 \<or> code = ''unavailable''
      | CErrUnreachable \<Rightarrow> False)"
  by (cases s) (auto simp: mapHTTPError_def Let_def)

subsection \<open>The bearer transport\<close>

lemma bearerEligible_iff:
  "bearerEligible oreq \<longleftrightarrow>
     (\<exists>req u. oreq = Some req \<and> or_URL req = Some u \<and> u_Scheme u = ''https'' \<and> or_Authorization req = ''''
        \<and> IsXAIHost (hostname u))"
  by (auto simp: bearerEligible_def split: option.splits)

text \<open>
  Property C17. The access token goes to x.ai over https and nowhere else. Whatever the transport passes to the
  one below is the caller's request itself, with no token fetched, or, only for an https request to
  a pinned host without an \<^verbatim>\<open>Authorization\<close> header of its own, that request with the token; and a
  failed fetch sends nothing.
\<close>

theorem RoundTrip_pins_bearer:
  "(\<exists>w1 req. RoundTrip call base oc oreq w = base req w1
      \<and> (req = oreq \<and> w1 = w
         \<or> (\<exists>r u tok. oreq = Some r \<and> or_URL r = Some u \<and> u_Scheme u = ''https'' \<and> IsXAIHost (hostname u)
              \<and> or_Authorization r = '''' \<and> Get call oc w = (Inr tok, w1)
              \<and> req = Some (r\<lparr>or_Authorization := ''Bearer '' @ tok\<rparr>))))
   \<or> (\<exists>e w1. Get call oc w = (Inl e, w1) \<and> bearerEligible oreq
        \<and> RoundTrip call base oc oreq w = (Inl (CPrefix ''xai-oauth transport: '' e), w1))"
proof (cases "bearerEligible oreq")
  case False
  then show ?thesis by (auto simp: RoundTrip_def)
next
  case True
  then obtain r u where req: "oreq = Some r" "or_URL r = Some u" "u_Scheme u = ''https''" "or_Authorization r = ''''"
      "IsXAIHost (hostname u)"
    unfolding bearerEligible_iff by blast
  obtain x w1 where g: "Get call oc w = (x, w1)" by (cases "Get call oc w")
  show ?thesis
  proof (cases x)
    case (Inl e)
    with True g show ?thesis by (auto simp: RoundTrip_def)
  next
    case (Inr tok)
    with True g req have "RoundTrip call base oc oreq w = base (Some (r\<lparr>or_Authorization := ''Bearer '' @ tok\<rparr>)) w1"
      by (simp add: RoundTrip_def)
    with req g Inr show ?thesis by blast
  qed
qed

subsection \<open>Waiting\<close>

text \<open>
  What \<open>WaitReady\<close> needs to return: a bound on the pauses that are left before the context ends,
  which a status call does not raise and a pause lowers.
\<close>

locale waiting =
  fixes status :: "'w \<Rightarrow> (client_err + ClientStatus) \<times> 'w"
    and pause :: "'w \<Rightarrow> bool \<times> 'w"
    and left :: "'w \<Rightarrow> nat"
  assumes status_left: "status w = (x, w') \<Longrightarrow> left w' \<le> left w"
    and pause_left: "pause w = (False, w') \<Longrightarrow> left w' < left w"
begin

lemma wait_returns: "left w < n \<Longrightarrow> \<exists>r. wait_loop n status pause w = Some r"
proof (induction n arbitrary: w)
  case (Suc n)
  obtain x w1 where s: "status w = (x, w1)" by (cases "status w")
  obtain d w2 where p: "pause w1 = (d, w2)" by (cases "pause w1")
  have "\<not> d \<Longrightarrow> \<exists>r. wait_loop n status pause w2 = Some r"
    using Suc status_left [OF s] pause_left [of w1 w2] p by simp
  with s p show ?case by (cases x; cases d) auto
qed simp

end

text \<open>More fuel does not change a result.\<close>

lemma wait_loop_mono: "wait_loop n status pause w = Some r \<Longrightarrow> n \<le> m \<Longrightarrow> wait_loop m status pause w = Some r"
proof (induction n arbitrary: m w)
  case (Suc n)
  then obtain k where m: "m = Suc k" "n \<le> k" by (cases m) auto
  obtain x w1 where s: "status w = (x, w1)" by (cases "status w")
  obtain d w2 where p: "pause w1 = (d, w2)" by (cases "pause w1")
  show ?case
    using Suc.prems(1) Suc.IH [OF _ m(2)] s p by (cases x; cases d) (auto simp: m(1) split: if_splits)
qed simp

text \<open>The result of the last status call decides the result of the loop.\<close>

fun verdict :: "client_err + ClientStatus \<Rightarrow> client_err option \<Rightarrow> bool" where
  "verdict (Inr st) r \<longleftrightarrow>
     (if cs_State st = ''ready'' then r = None
      else if cs_State st = ''reauth_required'' then \<exists>t. r = Some (CWrap CErrReauthRequired t)
      else if cs_State st = ''tier_denied'' then \<exists>t. r = Some (CWrap CErrTierDenied t)
      else r = Some (CPrefix ''wait ready: '' (CDaemonState (cs_State st))))"
| "verdict (Inl e) r \<longleftrightarrow>
     (if client_Is e CErrUnauthorized then r = Some e else r = Some (CPrefix ''wait ready: '' e))"

lemma wait_loop_step:
  assumes "wait_loop (Suc n) status pause w = Some (r, w')"
  shows "verdict (fst (status w)) r \<and> (w' = snd (status w) \<or> pause (snd (status w)) = (True, w'))
    \<or> (\<exists>w2. wait_loop n status pause w2 = Some (r, w'))"
proof -
  obtain x w1 where s: "status w = (x, w1)" by (cases "status w")
  obtain d w2 where p: "pause w1 = (d, w2)" by (cases "pause w1")
  have again: "(case pause w1 of (True, w2) \<Rightarrow> Some (Some e, w2) | (False, w2) \<Rightarrow> wait_loop n status pause w2)
      = (if d then Some (Some e, w2) else wait_loop n status pause w2)" for e
    using p by simp
  show ?thesis
  proof (cases x)
    case (Inl e)
    with assms s p show ?thesis
      by (cases "client_Is e CErrUnauthorized"; cases d) auto
  next
    case (Inr st)
    consider "cs_State st = ''ready''" | "cs_State st = ''reauth_required''" | "cs_State st = ''tier_denied''"
      | "cs_State st \<notin> {''ready'', ''reauth_required'', ''tier_denied''}"
      by blast
    then show ?thesis
    proof cases
      case 4
      then have n: "cs_State st \<noteq> ''ready''" "cs_State st \<noteq> ''reauth_required''" "cs_State st \<noteq> ''tier_denied''"
        by blast+
      show ?thesis
        using assms unfolding wait_loop.simps Let_def s Inr prod.case sum.case if_not_P [OF n(1)] if_not_P [OF n(2)]
          if_not_P [OF n(3)] again
        by (cases d) (simp_all add: p n, blast)
    qed (use assms s Inr in auto)
  qed
qed

lemma wait_loop_verdict:
  "wait_loop n status pause w = Some (r, w') \<Longrightarrow> \<exists>v. verdict (fst (status v)) r
     \<and> (w' = snd (status v) \<or> pause (snd (status v)) = (True, w'))"
proof (induction n arbitrary: w)
  case (Suc n)
  from wait_loop_step [OF Suc.prems] Suc.IH show ?case by blast
qed simp

text \<open>
  A context with a deadline, in a state that holds the time: a call takes as long as it takes
  (\<open>delay\<close>), and \<open>select\<close> on the context and \<^verbatim>\<open>time.After(50 * time.Millisecond)\<close> ends with whichever
  comes first.
\<close>

definition pause_step :: duration where
  "pause_step = 50000000"

definition timed :: "('s \<Rightarrow> nat) \<Rightarrow> 's unix_call \<Rightarrow> (gotime \<times> 's) unix_call" where
  "timed delay call rq ts = (let (r, s') = call rq (snd ts) in (r, (fst ts + int (delay (snd ts)), s')))"

definition pause_until :: "gotime \<Rightarrow> gotime \<times> 's \<Rightarrow> bool \<times> (gotime \<times> 's)" where
  "pause_until deadline ts =
     (if deadline \<le> fst ts + pause_step then (True, (max (fst ts) deadline, snd ts))
      else (False, (fst ts + pause_step, snd ts)))"

definition pauses_left :: "gotime \<Rightarrow> gotime \<times> 's \<Rightarrow> nat" where
  "pauses_left deadline ts = nat ((deadline - fst ts) div pause_step)"

lemma doJSON_timed: "doJSON (timed delay call) c m p ts = (r, ts') \<Longrightarrow> fst ts \<le> fst ts'"
  by (auto simp: doJSON_def timed_def split: option.splits prod.splits do_result.splits if_splits)

lemma client_Status_timed: "client_Status (timed delay call) oc ts = (r, ts') \<Longrightarrow> fst ts \<le> fst ts'"
  using doJSON_timed [of delay call "the oc" "''GET''" "''/status''" ts]
  by (auto simp: client_Status_def split: option.splits prod.splits sum.splits)

interpretation deadline: waiting "client_Status (timed delay call) oc" "pause_until D" "pauses_left D"
proof unfold_locales
  fix w w' :: "gotime \<times> 'a" and x
  assume "client_Status (timed delay call) oc w = (x, w')"
  then have "fst w \<le> fst w'" by (rule client_Status_timed)
  then show "pauses_left D w' \<le> pauses_left D w"
    unfolding pauses_left_def by (intro nat_mono zdiv_mono1) (simp_all add: pause_step_def)
next
  fix w w' :: "gotime \<times> 'a"
  assume "pause_until D w = (False, w')"
  then have w: "fst w' = fst w + pause_step" "fst w + pause_step < D"
    by (auto simp: pause_until_def split: if_splits)
  then have "(D - fst w) div pause_step = (D - fst w') div pause_step + 1" "0 \<le> (D - fst w') div pause_step"
    by (simp_all add: pause_step_def)
  then show "pauses_left D w' < pauses_left D w"
    unfolding pauses_left_def by linarith
qed

text \<open>
  \<open>WaitReady\<close> returns: under a context with a deadline, against any daemon, it is done after at most one
  round more than there are pauses of 50 ms before the deadline; what a daemon answers
  cannot keep the caller waiting.
\<close>

theorem WaitReady_returns:
  "\<exists>r. WaitReady (nat ((D - t) div pause_step) + 1) (timed delay call) (pause_until D) oc (t, s) = Some r"
  using deadline.wait_returns [of D "(t, s)" "nat ((D - t) div pause_step) + 1" delay call oc]
  by (simp add: WaitReady_def pauses_left_def split: option.split)

text \<open>
  What a result of \<open>WaitReady\<close> means, with any daemon and timer. It is the verdict on one status
  call: \<open>nil\<close> only when the daemon reported \<open>ready\<close>; the reauthentication and tier sentinels only for
  these sticky states; \<open>ErrUnauthorized\<close> as it is; anything else only after the context ended.
\<close>

theorem WaitReady_sound:
  "case WaitReady fuel call pause (Some c) w of
     None \<Rightarrow> True
   | Some (r, w') \<Rightarrow>
       (\<exists>v. (r = None \<longrightarrow> (\<exists>st. client_Status call (Some c) v = (Inr st, snd (client_Status call (Some c) v)) \<and> cs_State st = ''ready''))
         \<and> (\<forall>e. r = Some e \<longrightarrow>
              (case fst (client_Status call (Some c) v) of
                 Inr st \<Rightarrow> cs_State st \<noteq> ''ready'' \<and>
                   (client_Is e CErrReauthRequired \<longleftrightarrow> cs_State st = ''reauth_required'') \<and>
                   (client_Is e CErrTierDenied \<longleftrightarrow> cs_State st = ''tier_denied'')
               | Inl e' \<Rightarrow> e = e' \<and> client_Is e' CErrUnauthorized \<or> e = CPrefix ''wait ready: '' e'))
         \<and> (w' = snd (client_Status call (Some c) v) \<or> pause (snd (client_Status call (Some c) v)) = (True, w')))"
proof (cases "WaitReady fuel call pause (Some c) w")
  case (Some x)
  then obtain r w' where x: "WaitReady fuel call pause (Some c) w = Some (r, w')" by (cases x) auto
  then have "wait_loop fuel (client_Status call (Some c)) pause w = Some (r, w')"
    by (simp add: WaitReady_def require_def)
  from wait_loop_verdict [OF this] obtain v where
    v: "verdict (fst (client_Status call (Some c) v)) r"
    "w' = snd (client_Status call (Some c) v) \<or> pause (snd (client_Status call (Some c) v)) = (True, w')"
    by blast
  obtain y v' where y: "client_Status call (Some c) v = (y, v')" by (cases "client_Status call (Some c) v")
  show ?thesis
    unfolding x option.case prod.case
  proof (intro exI [of _ v] conjI v(2))
    show "r = None \<longrightarrow> (\<exists>st. client_Status call (Some c) v = (Inr st, snd (client_Status call (Some c) v)) \<and> cs_State st = ''ready'')"
      using v(1) y by (cases y) (auto split: if_splits)
    show "\<forall>e. r = Some e \<longrightarrow>
      (case fst (client_Status call (Some c) v) of
         Inr st \<Rightarrow> cs_State st \<noteq> ''ready'' \<and>
           (client_Is e CErrReauthRequired \<longleftrightarrow> cs_State st = ''reauth_required'') \<and>
           (client_Is e CErrTierDenied \<longleftrightarrow> cs_State st = ''tier_denied'')
       | Inl e' \<Rightarrow> e = e' \<and> client_Is e' CErrUnauthorized \<or> e = CPrefix ''wait ready: '' e')"
      using v(1) y by (cases y) (auto split: if_splits)
  qed
qed simp

end
