(* ===== verification/Local_API.thy ===== *)
theory Local_API
  imports Client
begin

text \<open>
  The client of theory \<open>Client\<close> against the server of theory \<open>Server\<close>: what travels on the socket,
  and the end-to-end behaviour of the methods in terms of the daemon's session.
\<close>

subsection \<open>Flat JSON objects\<close>

fun flat_value :: "json \<Rightarrow> bool" where
  "flat_value (JStr s) \<longleftrightarrow> utf8_ok s"
| "flat_value (JNum s) \<longleftrightarrow> json_number s"
| "flat_value (JBool b) \<longleftrightarrow> True"
| "flat_value j \<longleftrightarrow> False"

definition flat :: "(string \<times> json) list \<Rightarrow> bool" where
  "flat kvs \<longleftrightarrow> list_all (\<lambda>kv. utf8_ok (fst kv) \<and> flat_value (snd kv)) kvs"

lemma flat_simps [simp]:
  "flat []" "flat (kv # kvs) \<longleftrightarrow> utf8_ok (fst kv) \<and> flat_value (snd kv) \<and> flat kvs"
  "flat (kvs @ kvs') \<longleftrightarrow> flat kvs \<and> flat kvs'"
  by (auto simp: flat_def)

lemma flat_value_ok: "flat_value j \<Longrightarrow> json_ok j \<and> json_depth j = 0"
  by (cases j) simp_all

lemma parse_flat:
  assumes "flat kvs"
  shows "json_parse (json_encode (JObj kvs)) = Some (JObj kvs)" "json_parse (json_print (JObj kvs)) = Some (JObj kvs)"
proof -
  have ok: "json_ok (JObj kvs)"
    using assms flat_value_ok by (auto simp: flat_def list_all_iff)
  have "foldr max (map (\<lambda>kv. json_depth (snd kv)) kvs) 0 \<le> 0"
    using assms flat_value_ok unfolding foldr_max_le by (fastforce simp: flat_def list_all_iff)
  then have "json_depth (JObj kvs) \<le> max_depth" by (simp add: max_depth_def)
  with ok show "json_parse (json_encode (JObj kvs)) = Some (JObj kvs)" "json_parse (json_print (JObj kvs)) = Some (JObj kvs)"
    by (blast intro: json_parse_encode json_parse_print)+
qed

lemma flat_sort_key: "flat (sort_key f kvs) = flat kvs"
  by (simp add: flat_def list_all_iff)

lemma unmarshal_map:
  assumes "flat kvs"
  shows "json_unmarshal fs (json_encode (json_map kvs)) s = fold (store_field fs) (sort_key fst kvs) (s, False)"
    "json_unmarshal fs (json_print (json_map kvs)) s = fold (store_field fs) (sort_key fst kvs) (s, False)"
  using parse_flat [of "sort_key fst kvs"] assms
  by (simp_all add: json_unmarshal_def store_json_def json_map_def flat_sort_key)

lemma store_simps:
  "snd (str_field n u) (JStr v) s = Some (u v s)" "snd (bool_field n u') (JBool b) s = Some (u' b s)"
  "snd (time_field n u'') (JStr v) s = map_option (\<lambda>t. u'' t s) (rfc3339_strict v)"
  by (simp_all add: time_field_def)

subsection \<open>The daemon behind the socket\<close>

text \<open>
  A header value with a control character is refused by \<^verbatim>\<open>http.Client\<close> itself. Otherwise the request
  reaches the handler, and the response comes back whole.
\<close>

definition header_ok :: "string \<Rightarrow> bool" where
  "header_ok v \<longleftrightarrow> list_all (\<lambda>c. (32 \<le> byte c \<or> byte c = 9) \<and> byte c \<noteq> 127) v"

definition daemon :: "'w refresh_call \<Rightarrow> ('w \<Rightarrow> gotime) \<Rightarrow> (Server \<times> 'w) unix_call" where
  "daemon refresh now rq sw =
     (if \<not> header_ok (ar_Authorization rq) then (DoErr ''invalid header field value'', sw)
      else
        (let r = handle refresh now True (fst sw) rq (snd sw)
         in (DoReply (rs_Status (sv_Response r)) (rs_Body (sv_Response r)) False,
             ((fst sw)\<lparr>srv_Session := sv_Session r\<rparr>, sv_World r))))"

text \<open>A client whose secret is the daemon's.\<close>

definition authentic :: "Client \<Rightarrow> Server \<Rightarrow> bool" where
  "authentic c srv \<longleftrightarrow>
     trim_space (cl_secret c) = cl_secret c \<and> cl_secret c \<noteq> '''' \<and> header_ok (cl_secret c)
     \<and> secretEqual (cl_secret c) (srv_Secret srv)"

lemma authentic_header: "authentic c srv \<Longrightarrow> header_ok (''Bearer '' @ cl_secret c)"
  by (simp add: authentic_def header_ok_def byte_def)

lemma authentic_checkSecret:
  "authentic c srv \<Longrightarrow> checkSecret srv \<lparr>ar_Method = m, ar_Path = p, ar_Authorization = ''Bearer '' @ cl_secret c\<rparr>"
  by (simp add: authentic_def checkSecret_def bearer_header del: append_Cons)

definition api_paths :: "string set" where
  "api_paths = {''/health'', ''/ready'', ''/status'', ''/token'', ''/logout'', ''/handoff''}"

lemma url_api: "p \<in> api_paths \<Longrightarrow> url_parse (httpHost @ p) \<noteq> None"
  by (auto simp: api_paths_def httpHost_def url_parse_def parse_no_fragment_def get_scheme_def char_class_defs
      to_lower_def ascii_lower_def parse_authority_def parse_host_def cut_last_def unescape_verbatim)

lemma doJSON_daemon:
  assumes "p \<in> api_paths" "header_ok (''Bearer '' @ cl_secret c)"
    and "handle refresh now True srv \<lparr>ar_Method = m, ar_Path = p, ar_Authorization = ''Bearer '' @ cl_secret c\<rparr> w
      = \<lparr>sv_Response = r, sv_Session = s, sv_World = w', sv_Shutdown = h\<rparr>"
  shows "doJSON (daemon refresh now) c m p (srv, w) = (Inr (limit_body (rs_Body r), rs_Status r), (srv\<lparr>srv_Session := s\<rparr>, w'))"
  using assms url_api [OF assms(1)]
  by (auto simp: doJSON_def daemon_def Let_def simp del: append_Cons)

text \<open>The response of \<open>writeJSON\<close>, read into a struct.\<close>

lemma rs_Status_writeJSON [simp]: "rs_Status (writeJSON c kvs) = c"
  by (simp add: writeJSON_def)

lemma unmarshal_written:
  assumes "flat kvs" "length (rs_Body (writeJSON code kvs)) \<le> 2 ^ 20"
  shows "json_unmarshal fs (limit_body (rs_Body (writeJSON code kvs))) s = fold (store_field fs) (sort_key fst kvs) (s, False)"
  using assms by (simp add: limit_body_def writeJSON_def unmarshal_map)

lemma error_of_written:
  assumes "utf8_ok code" "utf8_ok msg"
    and "length (rs_Body (writeJSON st [(''error'', JStr code), (''message'', JStr msg)])) \<le> 2 ^ 20"
  shows "error_of (limit_body (rs_Body (writeJSON st [(''error'', JStr code), (''message'', JStr msg)])))
    = \<lparr>te_Error = code, te_Message = msg\<rparr>"
proof -
  have f: "flat [(''error'', JStr code), (''message'', JStr msg)]"
    using assms by (simp add: utf8_ok_ascii is_ascii_def byte_def)
  show ?thesis
    unfolding error_of_def unmarshal_written [OF f assms(3)]
    by (simp add: store_field_def tokenErr_fields_def find_field_def)
qed

subsection \<open>Sizes\<close>

text \<open>A client reads at most 1 MiB; every byte of a string becomes at most six.\<close>

lemma quote_rune_length:
  assumes "p \<in> set (runes s)"
  shows "length (quote_rune p) \<le> 6 * length (snd p)"
proof -
  have "snd p \<noteq> []" using assms by (rule runes_snd_nonempty)
  then have "1 \<le> length (snd p)" by (cases "snd p") auto
  then show ?thesis
    by (cases p) (auto simp: quote_rune_def unicode_escape_def split: option.splits)
qed

lemma sum_list_le: "(\<And>x. x \<in> set xs \<Longrightarrow> f x \<le> (c :: nat) * g x) \<Longrightarrow> sum_list (map f xs) \<le> c * sum_list (map g xs)"
proof (induction xs)
  case (Cons x xs)
  then have "f x \<le> c * g x" "sum_list (map f xs) \<le> c * sum_list (map g xs)" by simp_all
  then show ?case by (simp add: distrib_left)
qed simp

lemma json_quote_length: "length (json_quote s) \<le> 6 * length s + 2"
proof -
  have "length (concat (map quote_rune (runes s))) \<le> 6 * sum_list (map (\<lambda>p. length (snd p)) (runes s))"
    unfolding length_concat map_map comp_def by (rule sum_list_le) (rule quote_rune_length)
  also have "sum_list (map (\<lambda>p. length (snd p)) (runes s)) = length (concat (map snd (runes s)))"
    by (simp add: length_concat comp_def)
  finally show ?thesis by (simp add: json_quote_def concat_runes)
qed

fun value_size :: "json \<Rightarrow> nat" where
  "value_size (JStr s) = 6 * length s + 2"
| "value_size (JNum s) = length s"
| "value_size j = 5"

definition entry_size :: "string \<times> json \<Rightarrow> nat" where
  "entry_size kv = 6 * length (fst kv) + value_size (snd kv) + 4"

lemma flat_value_length: "flat_value j \<Longrightarrow> length (json_print j) \<le> value_size j"
  using json_quote_length by (cases j) simp_all

lemma join_with_length: "length (join_with d ss) \<le> sum_list (map (\<lambda>s. Suc (length s)) ss)"
  by (induction d ss rule: join_with.induct) simp_all

lemma json_obj_length: "flat kvs \<Longrightarrow> length (json_print (JObj kvs)) \<le> sum_list (map entry_size kvs) + 2"
proof -
  assume f: "flat kvs"
  let ?e = "\<lambda>kv. json_quote (fst kv) @ '':'' @ json_print (snd kv)"
  have "Suc (length (?e kv)) \<le> entry_size kv" if "kv \<in> set kvs" for kv
    using f that flat_value_length [of "snd kv"] json_quote_length [of "fst kv"]
    by (auto simp: flat_def list_all_iff entry_size_def)
  then have "sum_list (map (\<lambda>kv. Suc (length (?e kv))) kvs) \<le> sum_list (map entry_size kvs)"
    by (rule sum_list_mono)
  moreover have "length (join_with CHR '','' (map ?e kvs)) \<le> sum_list (map (\<lambda>kv. Suc (length (?e kv))) kvs)"
    using join_with_length [of "CHR '',''" "map ?e kvs"] by (simp add: comp_def)
  ultimately show ?thesis by simp
qed

lemma json_map_length:
  assumes "flat kvs"
  shows "length (json_print (json_map kvs)) \<le> sum_list (map entry_size kvs) + 2"
proof -
  have ins: "sum_list (map f (insort_key g x xs)) = f x + sum_list (map f xs)" for f :: "'a \<Rightarrow> nat" and g :: "'a \<Rightarrow> string" and x xs
    by (induction xs) simp_all
  have "sum_list (map entry_size (sort_key fst kvs)) = sum_list (map entry_size kvs)"
    by (induction kvs) (simp_all add: ins)
  then show ?thesis
    using json_obj_length [of "sort_key fst kvs"] assms by (simp add: json_map_def flat_sort_key)
qed

lemma written_length:
  "flat kvs \<Longrightarrow> length (rs_Body (writeJSON code kvs)) \<le> sum_list (map entry_size kvs) + 3"
  using json_map_length [of kvs] by (simp add: writeJSON_def json_encode_def)

subsection \<open>What a client gets\<close>

lemmas flat_eval = utf8_ok_ascii is_ascii_def byte_def

lemmas store_eval = store_field_def find_field_def

lemma error_of_short:
  assumes "list_all is_ascii code" "list_all is_ascii msg" "length code \<le> 100" "length msg \<le> 100"
  shows "error_of (limit_body (rs_Body (writeJSON st [(''error'', JStr code), (''message'', JStr msg)])))
    = \<lparr>te_Error = code, te_Message = msg\<rparr>"
proof -
  have u: "utf8_ok code" "utf8_ok msg" using assms by (simp_all add: utf8_ok_ascii)
  have f: "flat [(''error'', JStr code), (''message'', JStr msg)]"
    using u by (simp add: flat_eval)
  have "length (rs_Body (writeJSON st [(''error'', JStr code), (''message'', JStr msg)])) \<le> 2 ^ 20"
    using written_length [OF f, of st] assms by (simp add: entry_size_def)
  with u show ?thesis by (rule error_of_written)
qed

text \<open>How the errors of the session reach a caller of the SDK.\<close>

definition client_view :: "go_err \<Rightarrow> client_err" where
  "client_view e =
     (if errors_Is e ErrReauthRequired then
        CWrap CErrReauthRequired '': refresh token rejected; restart xai-oauth serve and sign in''
      else if errors_Is e ErrTierDenied then CWrap CErrTierDenied '': oauth account not entitled for API access''
      else CWrap CErrUnavailable '': token refresh temporarily failed'')"

lemma token_error_view:
  "rs_Status (token_error e) \<noteq> 200
   \<and> mapHTTPError (rs_Status (token_error e)) (error_of (limit_body (rs_Body (token_error e)))) = client_view e"
proof -
  have t: "trim_space s = s" if "list_all is_ascii s" "s \<noteq> ''''" "\<not> ascii_space (hd s)" "\<not> ascii_space (last s)" for s
  proof -
    have "dropWhile ascii_space s = s" "dropWhile ascii_space (rev s) = rev s"
      using that(2-4) by (cases s, simp, simp) (use that(2-4) in \<open>cases s rule: rev_cases, simp_all\<close>)
    with that(1) show ?thesis by (simp add: trim_space_ascii trim_ascii_def)
  qed
  consider "errors_Is e ErrReauthRequired" | "\<not> errors_Is e ErrReauthRequired" "errors_Is e ErrTierDenied"
    | "\<not> errors_Is e ErrReauthRequired" "\<not> errors_Is e ErrTierDenied" by blast
  then show ?thesis
  proof cases
    case 1
    then show ?thesis
      by (simp add: token_error_def client_view_def error_of_short flat_eval mapHTTPError_def t ascii_space_def)
  next
    case 2
    then show ?thesis
      by (simp add: token_error_def client_view_def error_of_short flat_eval mapHTTPError_def t ascii_space_def)
  next
    case 3
    then show ?thesis
      by (simp add: token_error_def client_view_def error_of_short flat_eval mapHTTPError_def t ascii_space_def)
  qed
qed

lemma token_response_view:
  assumes "utf8_ok tok" "length tok \<le> 170000"
  shows "json_unmarshal tokenOK_fields (limit_body (rs_Body (token_response tok))) \<lparr>ok_AccessToken = '''', ok_TokenType = ''''\<rparr>
    = (\<lparr>ok_AccessToken = tok, ok_TokenType = ''Bearer''\<rparr>, False)"
proof -
  have f: "flat [(''access_token'', JStr tok), (''token_type'', JStr ''Bearer'')]"
    using assms by (simp add: flat_eval)
  have "length (rs_Body (token_response tok)) \<le> 2 ^ 20"
    using written_length [OF f, of 200] assms by (simp add: entry_size_def token_response_def)
  then show ?thesis
    unfolding token_response_def by (subst unmarshal_written [OF f]) (simp_all add: store_eval tokenOK_fields_def)
qed

lemma Get_reply:
  "doJSON call c ''GET'' ''/token'' w = (Inr (body, 200), w') \<Longrightarrow>
     json_unmarshal tokenOK_fields body \<lparr>ok_AccessToken = '''', ok_TokenType = ''''\<rparr> = (ok, False) \<Longrightarrow>
     \<not> blank (ok_AccessToken ok) \<Longrightarrow> Get call (Some c) w = (Inr (ok_AccessToken ok), w')"
  "doJSON call c ''GET'' ''/token'' w = (Inr (body, status), w') \<Longrightarrow> status \<noteq> 200 \<Longrightarrow>
     Get call (Some c) w = (Inl (mapHTTPError status (error_of body)), w')"
  by (simp_all add: Get_def require_def)

definition token_reply :: "go_err + string \<Rightarrow> api_response" where
  "token_reply r = (case r of Inl e \<Rightarrow> token_error e | Inr tok \<Rightarrow> token_response tok)"

lemma doJSON_token:
  assumes "authentic c srv" "GetAccessToken refresh now (srv_Session srv) w = (r, s, w')"
  shows "doJSON (daemon refresh now) c ''GET'' ''/token'' (srv, w)
    = (Inr (limit_body (rs_Body (token_reply r)), rs_Status (token_reply r)), srv\<lparr>srv_Session := s\<rparr>, w')"
proof -
  have "handle refresh now True srv \<lparr>ar_Method = ''GET'', ar_Path = ''/token'', ar_Authorization = ''Bearer '' @ cl_secret c\<rparr> w
      = \<lparr>sv_Response = token_reply r, sv_Session = s, sv_World = w', sv_Shutdown = False\<rparr>"
    using authentic_checkSecret [OF assms(1)] assms(2)
    by (cases r) (simp_all add: handle_def route_of_def handleToken_def reply_only_def token_reply_def del: append_Cons)
  from doJSON_daemon [OF _ authentic_header [OF assms(1)] this] show ?thesis
    by (simp add: api_paths_def)
qed

lemma Get_daemon_err:
  assumes "authentic c srv" "GetAccessToken refresh now (srv_Session srv) w = (Inl e, s, w')"
  shows "Get (daemon refresh now) (Some c) (srv, w) = (Inl (client_view e), (srv\<lparr>srv_Session := s\<rparr>, w'))"
  using Get_reply(2) [OF doJSON_token [OF assms]] token_error_view [of e] by (simp add: token_reply_def)

lemma Get_daemon_ok:
  assumes "authentic c srv" "GetAccessToken refresh now (srv_Session srv) w = (Inr tok, s, w')"
    and "utf8_ok tok" "\<not> blank tok" "length tok \<le> 170000"
  shows "Get (daemon refresh now) (Some c) (srv, w) = (Inr tok, (srv\<lparr>srv_Session := s\<rparr>, w'))"
proof -
  have rs: "token_reply (Inr tok) = token_response tok" "rs_Status (token_response tok) = 200"
    by (simp_all add: token_reply_def token_response_def)
  from Get_reply(1) [OF doJSON_token [OF assms(1,2), unfolded rs], where ok = "\<lparr>ok_AccessToken = tok, ok_TokenType = ''Bearer''\<rparr>"]
    assms(3-5) token_response_view [of tok]
  show ?thesis by simp
qed

text \<open>
  A call of \<open>Get\<close> is a call of the daemon's \<open>GetAccessToken\<close>. With the right secret the SDK returns
  exactly the token the session returned, through JSON and HTTP, or the sentinel that stands for
  the error of the session; and the daemon's session and world are those after that one call.
\<close>

theorem Get_end_to_end:
  assumes "authentic c srv" "GetAccessToken refresh now (srv_Session srv) w = (r, s, w')"
    and "\<And>tok. r = Inr tok \<Longrightarrow> utf8_ok tok \<and> \<not> blank tok \<and> length tok \<le> 170000"
  shows "Get (daemon refresh now) (Some c) (srv, w)
    = ((case r of Inr tok \<Rightarrow> Inr tok | Inl e \<Rightarrow> Inl (client_view e)), (srv\<lparr>srv_Session := s\<rparr>, w'))"
proof (cases r)
  case (Inl e)
  with Get_daemon_err [OF assms(1) assms(2) [unfolded Inl]] show ?thesis by simp
next
  case (Inr tok)
  with Get_daemon_ok [OF assms(1) assms(2) [unfolded Inr]] assms(3) [OF Inr] show ?thesis by simp
qed

subsection \<open>Times on the wire\<close>

lemma two_digits: "0 \<le> n \<Longrightarrow> n < 100 \<Longrightarrow> list_all is_digit (two n) \<and> length (two n) = 2"
  using get_num_two [of n "[]"] by (simp add: get_num_def two_def split: if_splits)

lemma digit_ascii: "is_digit c \<Longrightarrow> is_ascii c"
  by (simp add: is_digit_def is_ascii_def)

text \<open>The shape of a formatted time of the years 1 to 9999.\<close>

lemma rfc3339_shape:
  assumes "0 \<le> t" "t < 3652059 * 86400 * second"
  obtains a b m d h k s where "rfc3339_format t = two a @ two b @ ''-'' @ two m @ ''-'' @ two d @ ''T'' @ two h @ '':'' @ two k @ '':'' @ two s @ ''Z''"
    "\<forall>n \<in> {a, b, m, d, h, k, s}. 0 \<le> n \<and> n < 100"
proof -
  define days s where "days = t div second div 86400" and "s = t div second mod 86400"
  obtain y n where yn: "year_day days = (y, n)" by (cases "year_day days")
  obtain m d where md: "month_day (month_lengths y) 1 n = (m, d)" by (cases "month_day (month_lengths y) 1 n")
  note date = date_correct [OF yn md]
  have days: "0 \<le> days" "days < 3652059"
    using assms by (simp_all add: days_def second_def)
  note y = year_day_range [OF yn days]
  have yr: "year_digits y = two (y div 100) @ two (y mod 100)" using y by (simp add: year_digits_def)
  have s: "0 \<le> s div 3600" "s div 3600 < 24" "0 \<le> s div 60 mod 60" "s div 60 mod 60 < 60" "0 \<le> s mod 60" "s mod 60 < 60"
    by (simp_all add: s_def)
  show ?thesis
  proof (rule that)
    show "rfc3339_format t = two (y div 100) @ two (y mod 100) @ ''-'' @ two m @ ''-'' @ two d @ ''T''
      @ two (s div 3600) @ '':'' @ two (s div 60 mod 60) @ '':'' @ two (s mod 60) @ ''Z''"
      by (simp add: rfc3339_format_def Let_def days_def [symmetric] s_def [symmetric] yn md yr)
    show "\<forall>n \<in> {y div 100, y mod 100, m, d, s div 3600, s div 60 mod 60, s mod 60}. 0 \<le> n \<and> n < 100"
      using y s date(2-4,6) by auto
  qed
qed

lemma rfc3339_wire:
  assumes "0 \<le> t" "t < 3652059 * 86400 * second"
  shows "list_all is_ascii (rfc3339_format t)" "length (rfc3339_format t) = 20"
    "rfc3339_strict (rfc3339_format t) = Some (t - t mod second)"
proof -
  obtain a b m d h k s where f: "rfc3339_format t = two a @ two b @ ''-'' @ two m @ ''-'' @ two d @ ''T'' @ two h @ '':'' @ two k @ '':'' @ two s @ ''Z''"
    and r: "\<forall>n \<in> {a, b, m, d, h, k, s}. 0 \<le> n \<and> n < 100"
    by (rule rfc3339_shape [OF assms])
  have d: "list_all is_digit (two n)" "length (two n) = 2" if "n \<in> {a, b, m, d, h, k, s}" for n
    using two_digits r that by blast+
  then have asc: "list_all is_ascii (two n)" if "n \<in> {a, b, m, d, h, k, s}" for n
    using that digit_ascii by (auto simp: list_all_iff)
  show "list_all is_ascii (rfc3339_format t)"
    using asc by (simp add: f is_ascii_def byte_def)
  show "length (rfc3339_format t) = 20"
    using d(2) by (simp add: f)
  have "is_digit (digit (h mod 10))" using d(1) [of h] by (simp add: two_def)
  then have "rfc3339_format t ! 12 \<noteq> CHR '':''"
    by (auto simp: f two_def is_digit_def byte_def)
  moreover have "rfc3339_format t ! 19 = CHR ''Z''" "last (rfc3339_format t) = CHR ''Z''"
    by (simp_all add: f two_def)
  ultimately show "rfc3339_strict (rfc3339_format t) = Some (t - t mod second)"
    using rfc3339_roundtrip [OF assms] by (simp add: rfc3339_strict_def)
qed

subsection \<open>Status and readiness through the daemon\<close>

definition wire_time :: "gotime \<Rightarrow> bool" where
  "wire_time t \<longleftrightarrow> 0 \<le> t \<and> t < 3652059 * 86400 * second"

text \<open>What the client makes of the daemon's status: the expiry loses its nanoseconds.\<close>

definition status_view :: "Status \<Rightarrow> ClientStatus" where
  "status_view st =
     \<lparr>cs_State = state_string (st_State st), cs_HasExpiry = st_HasExpiry st,
      cs_ExpiresAt = (if st_HasExpiry st then st_ExpiresAt st - st_ExpiresAt st mod second else 0),
      cs_TokenValid = st_TokenValid st, cs_LastError = st_LastError st\<rparr>"

lemma state_string_ascii: "list_all is_ascii (state_string st)" "length (state_string st) \<le> 20"
  by (cases st; simp add: is_ascii_def byte_def)+

lemma status_body_view:
  assumes "utf8_ok (st_LastError st)" "length (st_LastError st) \<le> 170000" "st_HasExpiry st \<Longrightarrow> wire_time (st_ExpiresAt st)"
  shows "json_unmarshal ClientStatus_fields (limit_body (rs_Body (writeJSON 200 (status_body st)))) empty_ClientStatus
    = (status_view st, False)"
proof -
  have tm: "utf8_ok (rfc3339_format (st_ExpiresAt st))" "length (rfc3339_format (st_ExpiresAt st)) = 20"
    "rfc3339_strict (rfc3339_format (st_ExpiresAt st)) = Some (st_ExpiresAt st - st_ExpiresAt st mod second)"
    if "st_HasExpiry st"
    using rfc3339_wire [of "st_ExpiresAt st"] assms(3) [OF that] by (simp_all add: wire_time_def utf8_ok_ascii)
  have f: "flat (status_body st)"
    using assms(1) tm(1) state_string_ascii by (simp add: status_body_def flat_eval)
  have "sum_list (map entry_size (status_body st)) + 3 \<le> 2 ^ 20"
    using assms(2) tm(2) state_string_ascii(2) [of "st_State st"] by (simp add: status_body_def entry_size_def)
  then have "length (rs_Body (writeJSON 200 (status_body st))) \<le> 2 ^ 20"
    using written_length [OF f, of 200] by simp
  note um = unmarshal_written [OF f this, of ClientStatus_fields empty_ClientStatus]
  note names = store_eval ClientStatus_fields_def status_body_def
  show ?thesis
    unfolding um
    by (cases "st_HasExpiry st"; cases "st_ExpiresAt st = 0"; cases "st_LastError st = ''''")
      (simp_all add: names store_simps tm empty_ClientStatus_def status_view_def time_field_def)
qed

lemma client_Status_reply:
  "doJSON call c ''GET'' ''/status'' w = (Inr (body, 200), w') \<Longrightarrow>
     json_unmarshal ClientStatus_fields body empty_ClientStatus = (st, False) \<Longrightarrow>
     client_Status call (Some c) w = (Inr st, w')"
  "doJSON call c ''GET'' ''/status'' w = (Inr (body, status), w') \<Longrightarrow> status \<noteq> 200 \<Longrightarrow>
     client_Status call (Some c) w = (Inl (mapHTTPError status (error_of body)), w')"
  by (simp_all add: client_Status_def require_def)

lemma handle_status:
  "checkSecret srv rq \<Longrightarrow> ar_Method rq = ''GET'' \<Longrightarrow> ar_Path rq = ''/status'' \<Longrightarrow>
    handle refresh now b srv rq w = reply_only (writeJSON 200 (status_body (get_Status (now w) (srv_Session srv)))) (srv_Session srv) w"
  by (simp add: handle_def route_of_def handleStatus_def)

text \<open>A session whose snapshot fits on the wire.\<close>

definition wire_ok :: "Session \<Rightarrow> bool" where
  "wire_ok s \<longleftrightarrow>
     utf8_ok (lastError s) \<and> length (lastError s) \<le> 170000 \<and> (hasExpiry s \<longrightarrow> wire_time (expiresAt s))"

lemma client_Status_daemon:
  assumes "authentic c srv" "wire_ok (srv_Session srv)"
  shows "client_Status (daemon refresh now) (Some c) (srv, w) = (Inr (status_view (get_Status (now w) (srv_Session srv))), (srv, w))"
proof -
  let ?st = "get_Status (now w) (srv_Session srv)"
  have st: "utf8_ok (st_LastError ?st)" "length (st_LastError ?st) \<le> 170000" "st_HasExpiry ?st \<Longrightarrow> wire_time (st_ExpiresAt ?st)"
    using assms(2) by (simp_all add: get_Status_def wire_ok_def)
  have h: "handle refresh now True srv \<lparr>ar_Method = ''GET'', ar_Path = ''/status'', ar_Authorization = ''Bearer '' @ cl_secret c\<rparr> w
    = \<lparr>sv_Response = writeJSON 200 (status_body ?st), sv_Session = srv_Session srv, sv_World = w, sv_Shutdown = False\<rparr>"
    by (simp only: handle_status [OF authentic_checkSecret [OF assms(1)]] api_request.simps reply_only_def refl)
  have "doJSON (daemon refresh now) c ''GET'' ''/status'' (srv, w)
      = (Inr (limit_body (rs_Body (writeJSON 200 (status_body ?st))), 200), (srv, w))"
    using doJSON_daemon [OF _ authentic_header [OF assms(1)] h] by (simp add: api_paths_def)
  from client_Status_reply(1) [OF this status_body_view [OF st]] show ?thesis .
qed

text \<open>
  Property C36. \<open>Status\<close> through JSON and HTTP. With the right secret the SDK's snapshot agrees with the session's in
  every field, but for the nanoseconds of the expiry; asking changes nothing in the daemon.
\<close>

theorem Status_end_to_end:
  assumes "authentic c srv" "wire_ok (srv_Session srv)"
  shows "client_Status (daemon refresh now) (Some c) (srv, w)
    = (Inr \<lparr>cs_State = state_string (state (srv_Session srv)), cs_HasExpiry = hasExpiry (srv_Session srv),
         cs_ExpiresAt = (if hasExpiry (srv_Session srv)
           then expiresAt (srv_Session srv) - expiresAt (srv_Session srv) mod second else 0),
         cs_TokenValid = hardValidLocked (now w) (srv_Session srv), cs_LastError = lastError (srv_Session srv)\<rparr>,
       (srv, w))"
  using client_Status_daemon [OF assms, of refresh now w] by (simp add: status_view_def get_Status_def)

lemma handle_unauthorized:
  assumes "\<not> checkSecret srv rq" "route_of (ar_Method rq) (ar_Path rq) \<in> {RStatus, RToken, RLogout, RHandoff}"
  shows "handle refresh now b srv rq w = reply_only unauthorized_response (srv_Session srv) w"
  using assms by (auto simp: handle_def handleStatus_def handleToken_def handleLogout_def handleHandoff_def)

lemma client_Status_unauthorized:
  assumes "header_ok (''Bearer '' @ cl_secret c)" "trim_space (cl_secret c) = cl_secret c" "cl_secret c \<noteq> ''''"
    "\<not> secretEqual (cl_secret c) (srv_Secret srv)"
  shows "client_Status (daemon refresh now) (Some c) (srv, w)
    = (Inl (CWrap CErrUnauthorized '': invalid local secret''), (srv, w))"
proof -
  let ?rq = "\<lparr>ar_Method = ''GET'', ar_Path = ''/status'', ar_Authorization = ''Bearer '' @ cl_secret c\<rparr>"
  have "\<not> checkSecret srv ?rq"
    using assms(2-4) by (simp add: checkSecret_def bearer_header del: append_Cons)
  then have h: "handle refresh now True srv ?rq w
      = \<lparr>sv_Response = unauthorized_response, sv_Session = srv_Session srv, sv_World = w, sv_Shutdown = False\<rparr>"
    using handle_unauthorized [of srv ?rq refresh now True w] by (simp add: route_of_def reply_only_def del: append_Cons)
  have "doJSON (daemon refresh now) c ''GET'' ''/status'' (srv, w)
      = (Inr (limit_body (rs_Body unauthorized_response), 401), (srv, w))"
    using doJSON_daemon [OF _ assms(1) h] by (simp add: api_paths_def unauthorized_response_def)
  from client_Status_reply(2) [OF this] show ?thesis
    by (simp add: unauthorized_response_def error_of_short flat_eval mapHTTPError_def string_eval)
qed

text \<open>
  Property C35. \<open>WaitReady\<close> against the daemon. A ready session ends the wait at once; a session that needs a
  login or is not entitled fails at once, without waiting for the context; only a session that was
  handed off keeps the caller polling. A wrong secret fails at once.
\<close>

theorem WaitReady_daemon:
  assumes "trim_space (cl_secret c) = cl_secret c" "cl_secret c \<noteq> ''''" "header_ok (cl_secret c)" "wire_ok (srv_Session srv)"
  shows "WaitReady (Suc n) (daemon refresh now) pause (Some c) (srv, w) =
    (if \<not> secretEqual (cl_secret c) (srv_Secret srv) then
       Some (Some (CWrap CErrUnauthorized '': invalid local secret''), (srv, w))
     else
       (case state (srv_Session srv) of
          StateReady \<Rightarrow> Some (None, (srv, w))
        | StateReauthRequired \<Rightarrow> Some (Some (CWrap CErrReauthRequired '': daemon state reauth_required''), (srv, w))
        | StateTierDenied \<Rightarrow> Some (Some (CWrap CErrTierDenied '': daemon state tier_denied''), (srv, w))
        | StateHandedOff \<Rightarrow>
            (case pause (srv, w) of
               (True, sw) \<Rightarrow> Some (Some (CPrefix ''wait ready: '' (CDaemonState ''handed_off'')), sw)
             | (False, sw) \<Rightarrow> WaitReady n (daemon refresh now) pause (Some c) sw)))"
proof (cases "secretEqual (cl_secret c) (srv_Secret srv)")
  case False
  have "header_ok (''Bearer '' @ cl_secret c)" using assms(3) by (simp add: header_ok_def byte_def)
  from client_Status_unauthorized [OF this assms(1,2) False, of refresh now w] False show ?thesis
    by (simp add: WaitReady_def require_def)
next
  case True
  with assms have a: "authentic c srv" by (simp add: authentic_def)
  from client_Status_daemon [OF this assms(4), of refresh now w] True show ?thesis
    by (cases "state (srv_Session srv)") (simp_all add: WaitReady_def require_def status_view_def get_Status_def split: prod.split bool.split)
qed

subsection \<open>A concrete daemon\<close>

definition demo_client :: Client where
  "demo_client = \<lparr>cl_secret = ''abc'', cl_socket = ''/run/daemon.sock''\<rparr>"

abbreviation demo_env :: "nat env" where
  "demo_env \<equiv> stub_env (\<lambda>_. TransportError)"

abbreviation demo_host :: Server where
  "demo_host \<equiv> demo_server\<lparr>srv_Secret := ''abc''\<rparr>"

lemma demo_authentic: "authentic demo_client demo_host"
  using secretEqual_abc trim_abc by (simp add: authentic_def demo_client_def header_ok_def byte_def)

lemma demo_wire: "wire_ok (srv_Session demo_host)"
  by (simp add: wire_ok_def demo_server_def demo_session_def wire_time_def utf8_ok_def second_def)

lemma demo_token:
  "GetAccessToken (Refresh demo_env) (Now demo_env) (srv_Session demo_host) (stub_world 0) = (Inr ''at'', demo_session, stub_world 0)"
  by (simp add: GetAccessToken_def check_token_def accessStillFreshLocked_def demo_server_def demo_session_def
      time_add_def RefreshSkew_def minute_def second_def max_sec_def Now_def stub_world_def)

theorem Get_end_to_end_witness:
  "Get (daemon (Refresh demo_env) (Now demo_env)) (Some demo_client) (demo_host, stub_world 0)
    = (Inr ''at'', (demo_host\<lparr>srv_Session := demo_session\<rparr>, stub_world 0))"
  using Get_end_to_end [OF demo_authentic demo_token] by (simp add: flat_eval string_eval)

theorem Status_end_to_end_witness:
  "cs_ExpiresAt (case client_Status (daemon (Refresh demo_env) (Now demo_env)) (Some demo_client) (demo_host, stub_world 0) of
     (Inr st, _) \<Rightarrow> st) = 1000 * second"
  unfolding Status_end_to_end [OF demo_authentic demo_wire]
  by (simp add: demo_server_def demo_session_def second_def)

theorem WaitReady_daemon_witness:
  "WaitReady (Suc 0) (daemon (Refresh demo_env) (Now demo_env)) (\<lambda>sw. (True, sw)) (Some demo_client) (demo_host, stub_world 0)
    = Some (None, (demo_host, stub_world 0))"
proof -
  have c: "trim_space (cl_secret demo_client) = cl_secret demo_client" "cl_secret demo_client \<noteq> ''''"
      "header_ok (cl_secret demo_client)" "secretEqual (cl_secret demo_client) (srv_Secret demo_host)"
    using demo_authentic by (simp_all add: authentic_def)
  show ?thesis
    unfolding WaitReady_daemon [OF c(1-3) demo_wire] using c(4) by (simp add: demo_server_def demo_session_def)
qed

subsection \<open>Readiness and logout\<close>

lemma client_Ready_reply:
  "doJSON call c ''GET'' ''/ready'' w = (Inr (body, status), w') \<Longrightarrow>
     json_unmarshal ready_fields body \<lparr>rr_Ready = False, rr_State = ''''\<rparr> = (out, bad) \<Longrightarrow>
     client_Ready call (Some c) w = (Inr (if status = 200 \<and> rr_Ready out then (True, ''ready'')
       else (False, if rr_State out = '''' then ''not_ready'' else rr_State out)), w')"
  by (simp add: client_Ready_def require_def)

lemma ready_kvs:
  "json_unmarshal ready_fields (limit_body (rs_Body (writeJSON n [(''ready'', JBool True)]))) \<lparr>rr_Ready = False, rr_State = ''''\<rparr>
    = (\<lparr>rr_Ready = True, rr_State = ''''\<rparr>, False)"
  "utf8_ok st \<Longrightarrow> length st \<le> 100 \<Longrightarrow>
    json_unmarshal ready_fields (limit_body (rs_Body (writeJSON n [(''ready'', JBool False), (''state'', JStr st)])))
       \<lparr>rr_Ready = False, rr_State = ''''\<rparr>
    = (\<lparr>rr_Ready = False, rr_State = st\<rparr>, False)"
proof -
  have f: "flat [(''ready'', JBool True)]" by (simp add: flat_eval)
  have len: "length (rs_Body (writeJSON n [(''ready'', JBool True)])) \<le> 2 ^ 20"
    using written_length [OF f, of n] by (simp add: entry_size_def)
  show "json_unmarshal ready_fields (limit_body (rs_Body (writeJSON n [(''ready'', JBool True)])))
      \<lparr>rr_Ready = False, rr_State = ''''\<rparr> = (\<lparr>rr_Ready = True, rr_State = ''''\<rparr>, False)"
    unfolding unmarshal_written [OF f len] by (simp add: store_eval ready_fields_def)
next
  assume st: "utf8_ok st" "length st \<le> 100"
  then have f: "flat [(''ready'', JBool False), (''state'', JStr st)]" by (simp add: flat_eval)
  have len: "length (rs_Body (writeJSON n [(''ready'', JBool False), (''state'', JStr st)])) \<le> 2 ^ 20"
    using written_length [OF f, of n] st(2) by (simp add: entry_size_def)
  show "json_unmarshal ready_fields (limit_body (rs_Body (writeJSON n [(''ready'', JBool False), (''state'', JStr st)])))
       \<lparr>rr_Ready = False, rr_State = ''''\<rparr> = (\<lparr>rr_Ready = False, rr_State = st\<rparr>, False)"
    unfolding unmarshal_written [OF f len] by (simp add: store_eval ready_fields_def)
qed

text \<open>
  \<open>Ready\<close> needs no secret and gives the session's answer: whether it can serve, and otherwise its
  state or \<open>degraded\<close>. The daemon is left as it was.
\<close>

theorem Ready_end_to_end:
  assumes "header_ok (cl_secret c)"
  shows "client_Ready (daemon refresh now) (Some c) (srv, w) = (Inr (Ready (now w) (srv_Session srv)), (srv, w))"
proof -
  obtain b r where br: "Ready (now w) (srv_Session srv) = (b, r)" by (cases "Ready (now w) (srv_Session srv)")
  have r: "b \<Longrightarrow> r = ''ready''" "utf8_ok r" "length r \<le> 100" "r \<noteq> ''''"
    using br state_string_ascii [of "state (srv_Session srv)"]
    by (auto simp: Ready_def ReadyReasonDegraded_def flat_eval split: if_splits) (cases "state (srv_Session srv)"; simp)
  have hd: "header_ok (''Bearer '' @ cl_secret c)" using assms by (simp add: header_ok_def byte_def)
  define rs where "rs = handleReady (now w) (srv_Session srv)"
  have "handle refresh now True srv \<lparr>ar_Method = ''GET'', ar_Path = ''/ready'', ar_Authorization = ''Bearer '' @ cl_secret c\<rparr> w
      = \<lparr>sv_Response = rs, sv_Session = srv_Session srv, sv_World = w, sv_Shutdown = False\<rparr>"
    by (simp add: handle_def route_of_def reply_only_def rs_def del: append_Cons)
  from doJSON_daemon [OF _ hd this]
  have j: "doJSON (daemon refresh now) c ''GET'' ''/ready'' (srv, w) = (Inr (limit_body (rs_Body rs), rs_Status rs), (srv, w))"
    by (simp add: api_paths_def)
  show ?thesis
  proof (cases b)
    case True
    then have "rs = writeJSON 200 [(''ready'', JBool True)]" by (simp add: rs_def handleReady_def br)
    with client_Ready_reply [OF j [unfolded this] ready_kvs(1)] True r(1) show ?thesis by (simp add: br)
  next
    case False
    then have "rs = writeJSON 503 [(''ready'', JBool False), (''state'', JStr r)]" by (simp add: rs_def handleReady_def br)
    with client_Ready_reply [OF j [unfolded this] ready_kvs(2) [OF r(2,3)]] False r(4) show ?thesis by (simp add: br)
  qed
qed

theorem Ready_end_to_end_witness:
  "client_Ready (daemon (Refresh demo_env) (Now demo_env)) (Some demo_client) (demo_host, stub_world 0)
    = (Inr (True, ''ready''), (demo_host, stub_world 0))"
proof -
  have "header_ok (cl_secret demo_client)" using demo_authentic by (simp add: authentic_def)
  from Ready_end_to_end [OF this, of "Refresh demo_env" "Now demo_env" demo_host "stub_world 0"] show ?thesis
    by (simp add: Ready_def demo_server_def demo_session_def)
qed

lemma Get_cleared:
  "GetAccessToken refresh now (Clear s) w = (Inl ErrReauthRequired, Clear s, w)"
  by (simp add: GetAccessToken_def check_token_def Clear_def wipe_def)

lemma client_Logout_daemon:
  assumes "authentic c srv"
  shows "client_Logout (daemon refresh now) (Some c) (srv, w) = (None, (srv\<lparr>srv_Session := Clear (srv_Session srv)\<rparr>, w))"
proof -
  let ?rs = "writeJSON 200 [(''ok'', JBool True), (''logged_out'', JBool True)]"
  have "handle refresh now True srv \<lparr>ar_Method = ''POST'', ar_Path = ''/logout'', ar_Authorization = ''Bearer '' @ cl_secret c\<rparr> w
      = \<lparr>sv_Response = ?rs, sv_Session = Clear (srv_Session srv), sv_World = w, sv_Shutdown = srv_OnLogout srv\<rparr>"
    using authentic_checkSecret [OF assms] by (simp add: handle_def route_of_def handleLogout_def del: append_Cons)
  from doJSON_daemon [OF _ authentic_header [OF assms] this]
  have "doJSON (daemon refresh now) c ''POST'' ''/logout'' (srv, w)
      = (Inr (limit_body (rs_Body ?rs), 200), (srv\<lparr>srv_Session := Clear (srv_Session srv)\<rparr>, w))"
    by (simp add: api_paths_def)
  then show ?thesis by (simp add: client_Logout_def require_def)
qed

text \<open>
  Property C37. A logout is final. With the right secret it succeeds, no credential is left in the daemon, and a
  client that asks for a token afterwards is told that a login is needed; no request is sent to the
  provider for it.
\<close>

theorem Logout_end_to_end:
  assumes "authentic c srv" "client_Logout (daemon refresh now) (Some c) (srv, w) = (e, (srv', w'))"
  shows "e = None \<and> w' = w \<and> accessToken (srv_Session srv') = '''' \<and> refreshToken (srv_Session srv') = ''''
    \<and> (\<exists>t. Get (daemon refresh now) (Some c) (srv', w) = (Inl (CWrap CErrReauthRequired t), (srv', w)))"
proof -
  have l: "e = None" "w' = w" "srv' = srv\<lparr>srv_Session := Clear (srv_Session srv)\<rparr>"
    using client_Logout_daemon [OF assms(1), of refresh now w] assms(2) by simp_all
  have a: "authentic c srv'" using assms(1) by (simp add: authentic_def l(3))
  have "GetAccessToken refresh now (srv_Session srv') w = (Inl ErrReauthRequired, srv_Session srv', w)"
    using Get_cleared by (simp add: l(3))
  from Get_daemon_err [OF a this]
  have "Get (daemon refresh now) (Some c) (srv', w) = (Inl (client_view ErrReauthRequired), (srv', w))" by simp
  then show ?thesis
    by (simp add: l client_view_def) (simp add: Clear_def wipe_def)
qed

theorem Logout_end_to_end_witness:
  "client_Logout (daemon (Refresh demo_env) (Now demo_env)) (Some demo_client) (demo_host, stub_world 0)
     = (None, (demo_host\<lparr>srv_Session := Clear (srv_Session demo_host)\<rparr>, stub_world 0))
   \<and> refreshToken (srv_Session (demo_host\<lparr>srv_Session := Clear (srv_Session demo_host)\<rparr>)) = ''''"
  using Logout_end_to_end [OF demo_authentic client_Logout_daemon [OF demo_authentic, of "Refresh demo_env" "Now demo_env" "stub_world 0"]]
    client_Logout_daemon [OF demo_authentic, of "Refresh demo_env" "Now demo_env" "stub_world 0"]
  by blast

end
