(* ===== verification/Listen.thy ===== *)
theory Listen
  imports Go_Path Go_Time
begin

text \<open>
  \<^verbatim>\<open>internal/server/listen.go\<close> and \<^verbatim>\<open>listen_unix.go\<close>: binding the Unix socket. The system calls are
  outside the program; they are the operations of an \<open>os\<close> on a state of arbitrary type, and the
  theorems hold for any of them, also for one that changes files between two calls. Every call is
  logged with its answer, so what the code did is a trace. The three operations that differ between
  platforms are arguments of the steps they share (\<open>listen_at\<close>); their laws are the locale
  \<open>listen_platform\<close>, interpreted here for Unix and in theory \<open>Windows\<close> for Windows.
\<close>

subsection \<open>System calls\<close>

text \<open>What \<^verbatim>\<open>os.Lstat\<close> tells: the type bits, the permission bits, the owner if the platform has one.\<close>

record file_info =
  fi_dir :: bool
  fi_symlink :: bool
  fi_socket :: bool
  fi_irregular :: bool
  fi_perm :: nat
  fi_uid :: "int option"

datatype lstat_answer = NotExist | LstatErr | Info file_info

record 'n os =
  mkdir_all :: "string \<Rightarrow> 'n \<Rightarrow> bool \<times> 'n"
  chmod :: "string \<Rightarrow> nat \<Rightarrow> 'n \<Rightarrow> bool \<times> 'n"
  lstat :: "string \<Rightarrow> 'n \<Rightarrow> lstat_answer \<times> 'n"
  dial :: "string \<Rightarrow> 'n \<Rightarrow> bool \<times> 'n"
  remove_file :: "string \<Rightarrow> 'n \<Rightarrow> bool \<times> 'n"
  listen_unix :: "string \<Rightarrow> 'n \<Rightarrow> bool \<times> 'n"
  close_listener :: "'n \<Rightarrow> 'n"
  uid :: int

datatype os_event =
    EMkdirAll string bool
  | EChmod string nat bool
  | ELstat string lstat_answer
  | EDial string bool
  | ERemove string
  | EListen string bool
  | EClose

record 'n machine =
  os_state :: 'n
  events :: "os_event list"

definition call_bool :: "('n \<Rightarrow> bool \<times> 'n) \<Rightarrow> (bool \<Rightarrow> os_event) \<Rightarrow> 'n machine \<Rightarrow> bool \<times> 'n machine" where
  "call_bool f ev m = (let (b, n) = f (os_state m) in (b, \<lparr>os_state = n, events = events m @ [ev b]\<rparr>))"

definition Lstat :: "'n os \<Rightarrow> string \<Rightarrow> 'n machine \<Rightarrow> lstat_answer \<times> 'n machine" where
  "Lstat os p m = (let (a, n) = lstat os p (os_state m) in (a, \<lparr>os_state = n, events = events m @ [ELstat p a]\<rparr>))"

definition MkdirAll :: "'n os \<Rightarrow> string \<Rightarrow> 'n machine \<Rightarrow> bool \<times> 'n machine" where
  "MkdirAll os p = call_bool (mkdir_all os p) (EMkdirAll p)"

definition Chmod :: "'n os \<Rightarrow> string \<Rightarrow> nat \<Rightarrow> 'n machine \<Rightarrow> bool \<times> 'n machine" where
  "Chmod os p mode = call_bool (chmod os p mode) (EChmod p mode)"

definition Remove :: "'n os \<Rightarrow> string \<Rightarrow> 'n machine \<Rightarrow> bool \<times> 'n machine" where
  "Remove os p = call_bool (remove_file os p) (\<lambda>_. ERemove p)"

definition Listen_net :: "'n os \<Rightarrow> string \<Rightarrow> 'n machine \<Rightarrow> bool \<times> 'n machine" where
  "Listen_net os p = call_bool (listen_unix os p) (EListen p)"

definition Close :: "'n os \<Rightarrow> 'n machine \<Rightarrow> 'n machine" where
  "Close os m = \<lparr>os_state = close_listener os (os_state m), events = events m @ [EClose]\<rparr>"

subsection \<open>Binding\<close>

datatype listen_err =
    EmptyPath | InvalidPath string | MkdirFailed | ChmodDirFailed | StatDirFailed | NotADirectory | ParentSymlink
  | NotPrivate nat | NoOwnership | ForeignOwner | NotASocket | ErrSocketInUse string | RemoveFailed | LstatFailed
  | BindFailed | ChmodSocketFailed

text \<open>Mode 0700, 0600 and the mask 077.\<close>

definition dir_mode :: nat where "dir_mode = 448"

definition socket_mode :: nat where "socket_mode = 384"

definition others_mask :: nat where "others_mask = 63"

definition check_dir :: "'n os \<Rightarrow> file_info \<Rightarrow> listen_err option" where
  "check_dir os fi =
     (if \<not> fi_dir fi then Some NotADirectory
      else if fi_symlink fi then Some ParentSymlink
      else if and (fi_perm fi) others_mask \<noteq> 0 then Some (NotPrivate (fi_perm fi))
      else
        (case fi_uid fi of
           None \<Rightarrow> Some NoOwnership
         | Some owner \<Rightarrow>
             if uid os < 0 then Some NoOwnership
             else if owner \<noteq> uid os then Some ForeignOwner
             else None))"

definition ensurePrivateDir :: "'n os \<Rightarrow> string \<Rightarrow> 'n machine \<Rightarrow> listen_err option \<times> 'n machine" where
  "ensurePrivateDir os dir m =
     (case Chmod os dir dir_mode m of
        (False, m1) \<Rightarrow> (Some ChmodDirFailed, m1)
      | (True, m1) \<Rightarrow>
          (case Lstat os dir m1 of
             (Info fi, m2) \<Rightarrow> (check_dir os fi, m2)
           | (_, m2) \<Rightarrow> (Some StatDirFailed, m2)))"

definition restrictSocketFile :: "'n os \<Rightarrow> string \<Rightarrow> 'n machine \<Rightarrow> listen_err option \<times> 'n machine" where
  "restrictSocketFile os path m =
     (case Chmod os path socket_mode m of (ok, m1) \<Rightarrow> (if ok then None else Some ChmodSocketFailed, m1))"

definition removableSocketFile :: "file_info \<Rightarrow> bool" where
  "removableSocketFile fi = fi_socket fi"

definition socketAlive :: "'n os \<Rightarrow> string \<Rightarrow> 'n machine \<Rightarrow> bool \<times> 'n machine" where
  "socketAlive os path = call_bool (dial os path) (EDial path)"

text \<open>
  The operations of a platform: making sure that a directory is private, telling whether a file may be a
  stale socket, and restricting the socket file.
\<close>

type_synonym 'n path_check = "string \<Rightarrow> 'n machine \<Rightarrow> listen_err option \<times> 'n machine"

text \<open>What stands at the path is cleared away, or is a reason to stop.\<close>

definition clear_path :: "(file_info \<Rightarrow> bool) \<Rightarrow> 'n os \<Rightarrow> string \<Rightarrow> 'n machine \<Rightarrow> listen_err option \<times> 'n machine" where
  "clear_path removable os path m =
     (case Lstat os path m of
        (Info fi, m1) \<Rightarrow>
          if \<not> removable fi then (Some NotASocket, m1)
          else
            (case socketAlive os path m1 of
               (True, m2) \<Rightarrow> (Some (ErrSocketInUse path), m2)
             | (False, m2) \<Rightarrow>
                 (case Remove os path m2 of (ok, m3) \<Rightarrow> (if ok then None else Some RemoveFailed, m3)))
      | (NotExist, m1) \<Rightarrow> (None, m1)
      | (LstatErr, m1) \<Rightarrow> (Some LstatFailed, m1))"

definition bind_socket :: "'n path_check \<Rightarrow> 'n os \<Rightarrow> string \<Rightarrow> 'n machine \<Rightarrow> (listen_err + string) \<times> 'n machine" where
  "bind_socket restrict os path m =
     (case Listen_net os path m of
        (False, m1) \<Rightarrow> (Inl BindFailed, m1)
      | (True, m1) \<Rightarrow>
          (case restrict path m1 of
             (Some e, m2) \<Rightarrow> (Inl e, snd (Remove os path (Close os m2)))
           | (None, m2) \<Rightarrow> (Inr path, m2)))"

definition listen_at ::
  "'n path_check \<Rightarrow> (file_info \<Rightarrow> bool) \<Rightarrow> 'n path_check \<Rightarrow> 'n os \<Rightarrow> string \<Rightarrow> string \<Rightarrow> 'n machine
     \<Rightarrow> (listen_err + string) \<times> 'n machine"
where
  "listen_at ensure removable restrict os dir path m =
     (case MkdirAll os dir m of
        (False, m1) \<Rightarrow> (Inl MkdirFailed, m1)
      | (True, m1) \<Rightarrow>
          (case ensure dir m1 of
             (Some e, m2) \<Rightarrow> (Inl e, m2)
           | (None, m2) \<Rightarrow>
               (case clear_path removable os path m2 of
                  (Some e, m3) \<Rightarrow> (Inl e, m3)
                | (None, m3) \<Rightarrow> bind_socket restrict os path m3)))"

definition ListenUnix :: "'n os \<Rightarrow> string \<Rightarrow> 'n machine \<Rightarrow> (listen_err + string) \<times> 'n machine" where
  "ListenUnix os path0 m =
     (let path1 = trim_space path0; path = path_clean path1; dir = path_dir path in
      if path1 = '''' then (Inl EmptyPath, m)
      else if path = ''.'' \<or> path = ''/'' then (Inl (InvalidPath path), m)
      else listen_at (ensurePrivateDir os) removableSocketFile (restrictSocketFile os) os dir path m)"

definition RemoveUnixSocket :: "'n os \<Rightarrow> string \<Rightarrow> 'n machine \<Rightarrow> 'n machine" where
  "RemoveUnixSocket os path0 m =
     (let path = trim_space path0 in if path = '''' then m else snd (Remove os path m))"

subsection \<open>What the trace of a call justifies\<close>

text \<open>Every event of a trace satisfies a condition on the events before it.\<close>

fun justified :: "(os_event list \<Rightarrow> os_event \<Rightarrow> bool) \<Rightarrow> os_event list \<Rightarrow> os_event list \<Rightarrow> bool" where
  "justified P pre [] = True"
| "justified P pre (e # es) = (P pre e \<and> justified P (pre @ [e]) es)"

lemma justified_append:
  "justified P pre (es @ es') \<longleftrightarrow> justified P pre es \<and> justified P (pre @ es) es'"
  by (induction es arbitrary: pre) auto

lemma justified_iff: "justified P pre es \<longleftrightarrow> (\<forall>a e b. es = a @ e # b \<longrightarrow> P (pre @ a) e)"
proof (induction es arbitrary: pre)
  case (Cons x es)
  show ?case
  proof
    assume "justified P pre (x # es)"
    with Cons show "\<forall>a e b. x # es = a @ e # b \<longrightarrow> P (pre @ a) e"
      by (auto simp: Cons_eq_append_conv)
  next
    assume r: "\<forall>a e b. x # es = a @ e # b \<longrightarrow> P (pre @ a) e"
    from r [rule_format, of "[]" x es] have "P pre x" by simp
    moreover have "P ((pre @ [x]) @ a) e" if "es = a @ e # b" for a e b
      using r [rule_format, of "x # a" e b] that by simp
    ultimately show "justified P pre (x # es)" using Cons [of "pre @ [x]"] by auto
  qed
qed simp

text \<open>A directory that belongs to the user and to nobody else.\<close>

definition private_dir :: "'n os \<Rightarrow> file_info \<Rightarrow> bool" where
  "private_dir os fi \<longleftrightarrow>
     fi_dir fi \<and> \<not> fi_symlink fi \<and> and (fi_perm fi) others_mask = 0 \<and> 0 \<le> uid os \<and> fi_uid fi = Some (uid os)"

lemma check_dir_None: "check_dir os fi = None \<longleftrightarrow> private_dir os fi"
  by (auto simp: check_dir_def private_dir_def split: option.splits)

text \<open>
  When a file may be removed: one that may be a stale socket and does not answer, or the one bound by this
  call. When the socket may be bound: the parent was seen to be trusted, and nothing answered at the path.
\<close>

fun may_do :: "(file_info \<Rightarrow> bool) \<Rightarrow> (file_info \<Rightarrow> bool) \<Rightarrow> string \<Rightarrow> string \<Rightarrow> os_event list \<Rightarrow> os_event \<Rightarrow> bool" where
  "may_do trusted removable dir path pre (ERemove p) \<longleftrightarrow>
     p = path \<and> ((\<exists>fi. ELstat path (Info fi) \<in> set pre \<and> removable fi) \<and> EDial path False \<in> set pre
                 \<or> EListen path True \<in> set pre)"
| "may_do trusted removable dir path pre (EListen p b) \<longleftrightarrow>
     p = path \<and> (\<exists>fi. ELstat dir (Info fi) \<in> set pre \<and> trusted fi) \<and> EDial path True \<notin> set pre
     \<and> (ELstat path NotExist \<in> set pre \<or> ERemove path \<in> set pre)"
| "may_do trusted removable dir path pre (EChmod p mode b) \<longleftrightarrow>
     p = dir \<and> mode = dir_mode \<or> p = path \<and> mode = socket_mode \<and> EListen path True \<in> set pre"
| "may_do trusted removable dir path pre (EMkdirAll p b) \<longleftrightarrow> p = dir"
| "may_do trusted removable dir path pre _ \<longleftrightarrow> True"

lemmas os_call_defs = call_bool_def Lstat_def MkdirAll_def Chmod_def Remove_def Listen_net_def Close_def socketAlive_def

text \<open>What the check of a directory may do: look, and change the mode of this directory.\<close>

fun dir_event :: "string \<Rightarrow> os_event \<Rightarrow> bool" where
  "dir_event dir (EChmod p mode b) \<longleftrightarrow> p = dir \<and> mode = dir_mode"
| "dir_event dir (ELstat p a) \<longleftrightarrow> True"
| "dir_event dir _ \<longleftrightarrow> False"

lemma justified_dir: "list_all (dir_event dir) es \<Longrightarrow> justified (may_do trusted removable dir path) pre es"
proof (induction es arbitrary: pre)
  case (Cons e es)
  then show ?case by (cases e) auto
qed simp

definition socket_events :: "string \<Rightarrow> os_event list \<Rightarrow> bool" where
  "socket_events path es \<longleftrightarrow> set es \<subseteq> range (EChmod path socket_mode)"

lemma justified_restrict:
  "socket_events path es \<Longrightarrow> EListen path True \<in> set pre \<Longrightarrow> justified (may_do trusted removable dir path) pre es"
  by (induction es arbitrary: pre) (auto simp: socket_events_def)

lemma clear_path_trace:
  assumes "clear_path removable os path m = (r, m')"
  shows "\<exists>es. events m' = events m @ es
    \<and> (\<forall>pre. justified (may_do trusted removable dir path) pre es)
    \<and> (r = None \<longrightarrow> EDial path True \<notin> set es \<and> (ELstat path NotExist \<in> set es \<or> ERemove path \<in> set es))
    \<and> (EDial path True \<in> set es \<longleftrightarrow> r = Some (ErrSocketInUse path))"
  using assms
  by (auto simp: clear_path_def os_call_defs split: prod.splits bool.splits lstat_answer.splits if_splits)

text \<open>
  What the steps rely on. A directory check that succeeds has seen a directory that is trusted; a
  restriction only changes the mode of the socket, and leaves a fixed trace when it succeeds.
\<close>

locale listen_platform =
  fixes ensure :: "'n path_check"
    and restrict :: "'n path_check"
    and trusted :: "file_info \<Rightarrow> bool"
    and hardened :: "string \<Rightarrow> os_event list"
  assumes ensure_trace: "ensure dir m = (r, m') \<Longrightarrow> \<exists>es. events m' = events m @ es \<and> list_all (dir_event dir) es
      \<and> (r = None \<longrightarrow> (\<exists>fi. ELstat dir (Info fi) \<in> set es \<and> trusted fi))"
    and restrict_trace: "restrict path m = (r, m') \<Longrightarrow> \<exists>es. events m' = events m @ es
      \<and> socket_events path es \<and> (r = None \<longrightarrow> es = hardened path)"
    and not_in_use: "ensure dir m \<noteq> (Some (ErrSocketInUse p), m')" "restrict dir m \<noteq> (Some (ErrSocketInUse p), m')"
begin

lemma bind_socket_trace:
  assumes "bind_socket restrict os path m = (r, m')"
    and "\<exists>fi. ELstat dir (Info fi) \<in> set pre \<and> trusted fi" "EDial path True \<notin> set pre"
    and "ELstat path NotExist \<in> set pre \<or> ERemove path \<in> set pre"
  shows "\<exists>es. events m' = events m @ es \<and> justified (may_do trusted removable dir path) pre es
    \<and> (\<forall>p. r = Inr p \<longrightarrow> p = path \<and> es = EListen path True # hardened path)
    \<and> EDial path True \<notin> set es \<and> r \<noteq> Inl (ErrSocketInUse path)"
proof -
  obtain b m1 where l: "Listen_net os path m = (b, m1)" by (cases "Listen_net os path m")
  then have e1: "events m1 = events m @ [EListen path b]"
    by (auto simp: os_call_defs split: prod.splits)
  have j1: "may_do trusted removable dir path pre (EListen path b)"
    using assms(2-4) by auto
  show ?thesis
  proof (cases b)
    case False
    with assms(1) l e1 j1 show ?thesis by (auto simp: bind_socket_def)
  next
    case True
    obtain x m2 where x: "restrict path m1 = (x, m2)" by (cases "restrict path m1")
    from restrict_trace [OF x] obtain es where es: "events m2 = events m1 @ es"
      "socket_events path es" "x = None \<Longrightarrow> es = hardened path" by blast
    have j2: "justified (may_do trusted removable dir path) (pre @ [EListen path True]) es"
      by (rule justified_restrict [OF es(2)]) simp
    have nd: "EDial path True \<notin> set es" using es(2) by (auto simp: socket_events_def)
    show ?thesis
    proof (cases x)
      case None
      with assms(1) l e1 j1 j2 nd es x True show ?thesis by (auto simp: bind_socket_def)
    next
      case (Some e)
      then have "e \<noteq> ErrSocketInUse path" using not_in_use(2) x by blast
      moreover have "m' = snd (Remove os path (Close os m2))" "r = Inl e"
        using assms(1) l x True Some by (simp_all add: bind_socket_def)
      moreover have "events (snd (Remove os path (Close os m2))) = events m @ EListen path True # es @ [EClose, ERemove path]"
        using e1 es(1) True by (auto simp: os_call_defs split: prod.splits)
      ultimately show ?thesis
        using j1 j2 nd True by (auto simp: justified_append)
    qed
  qed
qed

lemma listen_at_trace:
  assumes "listen_at ensure removable restrict os dir path m = (r, m')"
  shows "\<exists>es. events m' = events m @ es \<and> justified (may_do trusted removable dir path) [] es
    \<and> (\<forall>p. r = Inr p \<longrightarrow> p = path \<and> (\<exists>a. es = a @ EListen p True # hardened p))
    \<and> (EDial path True \<in> set es \<longleftrightarrow> r = Inl (ErrSocketInUse path))"
proof -
  let ?J = "justified (may_do trusted removable dir path)"
  obtain b1 m1 where mk: "MkdirAll os dir m = (b1, m1)" by (cases "MkdirAll os dir m")
  then have e1: "events m1 = events m @ [EMkdirAll dir b1]"
    by (auto simp: os_call_defs split: prod.splits)
  obtain r2 m2 where pd: "ensure dir m1 = (r2, m2)" by (cases "ensure dir m1")
  from ensure_trace [OF pd] obtain es2 where es2: "events m2 = events m1 @ es2" "list_all (dir_event dir) es2"
    "r2 = None \<Longrightarrow> \<exists>fi. ELstat dir (Info fi) \<in> set es2 \<and> trusted fi" by blast
  have no2: "EDial path True \<notin> set es2" using es2(2) by (auto simp: list_all_iff)
  have nu2: "r2 \<noteq> Some (ErrSocketInUse path)" using not_in_use(1) pd by blast
  obtain r3 m3 where cp: "clear_path removable os path m2 = (r3, m3)" by (cases "clear_path removable os path m2")
  from clear_path_trace [OF cp] obtain es3 where es3: "events m3 = events m2 @ es3" "\<And>pre. ?J pre es3"
    "r3 = None \<Longrightarrow> EDial path True \<notin> set es3 \<and> (ELstat path NotExist \<in> set es3 \<or> ERemove path \<in> set es3)"
    "EDial path True \<in> set es3 \<longleftrightarrow> r3 = Some (ErrSocketInUse path)" by blast
  let ?pre = "EMkdirAll dir b1 # es2 @ es3"
  have j: "?J [] (EMkdirAll dir b1 # es2)" "?J [] ?pre"
    using justified_dir [OF es2(2)] es3(2) by (simp_all add: justified_append)
  consider "\<not> b1" "r = Inl MkdirFailed" "m' = m1"
    | e where "b1" "r2 = Some e" "r = Inl e" "m' = m2"
    | e where "b1" "r2 = None" "r3 = Some e" "r = Inl e" "m' = m3"
    | "b1" "r2 = None" "r3 = None" "bind_socket restrict os path m3 = (r, m')"
    using assms mk pd cp by (cases b1; cases r2; cases r3) (auto simp: listen_at_def)
  then show ?thesis
  proof cases
    case 1
    then show ?thesis using e1 by (intro exI [of _ "[EMkdirAll dir b1]"]) auto
  next
    case 2
    then show ?thesis
      using e1 es2(1) j(1) no2 nu2 by (intro exI [of _ "EMkdirAll dir b1 # es2"]) auto
  next
    case 3
    then show ?thesis
      using e1 es2(1) es3(1,4) j(2) no2 by (intro exI [of _ ?pre]) auto
  next
    case 4
    have "\<exists>fi. ELstat dir (Info fi) \<in> set ?pre \<and> trusted fi" "EDial path True \<notin> set ?pre"
      "ELstat path NotExist \<in> set ?pre \<or> ERemove path \<in> set ?pre"
      using es2(3) [OF 4(2)] es3(3) [OF 4(3)] no2 by auto
    from bind_socket_trace [OF 4(4) this, of removable] obtain es4 where
      "events m' = events m3 @ es4" "?J ?pre es4" "\<And>p. r = Inr p \<Longrightarrow> p = path \<and> es4 = EListen path True # hardened path"
      "EDial path True \<notin> set es4" "r \<noteq> Inl (ErrSocketInUse path)" by blast
    with e1 es2(1) es3(1,4) j(2) no2 4(3) show ?thesis
      by (intro exI [of _ "?pre @ es4"]) (auto simp: justified_append)
  qed
qed

end

interpretation unix: listen_platform "ensurePrivateDir os" "restrictSocketFile os" "private_dir os" "\<lambda>p. [EChmod p socket_mode True]"
  by unfold_locales
    (auto simp: ensurePrivateDir_def restrictSocketFile_def socket_events_def os_call_defs private_dir_def check_dir_def
      split: prod.splits bool.splits lstat_answer.splits option.splits if_splits)

text \<open>
  Property C18. \<open>ListenUnix\<close> does nothing it should not, whatever the file system answers. Along every run: a file
  is removed only at the socket path, and only a socket nobody answered on or the one this call
  bound; the socket is bound only after the parent directory was seen as a directory of this user
  with no permission for others, and after the path was free; modes are changed only of the parent
  and of the bound socket. A live listener is reported as in use and left alone.
\<close>

theorem ListenUnix_safe:
  assumes "ListenUnix os path0 m = (r, m')"
  shows "\<exists>es. events m' = events m @ es
    \<and> (\<forall>a e b. es = a @ e # b \<longrightarrow>
         may_do (private_dir os) fi_socket (path_dir (path_clean (trim_space path0))) (path_clean (trim_space path0)) a e)
    \<and> (\<forall>p. r = Inr p \<longrightarrow> p = path_clean (trim_space path0) \<and> (\<exists>a. es = a @ [EListen p True, EChmod p socket_mode True]))
    \<and> (EDial (path_clean (trim_space path0)) True \<in> set es \<longleftrightarrow> r = Inl (ErrSocketInUse (path_clean (trim_space path0))))"
proof (cases "m' = m \<and> r \<in> {Inl EmptyPath, Inl (InvalidPath (path_clean (trim_space path0)))}")
  case True
  then show ?thesis by (intro exI [of _ "[]"]) auto
next
  case False
  have sock: "removableSocketFile = fi_socket" by (simp add: fun_eq_iff removableSocketFile_def)
  from False assms have "listen_at (ensurePrivateDir os) fi_socket (restrictSocketFile os) os
      (path_dir (path_clean (trim_space path0))) (path_clean (trim_space path0)) m = (r, m')"
    by (auto simp: ListenUnix_def Let_def sock split: if_splits)
  from unix.listen_at_trace [OF this] show ?thesis
    unfolding justified_iff append_Nil .
qed

text \<open>A file system on which every call succeeds; nothing is at the socket path.\<close>

definition demo_os :: "unit os" where
  "demo_os =
     \<lparr>mkdir_all = (\<lambda>_ n. (True, n)), chmod = (\<lambda>_ _ n. (True, n)),
      lstat = (\<lambda>p n. (if p = ''/run/x'' then
          Info \<lparr>fi_dir = True, fi_symlink = False, fi_socket = False, fi_irregular = False, fi_perm = 448, fi_uid = Some 1000\<rparr> else NotExist, n)),
      dial = (\<lambda>_ n. (False, n)), remove_file = (\<lambda>_ n. (True, n)), listen_unix = (\<lambda>_ n. (True, n)),
      close_listener = id, uid = 1000\<rparr>"

lemma demo_path:
  "path_clean (trim_space ''/run/x/d.sock'') = ''/run/x/d.sock''" "path_dir ''/run/x/d.sock'' = ''/run/x''"
  by (simp_all add: path_clean_def path_dir_def rooted_def clean_elems_def clean_step_def path_string_def string_eval)

lemma demo_listen:
  "ListenUnix demo_os ''/run/x/d.sock'' \<lparr>os_state = (), events = []\<rparr> = (Inr ''/run/x/d.sock'',
     \<lparr>os_state = (), events =
       [EMkdirAll ''/run/x'' True, EChmod ''/run/x'' 448 True,
        ELstat ''/run/x'' (Info \<lparr>fi_dir = True, fi_symlink = False, fi_socket = False, fi_irregular = False, fi_perm = 448, fi_uid = Some 1000\<rparr>),
        ELstat ''/run/x/d.sock'' NotExist, EListen ''/run/x/d.sock'' True, EChmod ''/run/x/d.sock'' 384 True]\<rparr>)"
proof -
  have t: "trim_space ''/run/x/d.sock'' = ''/run/x/d.sock''" by (simp add: string_eval)
  have m: "and (448 :: nat) 63 = 0" by code_simp
  show ?thesis
    unfolding ListenUnix_def Let_def demo_path(1) demo_path(2)
    by (simp add: t listen_at_def ensurePrivateDir_def check_dir_def clear_path_def bind_socket_def restrictSocketFile_def os_call_defs
        demo_os_def dir_mode_def socket_mode_def others_mask_def m)
qed

theorem ListenUnix_safe_witness:
  "\<exists>a. events (snd (ListenUnix demo_os ''/run/x/d.sock'' \<lparr>os_state = (), events = []\<rparr>))
     = a @ [EListen ''/run/x/d.sock'' True, EChmod ''/run/x/d.sock'' socket_mode True]"
  using ListenUnix_safe [OF demo_listen] demo_listen by auto

subsection \<open>Two processes and one path\<close>

text \<open>
  A file system with one socket path in a private directory. A socket file is a number; some of
  the sockets that were bound are still served. Binding fails while there is a file. Closing a Go
  listener stops serving and removes the file of its path.
\<close>

record sockets =
  at_path :: "nat option"
  live :: "nat set"
  bound :: nat

definition unix_fs :: "sockets os" where
  "unix_fs =
     \<lparr>mkdir_all = (\<lambda>_ n. (True, n)), chmod = (\<lambda>_ _ n. (True, n)),
      lstat = (\<lambda>p n. (if p = ''/run/x'' then
            Info \<lparr>fi_dir = True, fi_symlink = False, fi_socket = False, fi_irregular = False, fi_perm = 448, fi_uid = Some 1000\<rparr>
          else if at_path n = None then NotExist
          else Info \<lparr>fi_dir = False, fi_symlink = False, fi_socket = True, fi_irregular = False, fi_perm = 384, fi_uid = Some 1000\<rparr>, n)),
      dial = (\<lambda>_ n. (case at_path n of None \<Rightarrow> False | Some k \<Rightarrow> k \<in> live n, n)),
      remove_file = (\<lambda>_ n. (at_path n \<noteq> None, n\<lparr>at_path := None\<rparr>)),
      listen_unix = (\<lambda>_ n. (if at_path n = None
          then (True, n\<lparr>at_path := Some (bound n), live := insert (bound n) (live n), bound := Suc (bound n)\<rparr>)
          else (False, n))),
      close_listener = (\<lambda>n. n), uid = 1000\<rparr>"

text \<open>\<^verbatim>\<open>httpSrv.Shutdown\<close> of the process that serves socket \<open>k\<close> begins with closing its listener.\<close>

definition stop_serving :: "nat \<Rightarrow> sockets machine \<Rightarrow> sockets machine" where
  "stop_serving k m = m\<lparr>os_state := (os_state m)\<lparr>live := live (os_state m) - {k}, at_path := None\<rparr>\<rparr>"

text \<open>
  The end of \<open>runServer\<close> in the old process and the bind of the successor can interleave so that the
  successor is cut off: it binds as soon as the old listener is closed, and the old process, which
  may still be waiting for its connections to end, then removes the file at the path, now the
  successor's. The successor goes on serving a socket that nobody can find.
\<close>

theorem takeover_can_lose_socket:
  assumes "m = \<lparr>os_state = \<lparr>at_path = Some 0, live = {0}, bound = 1\<rparr>, events = []\<rparr>"
  shows "fst (ListenUnix unix_fs ''/run/x/d.sock'' m) = Inl (ErrSocketInUse ''/run/x/d.sock'')
    \<and> fst (ListenUnix unix_fs ''/run/x/d.sock'' (stop_serving 0 m)) = Inr ''/run/x/d.sock''
    \<and> (let m' = RemoveUnixSocket unix_fs ''/run/x/d.sock'' (snd (ListenUnix unix_fs ''/run/x/d.sock'' (stop_serving 0 m)))
       in live (os_state m') = {1} \<and> fst (socketAlive unix_fs ''/run/x/d.sock'' m') = False)"
proof -
  have t: "trim_space ''/run/x/d.sock'' = ''/run/x/d.sock''" by (simp add: string_eval)
  have b: "and (448 :: nat) 63 = 0" by code_simp
  have l: "ListenUnix unix_fs ''/run/x/d.sock'' m = listen_at (ensurePrivateDir unix_fs) removableSocketFile
      (restrictSocketFile unix_fs) unix_fs ''/run/x'' ''/run/x/d.sock'' m" for m
    unfolding ListenUnix_def Let_def demo_path(1) demo_path(2) by (simp add: t)
  note defs = listen_at_def ensurePrivateDir_def check_dir_def clear_path_def bind_socket_def restrictSocketFile_def
    removableSocketFile_def RemoveUnixSocket_def dir_mode_def socket_mode_def others_mask_def
  show ?thesis
    unfolding l assms stop_serving_def
    by (simp add: t b defs os_call_defs unix_fs_def Let_def)
qed

end
