(* ===== verification/Go_JSON_Prefix.thy ===== *)
theory Go_JSON_Prefix
  imports Go_JSON
begin

text \<open>
  Texts that break off. A JSON object ends at its last brace and not before, so a reader that gets only a part
  of a response or of a pipe never takes it for the whole.
\<close>

subsection \<open>Running the lexer over a part\<close>

fun lrun :: "lstate \<Rightarrow> string \<Rightarrow> (lstate \<times> jtok list) option" where
  "lrun st [] = Some (st, [])"
| "lrun st (c # cs) =
     (case lstep st c of
        None \<Rightarrow> None
      | Some (st', ts) \<Rightarrow> map_option (\<lambda>(q, us). (q, ts @ us)) (lrun st' cs))"

lemma append2: "(@) (xs @ ys) = (\<lambda>zs. xs @ ys @ zs)"
  by (simp add: fun_eq_iff)

lemma lex_append:
  "lex st (s @ t) = (case lrun st s of None \<Rightarrow> None | Some (q, ts) \<Rightarrow> map_option ((@) ts) (lex q t))"
  by (induction st s rule: lrun.induct) (auto split: option.splits simp: option.map_comp comp_def option.map_ident append2)

lemma lex_lrun: "lex st s = (case lrun st s of None \<Rightarrow> None | Some (q, ts) \<Rightarrow> map_option ((@) ts) (lfinish q))"
  using lex_append [of st s "[]"] by (simp split: option.splits prod.splits)

lemma lfinish_cases: "lfinish q = Some f \<Longrightarrow> q = LStart \<and> f = [] \<or> (\<exists>j. f = [TAtom j])"
  by (cases q) (auto split: if_splits)

lemma lex_some_token: "st \<noteq> LStart \<Longrightarrow> lex st cs \<noteq> Some []"
proof (induction cs arbitrary: st)
  case Nil
  then show ?case using lfinish_cases [of st] by auto
next
  case (Cons c cs)
  then show ?case
    by (cases st) (auto simp: then_start_def split: option.splits if_splits)
qed

lemma lex_no_token: "lex LStart cs = Some [] \<Longrightarrow> list_all json_ws cs"
proof (induction cs)
  case (Cons c cs)
  show ?case
  proof (cases "json_ws c")
    case True
    with Cons show ?thesis by (simp add: lstart_def)
  next
    case False
    then have "lex LStart (c # cs) \<noteq> Some []"
      by (simp add: lstart_def lex_some_token split: option.splits)
    with Cons.prems show ?thesis by blast
  qed
qed simp

subsection \<open>Where a value inside brackets can end\<close>

lemma accept_inside: "st \<noteq> [] \<Longrightarrow> accept j st \<noteq> Some (PDone v)" "st \<noteq> [] \<Longrightarrow> accept j st = Some (P m st') \<Longrightarrow> st' \<noteq> []"
  "accept j st = Some (P m st') \<Longrightarrow> st' \<noteq> []"
  by (cases "(j, st)" rule: accept.cases; auto)+

lemma pvalue_inside:
  "st \<noteq> [] \<Longrightarrow> pvalue t st \<noteq> Some (PDone v)" "st \<noteq> [] \<Longrightarrow> pvalue t st = Some (P m st') \<Longrightarrow> st' \<noteq> []"
  using accept_inside by (cases t; auto simp: open_frame_def split: if_splits)+

lemma pstep_inside:
  "st \<noteq> [] \<Longrightarrow> pstep (P m st) t = Some (PDone v) \<Longrightarrow> t = TRBrace \<or> t = TRBrack"
  "st \<noteq> [] \<Longrightarrow> pstep (P m st) t = Some (P m' st') \<Longrightarrow> st' \<noteq> []"
proof -
  show "t = TRBrace \<or> t = TRBrack" if "st \<noteq> []" "pstep (P m st) t = Some (PDone v)"
    using that pvalue_inside(1) [OF that(1)] accept_inside(1) [OF that(1)]
    by (cases "(P m st, t)" rule: pstep.cases) (simp_all add: open_frame_def split: if_splits)
  show "st' \<noteq> []" if "st \<noteq> []" "pstep (P m st) t = Some (P m' st')"
    using that pvalue_inside(2) [OF that(1)] accept_inside(3)
    by (cases "(P m st, t)" rule: pstep.cases) (auto simp: open_frame_def split: if_splits)
qed

lemma prun_closes:
  "prun (P m st) ts = Some (PDone v) \<Longrightarrow> st \<noteq> [] \<Longrightarrow> ts \<noteq> [] \<and> last ts \<in> {TRBrace, TRBrack}"
proof (induction ts arbitrary: m st)
  case (Cons t ts)
  then obtain q where q: "pstep (P m st) t = Some q" "prun q ts = Some (PDone v)"
    by (auto split: option.splits)
  show ?case
  proof (cases q)
    case (PDone w)
    with q pstep_inside(1) [OF Cons.prems(2)] show ?thesis by (auto simp: prun_PDone)
  next
    case (P m' st')
    with q Cons.IH pstep_inside(2) [OF Cons.prems(2)] show ?thesis by auto
  qed
qed simp

text \<open>Inside a bracket only a bracket ends the value, so an atom that is still being read does not.\<close>

lemma prun_not_atom:
  "prun (P m st) (ts @ f) = Some (PDone v) \<Longrightarrow> st \<noteq> [] \<Longrightarrow> lfinish q = Some f \<Longrightarrow> q = LStart \<and> f = []"
  using prun_closes [of m st "ts @ f" v] lfinish_cases [of q f] by auto

lemma lex_brace: "lex LStart (CHR ''{'' # u) = map_option ((#) TLBrace) (lex LStart u)"
proof -
  have "lstart CHR ''{'' = Some (LStart, [TLBrace])" by (simp add: lstart_def json_ws_def byte_def)
  then show ?thesis by (cases "lex LStart u") simp_all
qed

lemma json_parse_brace:
  "json_parse (CHR ''{'' # u) = Some x \<longleftrightarrow>
     (\<exists>ts. lex LStart u = Some ts \<and> prun (P PKeyOrEnd [FObj []]) ts = Some (PDone x))"
  by (auto simp: json_parse_def lex_brace open_frame_def max_depth_def simp del: lex.simps split: option.splits pstate.splits)

lemma prefix_of_object:
  assumes "json_parse (CHR ''{'' # s @ t) = Some v" "json_parse (CHR ''{'' # s) = Some w"
  shows "list_all json_ws t"
proof -
  from assms(1) obtain ts where ts: "lex LStart (s @ t) = Some ts" "prun (P PKeyOrEnd [FObj []]) ts = Some (PDone v)"
    unfolding json_parse_brace by blast
  from assms(2) obtain us where us: "lex LStart s = Some us" "prun (P PKeyOrEnd [FObj []]) us = Some (PDone w)"
    unfolding json_parse_brace by blast
  from ts(1) obtain q ts1 ts2 where q: "lrun LStart s = Some (q, ts1)" "lex q t = Some ts2" "ts = ts1 @ ts2"
    by (auto simp: lex_append split: option.splits)
  with us(1) obtain f where f: "lfinish q = Some f" "us = ts1 @ f"
    by (auto simp: lex_lrun)
  with us(2) prun_not_atom have "q = LStart" "f = []" by blast+
  with us(2) f(2) ts(2) q(3) have "ts2 = []" by (simp add: prun_append prun_PDone)
  with q(2) \<open>q = LStart\<close> show ?thesis by (simp add: lex_no_token)
qed

text \<open>The same for a decoder that stops after the first value.\<close>

lemma prun_first_inside:
  "prun_first (P m st) ts = Some (P m' st') \<Longrightarrow> st \<noteq> [] \<Longrightarrow> prun (P m st) ts = Some (P m' st') \<and> st' \<noteq> []"
proof (induction ts arbitrary: m st)
  case (Cons t ts)
  then obtain q where q: "pstep (P m st) t = Some q" "prun_first q ts = Some (P m' st')"
    by (auto split: option.splits)
  then obtain m1 st1 where "q = P m1 st1" by (cases q) auto
  with q Cons.IH pstep_inside(2) [OF Cons.prems(2)] show ?case by auto
qed simp

lemma prun_first_done: "prun_first p ts = Some (PDone w) \<Longrightarrow> prun p (ts @ us) = Some q \<Longrightarrow> us = []"
  by (induction p ts rule: prun_first.induct) (auto simp: prun_PDone split: option.splits)

lemma prefix_of_first:
  assumes "lex st (s @ t) = Some ts" "prun (P m stk) ts = Some (PDone v)" "stk \<noteq> []" "scan_value st (P m stk) s = Some w"
  shows "list_all json_ws t"
  using assms
proof (induction s arbitrary: st m stk ts)
  case Nil
  then obtain f where "lfinish st = Some f" "prun_first (P m stk) f = Some (PDone w)"
    by (auto split: option.splits pstate.splits)
  moreover have "q = PDone w" if "prun_first q [] = Some (PDone w)" for q
    using that by (cases q) simp_all
  ultimately show ?case
    using lfinish_cases [of st f] pstep_inside(1) [OF Nil.prems(3)] by (fastforce split: option.splits)
next
  case (Cons c s)
  then obtain st' us ts' where step: "lstep st c = Some (st', us)" "lex st' (s @ t) = Some ts'" "ts = us @ ts'"
    by (auto split: option.splits)
  with Cons.prems obtain q where q: "prun_first (P m stk) us = Some q"
    by (auto split: option.splits)
  show ?case
  proof (cases q)
    case (PDone w')
    with q prun_first_done step(3) Cons.prems(2) have "ts' = []" by blast
    with step(2) lex_some_token have "lex LStart (s @ t) = Some []" by (cases "st' = LStart") auto
    from lex_no_token [OF this] show ?thesis by simp
  next
    case (P m' stk')
    with q prun_first_inside Cons.prems(3) have run: "prun (P m stk) us = Some (P m' stk')" "stk' \<noteq> []" by blast+
    with Cons.prems(2) step(3) have "prun (P m' stk') ts' = Some (PDone v)" by (simp add: prun_append)
    with Cons.IH [OF step(2) _ run(2)] Cons.prems(4) step(1) q P show ?thesis by simp
  qed
qed

lemma cut_object:
  assumes "json_parse (json_print (JObj kvs)) = Some v" "n < length (json_print (JObj kvs))"
  shows "json_parse (take n (json_print (JObj kvs))) = None" "json_first (take n (json_encode (JObj kvs))) = None"
proof (atomize (full), cases n)
  case 0
  have "json_parse [] = None" "json_first [] = None" by code_simp+
  with 0 show "json_parse (take n (json_print (JObj kvs))) = None \<and> json_first (take n (json_encode (JObj kvs))) = None"
    by simp
next
  case (Suc k)
  define body where "body = join_with CHR '','' (map (\<lambda>kv. json_quote (fst kv) @ '':'' @ json_print (snd kv)) kvs)"
  have whole: "json_print (JObj kvs) = CHR ''{'' # body @ ''}''" by (simp add: body_def)
  have k: "k \<le> length body" using assms(2) unfolding whole Suc by simp
  let ?s = "take k body" and ?t = "drop k body @ ''}''"
  have split: "json_print (JObj kvs) = CHR ''{'' # ?s @ ?t" unfolding whole by simp
  have cut: "take n (json_print (JObj kvs)) = CHR ''{'' # ?s" "take n (json_encode (JObj kvs)) = CHR ''{'' # ?s"
    unfolding json_encode_def whole Suc using k by simp_all
  have "\<not> json_ws CHR ''}''" by (simp add: json_ws_def byte_def)
  then have t: "\<not> list_all json_ws ?t" by simp
  note p = assms(1) [unfolded split]
  then obtain ts where ts: "lex LStart (?s @ ?t) = Some ts" "prun (P PKeyOrEnd [FObj []]) ts = Some (PDone v)"
    unfolding json_parse_brace by blast
  have "lstart CHR ''{'' = Some (LStart, [TLBrace])" by (simp add: lstart_def json_ws_def byte_def)
  then have first: "json_first (CHR ''{'' # ?s) = scan_value LStart (P PKeyOrEnd [FObj []]) ?s"
    by (simp add: json_first_def open_frame_def max_depth_def)
  show "json_parse (take n (json_print (JObj kvs))) = None \<and> json_first (take n (json_encode (JObj kvs))) = None"
    unfolding cut
  proof
    show "json_parse (CHR ''{'' # ?s) = None"
      using prefix_of_object [OF p] t by (cases "json_parse (CHR ''{'' # ?s)") auto
    show "json_first (CHR ''{'' # ?s) = None"
      using prefix_of_first [OF ts] t unfolding first
      by (cases "scan_value LStart (P PKeyOrEnd [FObj []]) ?s") auto
  qed
qed

text \<open>
  A JSON object that breaks off is not JSON. Of the text that \<^verbatim>\<open>json.Marshal\<close> and \<^verbatim>\<open>Encoder.Encode\<close>
  make of a struct or a map no part without its last brace is accepted by \<^verbatim>\<open>json.Unmarshal\<close> or by a
  \<^verbatim>\<open>Decoder\<close>, so whoever reads less than was written gets an error and never a value with fields missing.
\<close>

theorem json_object_prefix:
  assumes "json_parse (json_print (JObj kvs)) = Some v" "n < length (json_print (JObj kvs))"
  shows "json_parse (take n (json_print (JObj kvs))) = None \<and> json_first (take n (json_encode (JObj kvs))) = None"
  using cut_object [OF assms] by blast

theorem json_object_prefix_witness:
  "json_parse (take 1 (json_print (JObj [(''a'', JStr ''b'')]))) = None
   \<and> json_first (take 1 (json_encode (JObj [(''a'', JStr ''b'')]))) = None"
proof (rule json_object_prefix)
  show "json_parse (json_print (JObj [(''a'', JStr ''b'')])) = Some (JObj [(''a'', JStr ''b'')])"
    by (rule json_parse_print) (simp_all add: utf8_ok_ascii is_ascii_def byte_def max_depth_def)
qed simp

end
