(* ===== verification/Takeover.thy ===== *)
theory Takeover
  imports Local_API Listen Go_JSON_Prefix
begin

text \<open>
  \<^verbatim>\<open>cmd/xai-oauth/takeover.go\<close>: a new \<^verbatim>\<open>serve\<close> process asks the running daemon for its session and takes
  its place on the socket. The HTTP call over the socket is the \<open>unix_call\<close> of theory \<open>Client\<close>.

  A clock difference is turned into whole seconds as if it were exact; the conversion of the code
  goes through a \<^verbatim>\<open>float64\<close> and can round up by one second from 2^24 seconds (194 days) on.
\<close>

subsection \<open>The payload\<close>

record loginHandoff =
  lh_Secret :: string
  lh_AccessToken :: string
  lh_RefreshToken :: string
  lh_TokenEndpoint :: string
  lh_ExpiresIn :: int

record handoff_payload =
  hp_AccessToken :: string
  hp_RefreshToken :: string
  hp_TokenEndpoint :: string
  hp_ExpiresAt :: string
  hp_HasExpiry :: bool

definition handoff_payload_fields :: "handoff_payload field list" where
  "handoff_payload_fields =
     [str_field ''access_token'' (\<lambda>v s. s\<lparr>hp_AccessToken := v\<rparr>), str_field ''refresh_token'' (\<lambda>v s. s\<lparr>hp_RefreshToken := v\<rparr>),
      str_field ''token_endpoint'' (\<lambda>v s. s\<lparr>hp_TokenEndpoint := v\<rparr>), str_field ''expires_at'' (\<lambda>v s. s\<lparr>hp_ExpiresAt := v\<rparr>),
      bool_field ''has_expiry'' (\<lambda>v s. s\<lparr>hp_HasExpiry := v\<rparr>)]"

definition empty_payload :: handoff_payload where
  "empty_payload = \<lparr>hp_AccessToken = '''', hp_RefreshToken = '''', hp_TokenEndpoint = '''', hp_ExpiresAt = '''', hp_HasExpiry = False\<rparr>"

text \<open>\<^verbatim>\<open>int(time.Until(t).Seconds())\<close>; the difference saturates, the conversion truncates.\<close>

definition until_seconds :: "gotime \<Rightarrow> gotime \<Rightarrow> int" where
  "until_seconds t now =
     (let d = min (2 ^ 63 - 1) (max (- (2 ^ 63)) (t - now)) in if 0 \<le> d then d div second else - ((- d) div second))"

datatype takeover_err =
    InvalidHandoffJSON | MissingTokens | BadEndpoint pin_error
  | StoppedAnswering string | TakeoverFailed takeover_err | WrongSecret | TakeoverInProgress string | PredatesTakeover
  | DaemonHTTP int | LogoutFailed string | LogoutHTTP int | DidNotStop

definition handoff_expiry :: "gotime \<Rightarrow> handoff_payload \<Rightarrow> int" where
  "handoff_expiry now p =
     (if hp_HasExpiry p \<and> hp_ExpiresAt p \<noteq> '''' then
        (case rfc3339_parse (hp_ExpiresAt p) of
           None \<Rightarrow> 0
         | Some t \<Rightarrow> (let secs = until_seconds t now in if secs > 0 then secs else 0))
      else 0)"

definition parseHandoffResponse :: "gotime \<Rightarrow> string \<Rightarrow> takeover_err + loginHandoff" where
  "parseHandoffResponse now body =
     (let (p, bad) = json_unmarshal handoff_payload_fields body empty_payload in
      if bad then Inl InvalidHandoffJSON
      else if blank (hp_AccessToken p) \<or> blank (hp_RefreshToken p) then Inl MissingTokens
      else
        (case ValidateXAIURL (hp_TokenEndpoint p) ''token_endpoint'' of
           Some e \<Rightarrow> Inl (BadEndpoint e)
         | None \<Rightarrow>
             Inr \<lparr>lh_Secret = '''', lh_AccessToken = hp_AccessToken p, lh_RefreshToken = hp_RefreshToken p,
                  lh_TokenEndpoint = hp_TokenEndpoint p, lh_ExpiresIn = handoff_expiry now p\<rparr>))"

subsection \<open>Talking to the running daemon\<close>

definition daemonAlive :: "'w unix_call \<Rightarrow> 'w \<Rightarrow> bool \<times> 'w" where
  "daemonAlive call w =
     (case call \<lparr>ar_Method = ''GET'', ar_Path = ''/health'', ar_Authorization = ''''\<rparr> w of
        (DoErr t, w') \<Rightarrow> (False, w')
      | (DoReply status body failed, w') \<Rightarrow> (status = 200, w'))"

datatype takeoverOutcome = takeoverAcquired loginHandoff | takeoverDeadSession

definition conflict_state :: "string \<Rightarrow> string" where
  "conflict_state body = fst (json_unmarshal [str_field ''state'' (\<lambda>v s. v)] body '''')"

text \<open>The clock is read when the response is parsed.\<close>

definition attemptHandoff ::
  "'w unix_call \<Rightarrow> ('w \<Rightarrow> gotime) \<Rightarrow> string \<Rightarrow> 'w \<Rightarrow> (takeover_err + takeoverOutcome) \<times> 'w"
where
  "attemptHandoff call now sec w =
     (case call \<lparr>ar_Method = ''POST'', ar_Path = ''/handoff'', ar_Authorization = ''Bearer '' @ sec\<rparr> w of
        (DoErr t, w') \<Rightarrow> (Inl (StoppedAnswering t), w')
      | (DoReply status body0 failed, w') \<Rightarrow>
          (let body = limit_body body0 in
           if status = 200 then
             (case parseHandoffResponse (now w') body of
                Inl e \<Rightarrow> (Inl (TakeoverFailed e), w')
              | Inr h \<Rightarrow> (Inr (takeoverAcquired h), w'))
           else if status = 401 then (Inl WrongSecret, w')
           else if status = 409 then
             (let st = conflict_state body in
              if st = state_string StateReauthRequired \<or> st = state_string StateTierDenied
              then (Inr takeoverDeadSession, w')
              else (Inl (TakeoverInProgress st), w'))
           else if status = 404 \<or> status = 405 then (Inl PredatesTakeover, w')
           else (Inl (DaemonHTTP status), w')))"

text \<open>
  The loop that waits for the old process to go away: it polls every 50 ms until the deadline.
  \<open>now\<close> and \<open>sleep\<close> are the clock and \<^verbatim>\<open>time.Sleep\<close>; \<open>fuel\<close> bounds the rounds.
\<close>

fun wait_stopped ::
  "nat \<Rightarrow> 'w unix_call \<Rightarrow> ('w \<Rightarrow> gotime) \<Rightarrow> (duration \<Rightarrow> 'w \<Rightarrow> 'w) \<Rightarrow> gotime \<Rightarrow> 'w \<Rightarrow> (takeover_err option \<times> 'w) option"
where
  "wait_stopped 0 call now sleep deadline w = None"
| "wait_stopped (Suc n) call now sleep deadline w =
     (if \<not> now w < deadline then Some (Some DidNotStop, w)
      else
        (case daemonAlive call w of
           (False, w1) \<Rightarrow> Some (None, w1)
         | (True, w1) \<Rightarrow> wait_stopped n call now sleep deadline (sleep 50000000 w1)))"

definition logoutOldDaemon ::
  "nat \<Rightarrow> 'w unix_call \<Rightarrow> ('w \<Rightarrow> gotime) \<Rightarrow> (duration \<Rightarrow> 'w \<Rightarrow> 'w) \<Rightarrow> string \<Rightarrow> 'w \<Rightarrow> (takeover_err option \<times> 'w) option"
where
  "logoutOldDaemon fuel call now sleep sec w =
     (case call \<lparr>ar_Method = ''POST'', ar_Path = ''/logout'', ar_Authorization = ''Bearer '' @ sec\<rparr> w of
        (DoErr t, w') \<Rightarrow> Some (Some (LogoutFailed t), w')
      | (DoReply status body failed, w') \<Rightarrow>
          if status \<noteq> 200 then Some (Some (LogoutHTTP status), w')
          else wait_stopped fuel call now sleep (time_add (now w') (5 * second)) w')"

text \<open>\<^verbatim>\<open>errors.Is(err, server.ErrSocketInUse)\<close>; \<open>listen\<close> is \<open>ListenUnix\<close> on the path.\<close>

fun in_use :: "listen_err \<Rightarrow> bool" where
  "in_use (ErrSocketInUse p) = True"
| "in_use _ = False"

fun listen_loop ::
  "nat \<Rightarrow> ('w \<Rightarrow> (listen_err + string) \<times> 'w) \<Rightarrow> ('w \<Rightarrow> gotime) \<Rightarrow> (duration \<Rightarrow> 'w \<Rightarrow> 'w) \<Rightarrow> gotime \<Rightarrow> 'w
     \<Rightarrow> ((listen_err + string) \<times> 'w) option"
where
  "listen_loop 0 listen now sleep deadline w = None"
| "listen_loop (Suc n) listen now sleep deadline w =
     (case listen w of
        (Inr ln, w1) \<Rightarrow> Some (Inr ln, w1)
      | (Inl e, w1) \<Rightarrow>
          if \<not> in_use e \<or> deadline < now w1
          then Some (Inl e, w1)
          else listen_loop n listen now sleep deadline (sleep 50000000 w1))"

definition listenWithRetry ::
  "nat \<Rightarrow> ('w \<Rightarrow> (listen_err + string) \<times> 'w) \<Rightarrow> ('w \<Rightarrow> gotime) \<Rightarrow> (duration \<Rightarrow> 'w \<Rightarrow> 'w) \<Rightarrow> duration \<Rightarrow> 'w
     \<Rightarrow> ((listen_err + string) \<times> 'w) option"
where
  "listenWithRetry fuel listen now sleep wait w = listen_loop fuel listen now sleep (time_add (now w) wait) w"

subsection \<open>The waiting loops end\<close>

text \<open>
  What a polling loop needs: a sleep that lasts as long as it was asked to, and an operation that does
  not turn the clock back.
\<close>

locale ticking =
  fixes now :: "'w \<Rightarrow> gotime"
    and sleep :: "duration \<Rightarrow> 'w \<Rightarrow> 'w"
  assumes sleep_now: "0 \<le> d \<Longrightarrow> now w + d \<le> now (sleep d w)"
begin

definition advances :: "('w \<Rightarrow> 'x \<times> 'w) \<Rightarrow> bool" where
  "advances f \<longleftrightarrow> (\<forall>w. now w \<le> now (snd (f w)))"

lemma advancesD: "advances f \<Longrightarrow> f w = (x, w') \<Longrightarrow> now w \<le> now w'"
  unfolding advances_def by (metis snd_conv)

definition rounds :: "gotime \<Rightarrow> 'w \<Rightarrow> nat" where
  "rounds deadline w = nat ((deadline - now w) div 50000000 + 1)"

lemma rounds_drop:
  assumes "now w \<le> now w1" "now w \<le> deadline"
  shows "rounds deadline (sleep 50000000 w1) < rounds deadline w"
proof -
  have "now w + 50000000 \<le> now (sleep 50000000 w1)"
    using sleep_now [of 50000000 w1] assms(1) by simp
  then have "(deadline - now (sleep 50000000 w1)) div 50000000 \<le> (deadline - now w - 50000000) div 50000000"
    by (intro zdiv_mono1) simp_all
  also have "\<dots> = (deadline - now w) div 50000000 - 1"
    using div_mult_self1 [of 50000000 "deadline - now w" "- 1"] by simp
  finally have "(deadline - now (sleep 50000000 w1)) div 50000000 < (deadline - now w) div 50000000" by simp
  moreover have "0 \<le> (deadline - now w) div 50000000" using assms by simp
  ultimately show ?thesis by (simp add: rounds_def)
qed

lemma wait_stopped_returns:
  assumes "advances (daemonAlive call)"
  shows "rounds deadline w < n \<Longrightarrow> \<exists>r. wait_stopped n call now sleep deadline w = Some r"
proof (induction n arbitrary: w)
  case (Suc n)
  obtain b w1 where a: "daemonAlive call w = (b, w1)" by (cases "daemonAlive call w")
  show ?case
  proof (cases "now w < deadline \<and> b")
    case False
    with a show ?thesis by (cases b) auto
  next
    case True
    then have "rounds deadline (sleep 50000000 w1) < rounds deadline w"
      using advancesD [OF assms a] by (intro rounds_drop) auto
    with Suc have "\<exists>r. wait_stopped n call now sleep deadline (sleep 50000000 w1) = Some r"
      by simp
    with True a show ?thesis by simp
  qed
qed simp

lemma listen_loop_returns:
  assumes "advances listen"
  shows "rounds deadline w < n \<Longrightarrow> \<exists>r. listen_loop n listen now sleep deadline w = Some r"
proof (induction n arbitrary: w)
  case (Suc n)
  obtain x w1 where a: "listen w = (x, w1)" by (cases "listen w")
  show ?case
  proof (cases "\<exists>e. x = Inl e \<and> in_use e \<and> \<not> deadline < now w1")
    case False
    with a show ?thesis by (cases x) auto
  next
    case True
    then have "rounds deadline (sleep 50000000 w1) < rounds deadline w"
      using advancesD [OF assms a] by (intro rounds_drop) auto
    with Suc have "\<exists>r. listen_loop n listen now sleep deadline (sleep 50000000 w1) = Some r"
      by simp
    with True a show ?thesis by auto
  qed
qed simp

end

text \<open>Enough fuel for a wait of five seconds.\<close>

definition wait_rounds :: nat where
  "wait_rounds = 102"

lemma five_seconds: "0 \<le> t \<Longrightarrow> nat ((time_add t (5 * second) - t) div 50000000 + 1) < wait_rounds"
proof -
  assume "0 \<le> t"
  then have "time_add t (5 * second) \<le> t + 5 * second"
    by (rule time_add_le) (simp add: in_i64_def second_def)
  then have "(time_add t (5 * second) - t) div 50000000 \<le> (5 * second) div 50000000"
    by (intro zdiv_mono1) simp_all
  then show ?thesis by (simp add: wait_rounds_def second_def)
qed

context ticking
begin

lemma logoutOldDaemon_returns:
  assumes "advances (daemonAlive call)" "\<And>rq. advances (call rq)" "0 \<le> now w" "wait_rounds \<le> n"
  shows "\<exists>r. logoutOldDaemon n call now sleep sec w = Some r"
proof -
  let ?rq = "\<lparr>ar_Method = ''POST'', ar_Path = ''/logout'', ar_Authorization = ''Bearer '' @ sec\<rparr>"
  obtain x w1 where c: "call ?rq w = (x, w1)" by (cases "call ?rq w")
  with assms(2,3) have "0 \<le> now w1" using advancesD by fastforce
  with five_seconds assms(4) have "rounds (time_add (now w1) (5 * second)) w1 < n" by (fastforce simp: rounds_def)
  from wait_stopped_returns [OF assms(1) this] show ?thesis
    unfolding logoutOldDaemon_def c by (auto split: do_result.splits)
qed

lemma listenWithRetry_returns:
  assumes "advances listen" "0 \<le> now w" "wait_rounds \<le> n"
  shows "\<exists>r. listenWithRetry n listen now sleep (5 * second) w = Some r"
proof -
  have "rounds (time_add (now w) (5 * second)) w < n"
    using five_seconds [OF assms(2)] assms(3) by (simp add: rounds_def)
  from listen_loop_returns [OF assms(1) this] show ?thesis by (simp add: listenWithRetry_def)
qed

end

text \<open>The state of a run in real time: the clock goes on by itself during a call and in a sleep.\<close>

definition real_sleep :: "duration \<Rightarrow> gotime \<times> 's \<Rightarrow> gotime \<times> 's" where
  "real_sleep d ts = (fst ts + max 0 d, snd ts)"

definition timed_op :: "('s \<Rightarrow> nat) \<Rightarrow> ('s \<Rightarrow> 'x \<times> 's) \<Rightarrow> gotime \<times> 's \<Rightarrow> 'x \<times> (gotime \<times> 's)" where
  "timed_op delay f ts = (let (x, s') = f (snd ts) in (x, (fst ts + int (delay (snd ts)), s')))"

interpretation real_time: ticking fst real_sleep
  by unfold_locales (simp add: real_sleep_def)

lemma timed_advances:
  "real_time.advances (timed delay call rq)" "real_time.advances (daemonAlive (timed delay call))"
  "real_time.advances (timed_op delay f)"
  by (auto simp: real_time.advances_def timed_def timed_op_def daemonAlive_def split: prod.splits do_result.splits)

text \<open>
  The waits of a takeover are bounded. With a wait of five seconds the old daemon is probed, and the
  socket is tried, at most 101 times, whatever the daemon and the file system answer: 102 rounds of
  fuel always give a result.
\<close>

theorem takeover_waits_end:
  assumes "0 \<le> t"
  shows "(\<exists>r. logoutOldDaemon wait_rounds (timed delay call) fst real_sleep sec (t, s) = Some r)
    \<and> (\<exists>r. listenWithRetry wait_rounds (timed_op delay listen) fst real_sleep (5 * second) (t, s) = Some r)"
  using assms timed_advances
  by (intro conjI real_time.logoutOldDaemon_returns real_time.listenWithRetry_returns) auto

theorem takeover_waits_end_witness:
  "(\<exists>r. logoutOldDaemon wait_rounds (timed (\<lambda>_. 0) (\<lambda>rq s. (DoReply 200 '''' False, s))) fst real_sleep ''s'' (0, ()) = Some r)
   \<and> (\<exists>r. listenWithRetry wait_rounds (timed_op (\<lambda>_. 0) (\<lambda>s. (Inl (ErrSocketInUse ''p''), s))) fst real_sleep (5 * second) (0, ()) = Some r)"
  by (rule takeover_waits_end) simp

subsection \<open>The handoff on the wire\<close>

definition payload_view :: "HandoffData \<Rightarrow> handoff_payload" where
  "payload_view d =
     \<lparr>hp_AccessToken = hd_AccessToken d, hp_RefreshToken = hd_RefreshToken d, hp_TokenEndpoint = hd_TokenEndpoint d,
      hp_ExpiresAt = (if hd_HasExpiry d then rfc3339_format (hd_ExpiresAt d) else ''''), hp_HasExpiry = hd_HasExpiry d\<rparr>"

text \<open>A snapshot that fits on the wire.\<close>

definition handoff_wire :: "HandoffData \<Rightarrow> bool" where
  "handoff_wire d \<longleftrightarrow>
     utf8_ok (hd_AccessToken d) \<and> utf8_ok (hd_RefreshToken d) \<and> utf8_ok (hd_TokenEndpoint d)
     \<and> length (hd_AccessToken d) + length (hd_RefreshToken d) + length (hd_TokenEndpoint d) \<le> 170000
     \<and> (hd_HasExpiry d \<longrightarrow> wire_time (hd_ExpiresAt d))"

lemma flat_handoff_body:
  assumes "handoff_wire d"
  shows "flat (handoff_body d)"
proof -
  have "utf8_ok (rfc3339_format (hd_ExpiresAt d))" if "hd_HasExpiry d"
    using rfc3339_wire [of "hd_ExpiresAt d"] assms that by (simp_all add: handoff_wire_def wire_time_def utf8_ok_ascii)
  with assms show ?thesis by (simp add: handoff_body_def handoff_wire_def flat_eval)
qed

text \<open>A response that breaks off anywhere is not taken for a handoff.\<close>

lemma cut_handoff:
  assumes "handoff_wire d" "n < length (json_print (json_map (handoff_body d)))"
  shows "parseHandoffResponse t (limit_body (take n (json_print (json_map (handoff_body d))))) = Inl InvalidHandoffJSON"
proof -
  let ?kvs = "sort_key fst (handoff_body d)"
  have "flat ?kvs" using flat_handoff_body [OF assms(1)] by (simp add: flat_sort_key)
  from cut_object [OF parse_flat(2) [OF this], of "min (2 ^ 20) n"] assms(2)
  have "json_parse (take (min (2 ^ 20) n) (json_print (JObj ?kvs))) = None"
    by (simp add: json_map_def del: json_print.simps)
  then show ?thesis
    by (simp add: parseHandoffResponse_def json_unmarshal_def store_json_def limit_body_def json_map_def
        del: json_print.simps)
qed

lemma handoff_body_view:
  assumes "handoff_wire d"
  shows "json_unmarshal handoff_payload_fields (limit_body (json_print (json_map (handoff_body d)))) empty_payload
    = (payload_view d, False)"
proof -
  have tm: "length (rfc3339_format (hd_ExpiresAt d)) = 20" if "hd_HasExpiry d"
    using rfc3339_wire [of "hd_ExpiresAt d"] assms that by (simp add: handoff_wire_def wire_time_def)
  note f = flat_handoff_body [OF assms]
  have "sum_list (map entry_size (handoff_body d)) + 2 \<le> 2 ^ 20"
    using assms tm by (simp add: handoff_body_def handoff_wire_def entry_size_def)
  then have lim: "limit_body (json_print (json_map (handoff_body d))) = json_print (json_map (handoff_body d))"
    using json_map_length [OF f] by (simp add: limit_body_def)
  show ?thesis
    unfolding lim unmarshal_map(2) [OF f]
    by (cases "hd_HasExpiry d") (simp_all add: store_eval handoff_payload_fields_def handoff_body_def empty_payload_def payload_view_def)
qed

lemma format_nonempty: "wire_time t \<Longrightarrow> rfc3339_format t \<noteq> ''''"
  using rfc3339_wire(2) [of t] by (auto simp: wire_time_def)

text \<open>The seconds a token has left, as the successor counts them.\<close>

definition remaining :: "HandoffData \<Rightarrow> gotime \<Rightarrow> int" where
  "remaining d t =
     (if hd_HasExpiry d then max 0 (until_seconds (hd_ExpiresAt d - hd_ExpiresAt d mod second) t) else 0)"

lemma parseHandoff_view:
  assumes "handoff_wire d" "handoff_ok d" "\<not> blank (hd_AccessToken d)" "\<not> blank (hd_RefreshToken d)"
  shows "parseHandoffResponse t (limit_body (json_print (json_map (handoff_body d))))
    = Inr \<lparr>lh_Secret = '''', lh_AccessToken = hd_AccessToken d, lh_RefreshToken = hd_RefreshToken d,
        lh_TokenEndpoint = hd_TokenEndpoint d, lh_ExpiresIn = remaining d t\<rparr>"
proof -
  have v: "ValidateXAIURL (hd_TokenEndpoint d) ''token_endpoint'' = None"
    using assms(2) by (simp add: handoff_ok_def validate_iff)
  have "handoff_expiry t (payload_view d) = remaining d t"
    using assms(1) rfc3339_roundtrip [of "hd_ExpiresAt d"] format_nonempty [of "hd_ExpiresAt d"]
    by (auto simp: handoff_expiry_def payload_view_def remaining_def handoff_wire_def wire_time_def Let_def)
  with v assms(3,4) show ?thesis
    by (simp add: parseHandoffResponse_def handoff_body_view [OF assms(1)]) (simp add: payload_view_def)
qed

lemma until_seconds_bounds:
  assumes "0 < until_seconds t now"
  shows "until_seconds t now * second \<le> t - now" "t - now < 2 ^ 63 - 1 \<Longrightarrow> t - now < (until_seconds t now + 1) * second"
    "until_seconds t now \<le> 9223372036"
proof -
  define d where "d = min (2 ^ 63 - 1) (max (- (2 ^ 63)) (t - now))"
  have u: "until_seconds t now = (if 0 \<le> d then d div second else - ((- d) div second))"
    by (simp add: until_seconds_def d_def Let_def)
  have pos: "0 \<le> d" "until_seconds t now = d div second"
  proof -
    show "0 \<le> d"
    proof (rule ccontr)
      assume "\<not> 0 \<le> d"
      then have "0 \<le> (- d) div second" by (simp add: second_def)
      with u assms \<open>\<not> 0 \<le> d\<close> show False by simp
    qed
    with u show "until_seconds t now = d div second" by simp
  qed
  have le: "d \<le> t - now"
    using pos assms by (auto simp: d_def min_def max_def second_def split: if_splits)
  have "d div second * second \<le> d" by (simp add: second_def)
  with le pos(2) show "until_seconds t now * second \<le> t - now" by simp
  have "d \<le> 2 ^ 63 - 1" by (simp add: d_def)
  then have "d div second \<le> (2 ^ 63 - 1) div second" by (intro zdiv_mono1) (simp_all add: second_def)
  with pos(2) show "until_seconds t now \<le> 9223372036" by (simp add: second_def)
  assume "t - now < 2 ^ 63 - 1"
  then have "t - now \<le> d" by (simp add: d_def)
  moreover have "d < (d div second + 1) * second" by (simp add: second_def)
  ultimately show "t - now < (until_seconds t now + 1) * second" using pos(2) by simp
qed

subsection \<open>Asking the daemon\<close>

lemma daemon_reply:
  assumes "header_ok (''Bearer '' @ sec)"
    and "handle refresh now True srv \<lparr>ar_Method = m, ar_Path = p, ar_Authorization = ''Bearer '' @ sec\<rparr> w
      = \<lparr>sv_Response = r, sv_Session = s, sv_World = w', sv_Shutdown = h\<rparr>"
  shows "daemon refresh now \<lparr>ar_Method = m, ar_Path = p, ar_Authorization = ''Bearer '' @ sec\<rparr> (srv, w)
    = (DoReply (rs_Status r) (rs_Body r) False, (srv\<lparr>srv_Session := s\<rparr>, w'))"
  using assms by (simp add: daemon_def Let_def del: append_Cons)

text \<open>The secret a successor presents, and whether it is the daemon's.\<close>

definition good_secret :: "string \<Rightarrow> bool" where
  "good_secret sec \<longleftrightarrow> trim_space sec = sec \<and> sec \<noteq> '''' \<and> header_ok sec"

lemma good_secret_header: "good_secret sec \<Longrightarrow> header_ok (''Bearer '' @ sec)"
  by (simp add: good_secret_def header_ok_def byte_def)

lemma good_secret_check:
  "good_secret sec \<Longrightarrow> checkSecret srv \<lparr>ar_Method = m, ar_Path = p, ar_Authorization = ''Bearer '' @ sec\<rparr>
     \<longleftrightarrow> secretEqual sec (srv_Secret srv)"
  by (simp add: good_secret_def checkSecret_def bearer_header del: append_Cons)

lemma conflict_state_written:
  assumes "length st \<le> 20" "list_all is_ascii st"
  shows "conflict_state (limit_body (rs_Body (writeJSON 409 [(''error'', JStr ''handoff_unavailable''), (''state'', JStr st)]))) = st"
proof -
  have f: "flat [(''error'', JStr ''handoff_unavailable''), (''state'', JStr st)]"
    using assms(2) by (simp add: flat_eval utf8_ok_ascii)
  have len: "length (rs_Body (writeJSON 409 [(''error'', JStr ''handoff_unavailable''), (''state'', JStr st)])) \<le> 2 ^ 20"
    using written_length [OF f, of 409] assms(1) by (simp add: entry_size_def)
  show ?thesis
    unfolding conflict_state_def unmarshal_written [OF f len] by (simp add: store_eval)
qed

definition snapshot :: "Session \<Rightarrow> HandoffData" where
  "snapshot s =
     \<lparr>hd_AccessToken = accessToken s, hd_RefreshToken = refreshToken s, hd_TokenEndpoint = tokenEndpoint s,
      hd_ExpiresAt = expiresAt s, hd_HasExpiry = hasExpiry s\<rparr>"

text \<open>A session whose credentials can be handed over: they are not blank and fit on the wire.\<close>

definition movable :: "Session \<Rightarrow> bool" where
  "movable s \<longleftrightarrow>
     session_inv s \<and> (state s = StateReady \<longrightarrow> handoff_wire (snapshot s) \<and> \<not> blank (accessToken s) \<and> \<not> blank (refreshToken s))"

definition moved :: "Session \<Rightarrow> gotime \<Rightarrow> loginHandoff" where
  "moved s t =
     \<lparr>lh_Secret = '''', lh_AccessToken = accessToken s, lh_RefreshToken = refreshToken s,
      lh_TokenEndpoint = tokenEndpoint s, lh_ExpiresIn = remaining (snapshot s) t\<rparr>"

lemma Handoff_ready: "state s = StateReady \<Longrightarrow> Handoff s = (Inr (snapshot s), wipe StateHandedOff ''handed_off'' s)"
  by (simp add: Handoff_def snapshot_def)

lemma daemon_handoff:
  assumes "good_secret sec" "secretEqual sec (srv_Secret srv)"
  shows "state (srv_Session srv) = StateReady \<Longrightarrow>
      daemon refresh now \<lparr>ar_Method = ''POST'', ar_Path = ''/handoff'', ar_Authorization = ''Bearer '' @ sec\<rparr> (srv, w)
      = (DoReply 200 (json_print (json_map (handoff_body (snapshot (srv_Session srv))))) False,
         (srv\<lparr>srv_Session := wipe StateHandedOff ''handed_off'' (srv_Session srv)\<rparr>, w))"
    "state (srv_Session srv) \<noteq> StateReady \<Longrightarrow>
      daemon refresh now \<lparr>ar_Method = ''POST'', ar_Path = ''/handoff'', ar_Authorization = ''Bearer '' @ sec\<rparr> (srv, w)
      = (DoReply 409 (rs_Body (writeJSON 409 [(''error'', JStr ''handoff_unavailable''),
           (''state'', JStr (state_string (state (srv_Session srv))))])) False, (srv, w))"
proof -
  let ?rq = "\<lparr>ar_Method = ''POST'', ar_Path = ''/handoff'', ar_Authorization = ''Bearer '' @ sec\<rparr>"
  have h: "handle refresh now True srv ?rq w = handleHandoff True srv ?rq w" by (simp add: handle_def route_of_def)
  note c = good_secret_check [OF assms(1), of srv "''POST''" "''/handoff''"]
  assume "state (srv_Session srv) = StateReady"
  then have "handle refresh now True srv ?rq w =
      \<lparr>sv_Response = \<lparr>rs_Status = 200, rs_ContentType = ''application/json'',
         rs_Body = json_print (json_map (handoff_body (snapshot (srv_Session srv))))\<rparr>,
       sv_Session = wipe StateHandedOff ''handed_off'' (srv_Session srv), sv_World = w, sv_Shutdown = srv_OnLogout srv\<rparr>"
    unfolding h handleHandoff_def c using assms(2) by (simp add: Handoff_ready)
  from daemon_reply [OF good_secret_header [OF assms(1)] this]
  show "daemon refresh now ?rq (srv, w)
      = (DoReply 200 (json_print (json_map (handoff_body (snapshot (srv_Session srv))))) False,
         (srv\<lparr>srv_Session := wipe StateHandedOff ''handed_off'' (srv_Session srv)\<rparr>, w))"
    by simp
next
  let ?rq = "\<lparr>ar_Method = ''POST'', ar_Path = ''/handoff'', ar_Authorization = ''Bearer '' @ sec\<rparr>"
  let ?rs = "writeJSON 409 [(''error'', JStr ''handoff_unavailable''), (''state'', JStr (state_string (state (srv_Session srv))))]"
  have h: "handle refresh now True srv ?rq w = handleHandoff True srv ?rq w" by (simp add: handle_def route_of_def)
  note c = good_secret_check [OF assms(1), of srv "''POST''" "''/handoff''"]
  assume "state (srv_Session srv) \<noteq> StateReady"
  then have "handle refresh now True srv ?rq w =
      \<lparr>sv_Response = ?rs, sv_Session = srv_Session srv, sv_World = w, sv_Shutdown = False\<rparr>"
    unfolding h handleHandoff_def c using assms(2) by (simp add: Handoff_def reply_only_def)
  from daemon_reply [OF good_secret_header [OF assms(1)] this]
  show "daemon refresh now ?rq (srv, w) = (DoReply 409 (rs_Body ?rs) False, (srv, w))" by simp
qed

lemma attemptHandoff_reply:
  "call \<lparr>ar_Method = ''POST'', ar_Path = ''/handoff'', ar_Authorization = ''Bearer '' @ sec\<rparr> w = (DoReply 200 body b, w') \<Longrightarrow>
     parseHandoffResponse (now w') (limit_body body) = Inr h \<Longrightarrow>
     attemptHandoff call now sec w = (Inr (takeoverAcquired h), w')"
  "call \<lparr>ar_Method = ''POST'', ar_Path = ''/handoff'', ar_Authorization = ''Bearer '' @ sec\<rparr> w = (DoReply 401 body b, w') \<Longrightarrow>
     attemptHandoff call now sec w = (Inl WrongSecret, w')"
  "call \<lparr>ar_Method = ''POST'', ar_Path = ''/handoff'', ar_Authorization = ''Bearer '' @ sec\<rparr> w = (DoReply 409 body b, w') \<Longrightarrow>
     conflict_state (limit_body body) = st \<Longrightarrow>
     attemptHandoff call now sec w = (if st = ''reauth_required'' \<or> st = ''tier_denied'' then (Inr takeoverDeadSession, w')
       else (Inl (TakeoverInProgress st), w'))"
  by (simp_all add: attemptHandoff_def Let_def del: append_Cons)

lemma parse_moved:
  assumes "movable s" "state s = StateReady"
  shows "parseHandoffResponse t (limit_body (json_print (json_map (handoff_body (snapshot s))))) = Inr (moved s t)"
proof -
  have "handoff_wire (snapshot s)" "handoff_ok (snapshot s)" "\<not> blank (hd_AccessToken (snapshot s))" "\<not> blank (hd_RefreshToken (snapshot s))"
    using assms session_invD(1) [of s] by (simp_all add: movable_def handoff_ok_def) (simp_all add: snapshot_def)
  from parseHandoff_view [OF this] show ?thesis by (simp add: moved_def) (simp add: snapshot_def)
qed

lemma attemptHandoff_ready:
  assumes "good_secret sec" "secretEqual sec (srv_Secret srv)" "movable (srv_Session srv)" "state (srv_Session srv) = StateReady"
  shows "attemptHandoff (daemon refresh now) (\<lambda>sw. now (snd sw)) sec (srv, w)
    = (Inr (takeoverAcquired (moved (srv_Session srv) (now w))),
       (srv\<lparr>srv_Session := wipe StateHandedOff ''handed_off'' (srv_Session srv)\<rparr>, w))"
  by (rule attemptHandoff_reply(1) [where call = "daemon refresh now", OF daemon_handoff(1) [OF assms(1,2,4)]])
    (simp add: parse_moved [OF assms(3,4)])

lemma daemon_refuses:
  assumes "good_secret sec" "\<not> secretEqual sec (srv_Secret srv)"
  shows "daemon refresh now \<lparr>ar_Method = ''POST'', ar_Path = ''/handoff'', ar_Authorization = ''Bearer '' @ sec\<rparr> (srv, w)
    = (DoReply 401 (rs_Body unauthorized_response) False, (srv, w))"
proof -
  let ?rq = "\<lparr>ar_Method = ''POST'', ar_Path = ''/handoff'', ar_Authorization = ''Bearer '' @ sec\<rparr>"
  have "\<not> checkSecret srv ?rq" unfolding good_secret_check [OF assms(1)] by (rule assms(2))
  then have "handle refresh now True srv ?rq w
      = \<lparr>sv_Response = unauthorized_response, sv_Session = srv_Session srv, sv_World = w, sv_Shutdown = False\<rparr>"
    using handle_unauthorized [of srv ?rq refresh now True w] by (simp add: route_of_def reply_only_def del: append_Cons)
  from daemon_reply [OF good_secret_header [OF assms(1)] this] show ?thesis
    by (simp add: unauthorized_response_def)
qed

lemma attemptHandoff_refused:
  assumes "good_secret sec" "secretEqual sec (srv_Secret srv)" "state (srv_Session srv) \<noteq> StateReady"
  shows "attemptHandoff (daemon refresh now) (\<lambda>sw. now (snd sw)) sec (srv, w) =
    (if state (srv_Session srv) = StateHandedOff then (Inl (TakeoverInProgress ''handed_off''), (srv, w))
     else (Inr takeoverDeadSession, (srv, w)))"
  using attemptHandoff_reply(3) [where call = "daemon refresh now", OF daemon_handoff(2) [OF assms]
      conflict_state_written [OF state_string_ascii(2) state_string_ascii(1)]] assms(3)
  by (cases "state (srv_Session srv)") simp_all

text \<open>
  Property C19. What a takeover attempt does to the daemon, for every state it can be in. A wrong secret gets
  nothing and changes nothing; a ready session is drained and arrives whole; a session that is dead
  is recognised as such and left; a second successor is told that a takeover is in progress.
\<close>

theorem attemptHandoff_daemon:
  assumes "good_secret sec" "movable (srv_Session srv)"
  shows "attemptHandoff (daemon refresh now) (\<lambda>sw. now (snd sw)) sec (srv, w) =
    (if \<not> secretEqual sec (srv_Secret srv) then (Inl WrongSecret, (srv, w))
     else
       (case state (srv_Session srv) of
          StateReady \<Rightarrow>
            (Inr (takeoverAcquired
               \<lparr>lh_Secret = '''', lh_AccessToken = accessToken (srv_Session srv), lh_RefreshToken = refreshToken (srv_Session srv),
                lh_TokenEndpoint = tokenEndpoint (srv_Session srv), lh_ExpiresIn = remaining (snapshot (srv_Session srv)) (now w)\<rparr>),
             (srv\<lparr>srv_Session := wipe StateHandedOff ''handed_off'' (srv_Session srv)\<rparr>, w))
        | StateHandedOff \<Rightarrow> (Inl (TakeoverInProgress ''handed_off''), (srv, w))
        | _ \<Rightarrow> (Inr takeoverDeadSession, (srv, w))))"
proof (cases "secretEqual sec (srv_Secret srv)")
  case False
  from attemptHandoff_reply(2) [where call = "daemon refresh now", OF daemon_refuses [OF assms(1) False]] False show ?thesis by simp
next
  case True
  show ?thesis
  proof (cases "state (srv_Session srv) = StateReady")
    case ready: True
    with attemptHandoff_ready [OF assms(1) True assms(2) ready] True show ?thesis by (simp add: moved_def)
  next
    case False
    with attemptHandoff_refused [OF assms(1) True False] True show ?thesis by (cases "state (srv_Session srv)") simp_all
  qed
qed

lemma demo_good_secret: "good_secret ''abc''"
  using trim_abc by (simp add: good_secret_def header_ok_def byte_def)

lemma demo_movable: "movable demo_session"
proof -
  have "list_all is_ascii ''at''" "list_all is_ascii ''rt''" "list_all is_ascii DefaultTokenURL"
    by (simp_all add: is_ascii_def byte_def DefaultTokenURL_def Issuer_def)
  then have "utf8_ok ''at''" "utf8_ok ''rt''" "utf8_ok DefaultTokenURL" by (simp_all only: utf8_ok_ascii)
  moreover have "length DefaultTokenURL \<le> 1000" by (simp add: DefaultTokenURL_def Issuer_def)
  moreover have "\<not> blank ''at''" "\<not> blank ''rt''" by (simp_all add: string_eval)
  ultimately show ?thesis
    using demo_session_inv by (simp add: movable_def handoff_wire_def snapshot_def wire_time_def demo_session_def second_def)
qed

lemma demo_host_simps:
  "srv_Session demo_host = demo_session" "srv_Secret demo_host = ''abc''" "srv_OnLogout demo_host = True"
  "state demo_session = StateReady" "refreshToken demo_session = ''rt''" "accessToken demo_session = ''at''"
  by (simp_all add: demo_server_def demo_session_def)

theorem attemptHandoff_daemon_witness:
  "\<exists>h. attemptHandoff (daemon (Refresh demo_env) (Now demo_env)) (\<lambda>sw. Now demo_env (snd sw)) ''abc'' (demo_host, stub_world 0)
    = (Inr (takeoverAcquired h), (demo_host\<lparr>srv_Session := wipe StateHandedOff ''handed_off'' demo_session\<rparr>, stub_world 0))
    \<and> lh_RefreshToken h = ''rt''"
proof -
  have "movable (srv_Session demo_host)" unfolding demo_host_simps by (rule demo_movable)
  from attemptHandoff_daemon [OF demo_good_secret this, of "Refresh demo_env" "Now demo_env" "stub_world 0"] secretEqual_abc
  show ?thesis unfolding demo_host_simps by simp
qed

text \<open>
  Property C31. Who holds the session after a handoff, for either result of \<^verbatim>\<open>Write\<close> and any number \<open>n\<close> of bytes of
  the body that reach the successor. When \<^verbatim>\<open>Write\<close> fails the daemon keeps serving with its credentials, runs no
  shutdown hook, and gives the session to the next attempt. When it succeeds the daemon is drained, the
  hook runs, and the next attempt is refused. The successor has the session if the whole body arrived, and an
  error otherwise. So a successful \<^verbatim>\<open>Write\<close> whose bytes are lost on the way leaves the session with nobody,
  which the code does not prevent.
\<close>

theorem handoff_outcomes:
  assumes "good_secret sec" "secretEqual sec (srv_Secret srv)" "movable (srv_Session srv)" "state (srv_Session srv) = StateReady"
  shows "let after = handle refresh now wrote srv \<lparr>ar_Method = ''POST'', ar_Path = ''/handoff'', ar_Authorization = ''Bearer '' @ sec\<rparr> w;
      body = rs_Body (sv_Response after);
      srv' = srv\<lparr>srv_Session := sv_Session after\<rparr>;
      again = attemptHandoff (daemon refresh now) (\<lambda>sw. now (snd sw)) sec (srv', w) in
    rs_Status (sv_Response after) = 200
    \<and> parseHandoffResponse t (limit_body (take n body)) =
        (if n < length body then Inl InvalidHandoffJSON else Inr (moved (srv_Session srv) t))
    \<and> (if wrote then
         accessToken (srv_Session srv') = '''' \<and> refreshToken (srv_Session srv') = '''' \<and> state (srv_Session srv') = StateHandedOff
         \<and> sv_Shutdown after = srv_OnLogout srv \<and> again = (Inl (TakeoverInProgress ''handed_off''), (srv', w))
       else
         srv_Session srv' = (srv_Session srv)\<lparr>lastError := ''''\<rparr> \<and> \<not> sv_Shutdown after
         \<and> fst again = Inr (takeoverAcquired (moved (srv_Session srv) (now w))))"
proof -
  let ?s = "srv_Session srv" and ?rq = "\<lparr>ar_Method = ''POST'', ar_Path = ''/handoff'', ar_Authorization = ''Bearer '' @ sec\<rparr>"
  let ?s' = "if wrote then wipe StateHandedOff ''handed_off'' ?s else ?s\<lparr>lastError := ''''\<rparr>"
  let ?body = "json_print (json_map (handoff_body (snapshot ?s)))"
  have "checkSecret srv ?rq" unfolding good_secret_check [OF assms(1)] by (rule assms(2))
  then have after: "handle refresh now wrote srv ?rq w =
      \<lparr>sv_Response = \<lparr>rs_Status = 200, rs_ContentType = ''application/json'', rs_Body = ?body\<rparr>, sv_Session = ?s',
       sv_World = w, sv_Shutdown = wrote \<and> srv_OnLogout srv\<rparr>"
    using assms(4)
    by (simp add: handle_def route_of_def handleHandoff_def Handoff_ready reply_only_def RestoreHandoff_def wipe_def snapshot_def
        del: append_Cons)
  have wire: "handoff_wire (snapshot ?s)" using assms(3,4) by (simp add: movable_def)
  note whole = parse_moved [OF assms(3,4)]
  have part: "parseHandoffResponse t (limit_body (take n ?body)) =
      (if n < length ?body then Inl InvalidHandoffJSON else Inr (moved ?s t))"
    using cut_handoff [OF wire, of n t] whole by simp
  have again: "attemptHandoff (daemon refresh now) (\<lambda>sw. now (snd sw)) sec (srv\<lparr>srv_Session := x\<rparr>, w) =
      (if state x = StateReady then
         (Inr (takeoverAcquired (moved x (now w))), (srv\<lparr>srv_Session := wipe StateHandedOff ''handed_off'' x\<rparr>, w))
       else if state x = StateHandedOff then (Inl (TakeoverInProgress ''handed_off''), (srv\<lparr>srv_Session := x\<rparr>, w))
       else (Inr takeoverDeadSession, (srv\<lparr>srv_Session := x\<rparr>, w)))" if "movable x" for x
    using attemptHandoff_ready [OF assms(1), of "srv\<lparr>srv_Session := x\<rparr>" refresh now w]
      attemptHandoff_refused [OF assms(1), of "srv\<lparr>srv_Session := x\<rparr>" refresh now w] assms(2) that by simp
  have kept: "movable (?s\<lparr>lastError := ''''\<rparr>)" "moved (?s\<lparr>lastError := ''''\<rparr>) u = moved ?s u" for u
    using assms(3) by (simp_all add: movable_def session_inv_def moved_def snapshot_def)
  have gone: "movable (wipe StateHandedOff ''handed_off'' ?s)"
    by (simp add: movable_def session_inv_def wipe_def)
  show ?thesis
    unfolding after Let_def using part again [OF kept(1)] again [OF gone] kept(2) assms(4)
    by (simp add: wipe_def del: json_print.simps)
qed

theorem handoff_outcomes_witness:
  "sv_Session (handle (Refresh demo_env) (Now demo_env) False demo_host
      \<lparr>ar_Method = ''POST'', ar_Path = ''/handoff'', ar_Authorization = ''Bearer '' @ ''abc''\<rparr> (stub_world 0)) = demo_session"
proof -
  have "movable (srv_Session demo_host)" "state (srv_Session demo_host) = StateReady" "secretEqual ''abc'' (srv_Secret demo_host)"
    unfolding demo_host_simps by (rule demo_movable refl secretEqual_abc)+
  from handoff_outcomes [OF demo_good_secret this(3,1,2), of "Refresh demo_env" "Now demo_env" False "stub_world 0" 0 0] show ?thesis
    unfolding Let_def demo_host_simps by (simp add: demo_session_def)
qed

text \<open>
  A handoff can be lost between the two processes. \<open>handleHandoff\<close> takes a successful \<^verbatim>\<open>Write\<close> for a
  delivery, but the response may still break off on its way: the status and some bytes of the body arrive, and
  not all. \<open>attemptHandoff\<close> then fails, and the daemon has already drained its session: neither process
  is left with the tokens, and the user has to log in again.
\<close>

definition breaks_off :: "nat \<Rightarrow> 'w unix_call \<Rightarrow> 'w unix_call" where
  "breaks_off n call rq w =
     (case call rq w of
        (DoErr t, w') \<Rightarrow> (DoErr t, w')
      | (DoReply status body failed, w') \<Rightarrow> (DoReply status (take n body) True, w'))"

theorem handoff_can_be_lost:
  assumes "good_secret sec" "secretEqual sec (srv_Secret srv)" "movable (srv_Session srv)" "state (srv_Session srv) = StateReady"
    and "n < length (json_print (json_map (handoff_body (snapshot (srv_Session srv)))))"
  shows "attemptHandoff (breaks_off n (daemon refresh now)) (\<lambda>sw. now (snd sw)) sec (srv, w)
    = (Inl (TakeoverFailed InvalidHandoffJSON), (srv\<lparr>srv_Session := wipe StateHandedOff ''handed_off'' (srv_Session srv)\<rparr>, w))"
proof -
  have "handoff_wire (snapshot (srv_Session srv))" using assms(3,4) by (simp add: movable_def)
  from cut_handoff [OF this assms(5)] show ?thesis
    using daemon_handoff(1) [OF assms(1,2,4), of refresh now w]
    by (simp add: attemptHandoff_def breaks_off_def Let_def del: append_Cons)
qed

end
