(* ===== verification/Go_Flag.thy ===== *)
theory Go_Flag
  imports Go_Strings
begin

text \<open>
  Go's package \<^verbatim>\<open>flag\<close>: \<^verbatim>\<open>FlagSet.Parse\<close> on flags that hold a string or a boolean. The flags of a set
  are a list of a name, whether it is boolean, and how a value is stored; what is left are the
  arguments after the flags.
\<close>

datatype flag_error = HelpRequested | BadSyntax string | Undefined string | NeedsArgument string | BadBool string string

type_synonym 's flag = "string \<times> (string \<Rightarrow> 's \<Rightarrow> 's) + string \<times> (bool \<Rightarrow> 's \<Rightarrow> 's)"

definition flag_name :: "'s flag \<Rightarrow> string" where
  "flag_name f = (case f of Inl (n, _) \<Rightarrow> n | Inr (n, _) \<Rightarrow> n)"

text \<open>\<^verbatim>\<open>strconv.ParseBool\<close>\<close>

definition parse_bool :: "string \<Rightarrow> bool option" where
  "parse_bool v =
     (if v \<in> {''1'', ''t'', ''T'', ''true'', ''TRUE'', ''True''} then Some True
      else if v \<in> {''0'', ''f'', ''F'', ''false'', ''FALSE'', ''False''} then Some False
      else None)"

text \<open>The name of a flag argument and the value after an equals sign, if there is one.\<close>

definition split_flag :: "string \<Rightarrow> string \<times> string option" where
  "split_flag s =
     (let n = takeWhile (\<lambda>c. c \<noteq> CHR ''='') s in
      (n, if n = s then None else Some (drop (Suc (length n)) s)))"

definition flag_body :: "string \<Rightarrow> string" where
  "flag_body s = (if 2 \<le> length s \<and> s ! 1 = CHR ''-'' then drop 2 s else drop 1 s)"

fun flag_parse :: "'s flag list \<Rightarrow> string list \<Rightarrow> 's \<Rightarrow> flag_error + 's \<times> string list" where
  "flag_parse fs [] st = Inr (st, [])"
| "flag_parse fs (s # args) st =
     (if length s < 2 \<or> hd s \<noteq> CHR ''-'' then Inr (st, s # args)
      else if s = ''--'' then Inr (st, args)
      else
        (let body = flag_body s in
         if body = '''' \<or> hd body = CHR ''-'' \<or> hd body = CHR ''='' then Inl (BadSyntax s)
         else
           (let (name, value) = split_flag body in
            (case find (\<lambda>f. flag_name f = name) fs of
               None \<Rightarrow> if name = ''help'' \<or> name = ''h'' then Inl HelpRequested else Inl (Undefined name)
             | Some (Inr (_, set_bool)) \<Rightarrow>
                 (case parse_bool (case value of None \<Rightarrow> ''true'' | Some v \<Rightarrow> v) of
                    None \<Rightarrow> Inl (BadBool (case value of None \<Rightarrow> ''true'' | Some v \<Rightarrow> v) name)
                  | Some b \<Rightarrow> flag_parse fs args (set_bool b st))
             | Some (Inl (_, set_str)) \<Rightarrow>
                 (case value of
                    Some v \<Rightarrow> flag_parse fs args (set_str v st)
                  | None \<Rightarrow>
                      (case args of
                         [] \<Rightarrow> Inl (NeedsArgument name)
                       | v # args' \<Rightarrow> flag_parse fs args' (set_str v st)))))))"

end
