(* ===== verification/Serve.thy ===== *)
theory Serve
  imports Takeover Go_Flag
begin

text \<open>
  \<^verbatim>\<open>cmd/xai-oauth/serve.go\<close>: the \<^verbatim>\<open>serve\<close> command. What it uses of the operating system and of the
  socket is the record \<open>host\<close>; the identity provider is its field \<open>ho_env\<close>, the environment of
  theory \<open>Http\<close>. The environment variables are part of the state, because \<open>withSecretEnv\<close> sets one
  for a while. What is printed to the standard error is collected, and what the handoff variable holds is
  recorded where it matters.

  Loops get their fuel as an argument; \<open>None\<close> means that it did not suffice.
\<close>

subsection \<open>The host\<close>

type_synonym environ = "string \<Rightarrow> string option"

definition getenv :: "environ \<Rightarrow> string \<Rightarrow> string" where
  "getenv e k = (case e k of None \<Rightarrow> '''' | Some v \<Rightarrow> v)"

text \<open>How the wait of \<open>runServer\<close> ends, and the settings of its HTTP server.\<close>

datatype serve_end = GotSignal string | ShutdownRequested | ServerClosed | ServerError string

record http_config =
  ReadHeaderTimeout :: duration
  ReadTimeout :: duration
  WriteTimeout :: duration
  IdleTimeout :: duration
  MaxHeaderBytes :: nat

record 'n host =
  ho_env :: "'n env"
  ho_call :: "string \<Rightarrow> 'n world unix_call"
  ho_sleep :: "duration \<Rightarrow> 'n world \<Rightarrow> 'n world"
  ho_pause :: "gotime \<Rightarrow> 'n world \<Rightarrow> bool \<times> 'n world"
  ho_random :: "'n world \<Rightarrow> string option \<times> 'n world"
  ho_listen :: "string \<Rightarrow> 'n world \<Rightarrow> (listen_err + string) \<times> 'n world"
  ho_serve :: "http_config \<Rightarrow> Server \<Rightarrow> 'n world \<Rightarrow> serve_end \<times> 'n world"
  ho_shutdown :: "duration \<Rightarrow> 'n world \<Rightarrow> 'n world"
  ho_unlink :: "string \<Rightarrow> 'n world \<Rightarrow> 'n world"
  ho_prepare :: "'n world \<Rightarrow> string option \<times> 'n world"
  ho_start :: "string list \<Rightarrow> string list \<Rightarrow> 'n world \<Rightarrow> int option \<times> 'n world"
  ho_write :: "string \<Rightarrow> 'n world \<Rightarrow> bool \<times> 'n world"
  ho_close :: "'n world \<Rightarrow> bool \<times> 'n world"
  ho_kill :: "int \<Rightarrow> 'n world \<Rightarrow> 'n world"

datatype serve_err =
    FlagErr flag_error | UnexpectedArgs "string list" | EmptySocket | ShortSecret nat | SecretNotSet string
  | TakeoverErr takeover_err | RandomFailed | LoginErr go_err | LoginNoTokens | LoginEndpoint pin_error
  | OldDaemonStays takeover_err | SessionErr login_error | ReadHandoff | HandoffMissingSecret
  | ListenErr listen_err | ServeErr string | PrepareErr string | StartFailed | WriteFailed | CloseFailed
  | SetenvFailed | ClientErr client_err | NotReady client_err | DaemonFailed serve_err

text \<open>A line of output; the second kind ends with a string in Go's \<^verbatim>\<open>%q\<close> quotes.\<close>

datatype out = Line string | QLine string string

subsection \<open>Handoff values\<close>

definition empty_loginHandoff :: loginHandoff where
  "empty_loginHandoff = \<lparr>lh_Secret = '''', lh_AccessToken = '''', lh_RefreshToken = '''', lh_TokenEndpoint = '''', lh_ExpiresIn = 0\<rparr>"

definition loginHandoff_fields :: "loginHandoff field list" where
  "loginHandoff_fields =
     [str_field ''secret'' (\<lambda>v s. s\<lparr>lh_Secret := v\<rparr>), str_field ''access_token'' (\<lambda>v s. s\<lparr>lh_AccessToken := v\<rparr>),
      str_field ''refresh_token'' (\<lambda>v s. s\<lparr>lh_RefreshToken := v\<rparr>), str_field ''token_endpoint'' (\<lambda>v s. s\<lparr>lh_TokenEndpoint := v\<rparr>),
      int_field ''expires_in'' (\<lambda>v s. s\<lparr>lh_ExpiresIn := v\<rparr>)]"

text \<open>\<^verbatim>\<open>Encoder.Encode\<close> of the struct, with its fields in the order of the declaration.\<close>

definition encode_handoff :: "loginHandoff \<Rightarrow> string" where
  "encode_handoff h =
     json_encode (JObj [(''secret'', JStr (lh_Secret h)), (''access_token'', JStr (lh_AccessToken h)),
       (''refresh_token'', JStr (lh_RefreshToken h)), (''token_endpoint'', JStr (lh_TokenEndpoint h)),
       (''expires_in'', JNum (itoa (lh_ExpiresIn h)))])"

definition zeroHandoff :: "loginHandoff option \<Rightarrow> loginHandoff option" where
  "zeroHandoff oh =
     map_option (\<lambda>h. h\<lparr>lh_Secret := '''', lh_AccessToken := '''', lh_RefreshToken := '''', lh_TokenEndpoint := '''',
       lh_ExpiresIn := 0\<rparr>) oh"

definition handoffToLoginResult :: "loginHandoff \<Rightarrow> LoginResult" where
  "handoffToLoginResult h =
     \<lparr>Tokens = empty_TokenResponse\<lparr>AccessToken := lh_AccessToken h, RefreshToken := lh_RefreshToken h,
        ExpiresIn := lh_ExpiresIn h, TokenType := ''Bearer''\<rparr>,
      lr_Discovery = empty_Discovery\<lparr>TokenEndpoint := lh_TokenEndpoint h\<rparr>\<rparr>"

text \<open>
  What the background child reads from its standard input, and what its variable \<open>h\<close> holds when the function
  returns: when \<^verbatim>\<open>Decode\<close> fails it keeps the fields that were stored before.
\<close>

definition sessionFromHandoff_vars :: "string \<Rightarrow> gotime \<Rightarrow> (serve_err + Session \<times> string) \<times> loginHandoff option" where
  "sessionFromHandoff_vars input now =
     (let (h, bad) = json_decode loginHandoff_fields (limit_body input) empty_loginHandoff in
      if bad then (Inl ReadHandoff, Some h)
      else
        (let sec = trim_space (lh_Secret h) in
         if sec = '''' then (Inl HandoffMissingSecret, zeroHandoff (Some h))
         else
           (let result = NewFromLogin (Some (handoffToLoginResult h)) now; hv = zeroHandoff (Some h) in
            (case result of
               Inl e \<Rightarrow> (Inl (SessionErr e), hv)
             | Inr sess \<Rightarrow> (Inr (sess, sec), hv)))))"

definition sessionFromHandoff :: "string \<Rightarrow> gotime \<Rightarrow> serve_err + Session \<times> string" where
  "sessionFromHandoff input now = fst (sessionFromHandoff_vars input now)"

lemma sessionFromHandoff_eq:
  "sessionFromHandoff input now =
     (let (h, bad) = json_decode loginHandoff_fields (limit_body input) empty_loginHandoff in
      if bad then Inl ReadHandoff
      else
        (let sec = trim_space (lh_Secret h) in
         if sec = '''' then Inl HandoffMissingSecret
         else
           (case NewFromLogin (Some (handoffToLoginResult h)) now of
              Inl e \<Rightarrow> Inl (SessionErr e)
            | Inr sess \<Rightarrow> Inr (sess, sec))))"
  by (simp add: sessionFromHandoff_def sessionFromHandoff_vars_def Let_def split: prod.split sum.split)

definition deviceLoginHandoff ::
  "nat \<Rightarrow> 'n env \<Rightarrow> bool \<Rightarrow> 'n world \<Rightarrow> ((serve_err + loginHandoff) \<times> string list \<times> 'n world) option"
where
  "deviceLoginHandoff fuel env openBrowser w =
     (case DeviceLogin fuel env openBrowser w of
        None \<Rightarrow> None
      | Some (Inl e, printed, w') \<Rightarrow> Some (Inl (LoginErr e), printed, w')
      | Some (Inr result, printed, w') \<Rightarrow>
          (let h = \<lparr>lh_Secret = '''', lh_AccessToken = AccessToken (Tokens result), lh_RefreshToken = RefreshToken (Tokens result),
                    lh_TokenEndpoint = TokenEndpoint (lr_Discovery result), lh_ExpiresIn = ExpiresIn (Tokens result)\<rparr> in
           if lh_AccessToken h = '''' \<or> lh_RefreshToken h = '''' then Some (Inl LoginNoTokens, printed, w')
           else
             (case ValidateXAIURL (lh_TokenEndpoint h) ''token_endpoint'' of
                Some e \<Rightarrow> Some (Inl (LoginEndpoint e), printed, w')
              | None \<Rightarrow> Some (Inr h, printed, w'))))"

definition minOperatorSecretLen :: nat where
  "minOperatorSecretLen = 16"

text \<open>\<^verbatim>\<open>hex.EncodeToString\<close> of the random bytes; \<open>hex_digit\<close> is the lower-case digit of theory \<open>Go_JSON\<close>.\<close>

definition hex_encode :: "string \<Rightarrow> string" where
  "hex_encode s = concat (map (\<lambda>c. [hex_digit (byte c div 16), hex_digit (byte c mod 16)]) s)"

definition randomSecret :: "('w \<Rightarrow> string option \<times> 'w) \<Rightarrow> 'w \<Rightarrow> string option \<times> 'w" where
  "randomSecret rand w = (let (b, w') = rand w in (map_option hex_encode b, w'))"

subsection \<open>The environment variable of the secret\<close>

definition daemonEnv :: "string list \<Rightarrow> string list" where
  "daemonEnv environ = filter (\<lambda>kv. \<not> has_prefix kv (EnvSecret @ ''='')) environ"

text \<open>\<^verbatim>\<open>os.Setenv\<close> refuses a value with a zero byte.\<close>

definition withSecretEnv ::
  "string \<Rightarrow> (environ \<Rightarrow> 'w \<Rightarrow> (serve_err option \<times> environ \<times> 'w) option) \<Rightarrow> environ \<Rightarrow> 'w
     \<Rightarrow> (serve_err option \<times> environ \<times> 'w) option"
where
  "withSecretEnv sec fn e w =
     (if CHR 0x00 \<in> set sec then Some (Some SetenvFailed, e, w)
      else
        (case fn (e(EnvSecret \<mapsto> sec)) w of
           None \<Rightarrow> None
         | Some (r, e', w') \<Rightarrow> Some (r, e'(EnvSecret := e EnvSecret), w')))"

definition waitDaemonReady ::
  "nat \<Rightarrow> 'n host \<Rightarrow> string \<Rightarrow> string \<Rightarrow> duration \<Rightarrow> environ \<Rightarrow> 'n world \<Rightarrow> (serve_err option \<times> environ \<times> 'n world) option"
where
  "waitDaemonReady fuel ho sockPath sec timeout =
     withSecretEnv sec (\<lambda>e w.
       (case New (getenv e) sockPath of
          Inl err \<Rightarrow> Some (Some (ClientErr err), e, w)
        | Inr c \<Rightarrow>
            (case WaitReady fuel (ho_call ho (cl_socket c)) (ho_pause ho (time_add (Now (ho_env ho) w) timeout)) (Some c) w of
               None \<Rightarrow> None
             | Some (None, w') \<Rightarrow> Some (None, e, w')
             | Some (Some err, w') \<Rightarrow> Some (Some (NotReady err), e, w'))))"

subsection \<open>The two ways to serve\<close>

definition serve_config :: http_config where
  "serve_config =
     \<lparr>ReadHeaderTimeout = 10 * second, ReadTimeout = 10 * second + 10 * second, WriteTimeout = IDPRequestTimeout + 10 * second,
      IdleTimeout = 60 * second, MaxHeaderBytes = 2 ^ 14\<rparr>"

text \<open>The socket file is removed when the function returns, once it was bound.\<close>

definition runServer ::
  "nat \<Rightarrow> 'n host \<Rightarrow> string \<Rightarrow> string \<Rightarrow> Session \<Rightarrow> 'n world \<Rightarrow> (serve_err option \<times> out list \<times> 'n world) option"
where
  "runServer fuel ho sockPath sec sess w =
     (case listenWithRetry fuel (ho_listen ho sockPath) (Now (ho_env ho)) (ho_sleep ho) (5 * second) w of
        None \<Rightarrow> None
      | Some (Inl e, w1) \<Rightarrow> Some (Some (ListenErr e), [], w1)
      | Some (Inr ln, w1) \<Rightarrow>
          (case ho_serve ho serve_config \<lparr>srv_Session = sess, srv_Secret = sec, srv_OnLogout = True\<rparr> w1 of
             (GotSignal sig, w2) \<Rightarrow>
               Some (None, [Line (''signal '' @ sig @ '', shutting down'')], ho_unlink ho sockPath (ho_shutdown ho (5 * second) w2))
           | (ShutdownRequested, w2) \<Rightarrow>
               Some (None, [Line ''logout requested, shutting down''], ho_unlink ho sockPath (ho_shutdown ho (5 * second) w2))
           | (ServerClosed, w2) \<Rightarrow> Some (None, [], ho_unlink ho sockPath w2)
           | (ServerError t, w2) \<Rightarrow> Some (Some (ServeErr t), [], ho_unlink ho sockPath w2)))"

definition spawn_argv :: "string \<Rightarrow> string list" where
  "spawn_argv sockPath = [''serve'', ''--from-login'', ''--socket'', sockPath]"

definition spawnBackgroundDaemon ::
  "nat \<Rightarrow> 'n host \<Rightarrow> string list \<Rightarrow> string \<Rightarrow> loginHandoff option \<Rightarrow> environ \<Rightarrow> 'n world
     \<Rightarrow> ((serve_err + int) \<times> environ \<times> 'n world) option"
where
  "spawnBackgroundDaemon fuel ho environ_list sockPath oh e w =
     (case oh of
        None \<Rightarrow> Some (Inl HandoffMissingSecret, e, w)
      | Some h \<Rightarrow>
          if trim_space (lh_Secret h) = '''' then Some (Inl HandoffMissingSecret, e, w)
          else
            (case ho_prepare ho w of
               (Some t, w1) \<Rightarrow> Some (Inl (PrepareErr t), e, w1)
             | (None, w1) \<Rightarrow>
                 (case ho_start ho (spawn_argv sockPath) (daemonEnv environ_list) w1 of
                    (None, w2) \<Rightarrow> Some (Inl StartFailed, e, w2)
                  | (Some pid, w2) \<Rightarrow>
                      (case ho_write ho (encode_handoff h) w2 of
                         (False, w3) \<Rightarrow> Some (Inl WriteFailed, e, ho_kill ho pid w3)
                       | (True, w3) \<Rightarrow>
                           (case ho_close ho w3 of
                              (False, w4) \<Rightarrow> Some (Inl CloseFailed, e, ho_kill ho pid w4)
                            | (True, w4) \<Rightarrow>
                                (case waitDaemonReady fuel ho sockPath (lh_Secret h) (10 * second) e w4 of
                                   None \<Rightarrow> None
                                 | Some (Some err, e', w5) \<Rightarrow> Some (Inl err, e', ho_kill ho pid w5)
                                 | Some (None, e', w5) \<Rightarrow> Some (Inr pid, e', w5)))))))"

subsection \<open>Output\<close>

definition em_dash :: string where
  "em_dash = encode_rune 8212"

definition ellipsis :: string where
  "ellipsis = encode_rune 8230"

definition printLoginCredentials :: "string \<Rightarrow> string \<Rightarrow> bool \<Rightarrow> out list" where
  "printLoginCredentials sockPath sec generated =
     [Line '''', Line ''Login successful.'', Line (''  socket:  '' @ sockPath)]
     @ (if generated then
          [Line (''  secret:  '' @ sec), Line ''  (save this secret; it is not stored on disk)'',
           Line (''  export XAI_OAUTH_SECRET='' @ [CHR 0x27] @ ellipsis @ [CHR 0x27])]
        else [Line ''  secret:  (from env XAI_OAUTH_SECRET)''])
     @ [Line '''', Line ''Commands (after daemon is up):'', QLine ''  export XAI_OAUTH_SOCKET='' sockPath,
        Line ''  xai-oauth status'', Line ''  xai-oauth token'', Line ''  xai-oauth logout'', Line '''']"

definition printTakeover :: "string \<Rightarrow> out list" where
  "printTakeover sockPath =
     [Line '''', Line (''Session taken over from the previous daemon '' @ em_dash @ '' no re-login needed.''),
      Line (''  socket:  '' @ sockPath), Line ''  secret:  (unchanged, from env XAI_OAUTH_SECRET)'', Line '''']"

definition login_banner :: "out list" where
  "login_banner =
     [Line (''xai-oauth serve '' @ em_dash @ '' xAI OAuth2 personal (device login)''), Line (''  scope:  '' @ Scope), Line '''']"

subsection \<open>The command\<close>

record serve_flags =
  sf_socket :: string
  sf_no_browser :: bool
  sf_foreground :: bool
  sf_from_login :: bool

definition defaultSocket :: "(string \<Rightarrow> string) \<Rightarrow> string" where
  "defaultSocket env = (let p = trim_space (env EnvSocket) in if p \<noteq> '''' then p else DefaultSocketPath env)"

definition serve_flag_set :: "serve_flags flag list" where
  "serve_flag_set =
     [Inl (''socket'', \<lambda>v s. s\<lparr>sf_socket := v\<rparr>), Inr (''no-browser'', \<lambda>b s. s\<lparr>sf_no_browser := b\<rparr>),
      Inr (''foreground'', \<lambda>b s. s\<lparr>sf_foreground := b\<rparr>), Inr (''from-login'', \<lambda>b s. s\<lparr>sf_from_login := b\<rparr>)]"

definition parse_serve_args :: "(string \<Rightarrow> string) \<Rightarrow> string list \<Rightarrow> serve_err + serve_flags" where
  "parse_serve_args env args =
     (case flag_parse serve_flag_set args
         \<lparr>sf_socket = defaultSocket env, sf_no_browser = False, sf_foreground = False, sf_from_login = False\<rparr> of
        Inl e \<Rightarrow> Inl (FlagErr e)
      | Inr (fl, rest) \<Rightarrow>
          if rest \<noteq> [] then Inl (UnexpectedArgs rest)
          else if trim_space (sf_socket fl) = '''' then Inl EmptySocket
          else Inr (fl\<lparr>sf_socket := trim_space (sf_socket fl)\<rparr>))"

text \<open>
  What the command leaves: its error, what its handoff variable held, the output, the environment, the world. The
  variable is recorded at the points where control is given away: while the background process is started,
  while \<open>runServer\<close> runs, and when the command returns.
\<close>

datatype moment = Spawning | Serving | Returning

record 'n served_end =
  se_Error :: "serve_err option"
  se_Held :: "(moment \<times> loginHandoff option) list"
  se_Out :: "out list"
  se_Environ :: environ
  se_World :: "'n world"

definition returning ::
  "serve_err option \<Rightarrow> (moment \<times> loginHandoff option) list \<Rightarrow> loginHandoff option \<Rightarrow> out list \<Rightarrow> environ \<Rightarrow> 'n world \<Rightarrow> 'n served_end"
where
  "returning err held hv printed e w =
     \<lparr>se_Error = err, se_Held = held @ [(Returning, hv)], se_Out = printed, se_Environ = e, se_World = w\<rparr>"

text \<open>\<open>return runServer(...)\<close>, with the handoff variable \<open>hv\<close>.\<close>

definition serving ::
  "nat \<Rightarrow> 'n host \<Rightarrow> string \<Rightarrow> string \<Rightarrow> Session \<Rightarrow> loginHandoff option \<Rightarrow> out list \<Rightarrow> environ \<Rightarrow> 'n world \<Rightarrow> 'n served_end option"
where
  "serving fuel ho sockPath sec sess hv printed e w =
     (case runServer fuel ho sockPath sec sess w of
        None \<Rightarrow> None
      | Some (r, said, w') \<Rightarrow> Some (returning r [(Serving, hv)] hv (printed @ said) e w'))"

text \<open>How the command finds its credentials: a takeover, or a login, with the old daemon to be replaced or not.\<close>

datatype plan = PlanTakeover loginHandoff string | PlanLogin string bool bool

text \<open>The first half: the secret, and what to do about a daemon that is already there.\<close>

definition serve_plan ::
  "'n host \<Rightarrow> string \<Rightarrow> environ \<Rightarrow> 'n world \<Rightarrow> (serve_err + plan) \<times> 'n world"
where
  "serve_plan ho sockPath e w =
     (let sec = trim_space (getenv e EnvSecret) in
      if sec \<noteq> '''' \<and> length sec < minOperatorSecretLen then (Inl (ShortSecret (length sec)), w)
      else
        (case daemonAlive (ho_call ho sockPath) w of
           (True, w1) \<Rightarrow>
             if sec = '''' then (Inl (SecretNotSet sockPath), w1)
             else
               (case attemptHandoff (ho_call ho sockPath) (Now (ho_env ho)) sec w1 of
                  (Inl err, w2) \<Rightarrow> (Inl (TakeoverErr err), w2)
                | (Inr (takeoverAcquired h), w2) \<Rightarrow> (Inr (PlanTakeover (h\<lparr>lh_Secret := sec\<rparr>) sec), w2)
                | (Inr takeoverDeadSession, w2) \<Rightarrow> (Inr (PlanLogin sec False True), w2))
         | (False, w1) \<Rightarrow>
             if sec = '''' then
               (case randomSecret (ho_random ho) w1 of
                  (None, w2) \<Rightarrow> (Inl RandomFailed, w2)
                | (Some s, w2) \<Rightarrow> (Inr (PlanLogin s True False), w2))
             else (Inr (PlanLogin sec False False), w1)))"

text \<open>The second half: credentials in hand, serve in the foreground or start the background daemon.\<close>

definition serve_go ::
  "nat \<Rightarrow> 'n host \<Rightarrow> string list \<Rightarrow> bool \<Rightarrow> string \<Rightarrow> string \<Rightarrow> loginHandoff \<Rightarrow> out list \<Rightarrow> environ \<Rightarrow> 'n world
     \<Rightarrow> 'n served_end option"
where
  "serve_go fuel ho environ_list foreground sockPath sec h printed e w =
     (if foreground then
        (let result = NewFromLogin (Some (handoffToLoginResult h)) (Now (ho_env ho) w); hv = zeroHandoff (Some h) in
         (case result of
            Inl err \<Rightarrow> Some (returning (Some (SessionErr err)) [] hv printed e w)
          | Inr sess \<Rightarrow>
              serving fuel ho sockPath sec sess hv
                (printed @ [Line ''Running in foreground (--foreground). Ctrl-C to stop.'', Line '''']) e w))
      else
        (case spawnBackgroundDaemon fuel ho environ_list sockPath (Some h) e w of
           None \<Rightarrow> None
         | Some (result, e', w') \<Rightarrow>
             (let held = [(Spawning, Some h)]; hv = zeroHandoff (Some h) in
              (case result of
                 Inl err \<Rightarrow> Some (returning (Some (DaemonFailed err)) held hv printed e' w')
               | Inr pid \<Rightarrow>
                   Some (returning None held hv
                     (printed @ [Line (''Daemon running in background (pid '' @ itoa pid @ ''). Terminal is free.''),
                        Line ''  xai-oauth status | token | logout'']) e' w')))))"

definition cmdServe ::
  "nat \<Rightarrow> 'n host \<Rightarrow> string list \<Rightarrow> string \<Rightarrow> string list \<Rightarrow> environ \<Rightarrow> 'n world \<Rightarrow> 'n served_end option"
where
  "cmdServe fuel ho environ_list stdin args e w =
     (case parse_serve_args (getenv e) args of
        Inl err \<Rightarrow> Some (returning (Some err) [] None [] e w)
      | Inr fl \<Rightarrow>
          (let sockPath = sf_socket fl in
           if sf_from_login fl then
             (case sessionFromHandoff_vars stdin (Now (ho_env ho) w) of
                (Inl err, hv) \<Rightarrow> Some (returning (Some err) [] hv [] e w)
              | (Inr (sess, sec), hv) \<Rightarrow> serving fuel ho sockPath sec sess hv [] e w)
           else
             (case serve_plan ho sockPath e w of
                (Inl err, w1) \<Rightarrow> Some (returning (Some err) [] None [] e w1)
              | (Inr (PlanTakeover h sec), w1) \<Rightarrow>
                  serve_go fuel ho environ_list (sf_foreground fl) sockPath sec h
                    (Line (''xai-oauth serve '' @ em_dash @ '' taking over the running daemon (no re-login)'') # printTakeover sockPath) e w1
              | (Inr (PlanLogin sec generated replaceDead), w1) \<Rightarrow>
                  (let pre = (if replaceDead then
                         [Line (''xai-oauth serve '' @ em_dash @ '' running daemon has a dead session; signing in, then replacing it'')]
                       else []) @ login_banner in
                   (case deviceLoginHandoff fuel (ho_env ho) (\<not> sf_no_browser fl) w1 of
                      None \<Rightarrow> None
                    | Some (Inl err, printed, w2) \<Rightarrow> Some (returning (Some err) [] None (pre @ map Line printed) e w2)
                    | Some (Inr h0, printed, w2) \<Rightarrow>
                        (let h = h0\<lparr>lh_Secret := sec\<rparr>; said = pre @ map Line printed in
                         (case (if replaceDead then logoutOldDaemon fuel (ho_call ho sockPath) (Now (ho_env ho)) (ho_sleep ho) sec w2
                                else Some (None, w2)) of
                            None \<Rightarrow> None
                          | Some (Some err, w3) \<Rightarrow>
                              Some (returning (Some (OldDaemonStays err)) [] (zeroHandoff (Some h)) said e w3)
                          | Some (None, w3) \<Rightarrow>
                              serve_go fuel ho environ_list (sf_foreground fl) sockPath sec h
                                (said @ printLoginCredentials sockPath sec generated) e w3)))))))"

subsection \<open>Credentials on the way to the daemon\<close>

lemma NewFromLogin_handoff:
  "NewFromLogin (Some (handoffToLoginResult h)) t = Inr s \<longleftrightarrow>
     lh_AccessToken h \<noteq> '''' \<and> lh_RefreshToken h \<noteq> '''' \<and> pinned_url (lh_TokenEndpoint h)
     \<and> s = \<lparr>accessToken = lh_AccessToken h, refreshToken = lh_RefreshToken h, tokenEndpoint = lh_TokenEndpoint h,
            expiresAt = fst (ExpiresAtFromToken (lh_AccessToken h) (lh_ExpiresIn h) t),
            hasExpiry = snd (ExpiresAtFromToken (lh_AccessToken h) (lh_ExpiresIn h) t),
            state = StateReady, lastError = ''''\<rparr>"
  by (simp add: NewFromLogin_Inr handoffToLoginResult_def)

definition handoff_object :: "loginHandoff \<Rightarrow> (string \<times> json) list" where
  "handoff_object h =
     [(''secret'', JStr (lh_Secret h)), (''access_token'', JStr (lh_AccessToken h)),
      (''refresh_token'', JStr (lh_RefreshToken h)), (''token_endpoint'', JStr (lh_TokenEndpoint h)),
      (''expires_in'', JNum (itoa (lh_ExpiresIn h)))]"

lemma encode_handoff_object: "encode_handoff h = json_encode (JObj (handoff_object h))"
  by (simp only: encode_handoff_def handoff_object_def)

definition handoff_utf8 :: "loginHandoff \<Rightarrow> bool" where
  "handoff_utf8 h \<longleftrightarrow>
     utf8_ok (lh_Secret h) \<and> utf8_ok (lh_AccessToken h) \<and> utf8_ok (lh_RefreshToken h) \<and> utf8_ok (lh_TokenEndpoint h)"

lemma flat_handoff_object: "handoff_utf8 h \<Longrightarrow> flat (handoff_object h)"
  by (simp add: handoff_utf8_def handoff_object_def flat_eval json_number_itoa)

lemma decode_handoff:
  assumes "utf8_ok (lh_Secret h)" "utf8_ok (lh_AccessToken h)" "utf8_ok (lh_RefreshToken h)" "utf8_ok (lh_TokenEndpoint h)"
    and "in_i64 (lh_ExpiresIn h)" "length (encode_handoff h) \<le> 2 ^ 20"
  shows "json_decode loginHandoff_fields (limit_body (encode_handoff h)) empty_loginHandoff = (h, False)"
proof -
  have f: "flat (handoff_object h)" by (rule flat_handoff_object) (use assms(1-4) in \<open>simp add: handoff_utf8_def\<close>)
  have "limit_body (encode_handoff h) = encode_handoff h"
    using assms(6) by (simp add: limit_body_def)
  then have "json_first (limit_body (encode_handoff h)) = Some (JObj (handoff_object h))"
    using json_first_parse [OF parse_flat(1) [OF f]] by (simp add: encode_handoff_object)
  then show ?thesis
    using assms(5)
    by (simp add: handoff_object_def json_decode_def store_json_def store_eval loginHandoff_fields_def parse_int64_itoa empty_loginHandoff_def)
qed

text \<open>
  Property C20. The pipe to the background process loses nothing. What the parent writes, the child reads back
  field by field, and the session and the secret it serves with are those of the parent's handoff;
  with a blank secret it refuses to start.
\<close>

theorem sessionFromHandoff_roundtrip:
  assumes "utf8_ok (lh_Secret h)" "utf8_ok (lh_AccessToken h)" "utf8_ok (lh_RefreshToken h)" "utf8_ok (lh_TokenEndpoint h)"
    and "in_i64 (lh_ExpiresIn h)" "length (encode_handoff h) \<le> 2 ^ 20"
  shows "sessionFromHandoff (encode_handoff h) t =
    (if blank (lh_Secret h) then Inl HandoffMissingSecret
     else
       (case NewFromLogin (Some (handoffToLoginResult h)) t of
          Inl e \<Rightarrow> Inl (SessionErr e)
        | Inr s \<Rightarrow> Inr (s, trim_space (lh_Secret h))))"
  by (simp add: sessionFromHandoff_eq decode_handoff [OF assms])

definition demo_handoff :: loginHandoff where
  "demo_handoff = \<lparr>lh_Secret = ''s3cret'', lh_AccessToken = ''at'', lh_RefreshToken = ''rt'', lh_TokenEndpoint = DefaultTokenURL,
     lh_ExpiresIn = 3600\<rparr>"

theorem sessionFromHandoff_roundtrip_witness:
  "\<forall>t. \<exists>s. sessionFromHandoff (encode_handoff demo_handoff) t = Inr (s, ''s3cret'') \<and> refreshToken s = ''rt''"
proof
  fix t
  have u: "utf8_ok (lh_Secret demo_handoff)" "utf8_ok (lh_AccessToken demo_handoff)" "utf8_ok (lh_RefreshToken demo_handoff)"
      "utf8_ok (lh_TokenEndpoint demo_handoff)" "in_i64 (lh_ExpiresIn demo_handoff)"
    by (simp_all add: demo_handoff_def flat_eval DefaultTokenURL_def Issuer_def in_i64_def)
  have "flat [(''secret'', JStr (lh_Secret demo_handoff)), (''access_token'', JStr (lh_AccessToken demo_handoff)),
       (''refresh_token'', JStr (lh_RefreshToken demo_handoff)), (''token_endpoint'', JStr (lh_TokenEndpoint demo_handoff)),
       (''expires_in'', JNum (itoa (lh_ExpiresIn demo_handoff)))]"
    using u by (simp add: flat_eval json_number_itoa)
  from json_obj_length [OF this]
  have "length (encode_handoff demo_handoff) \<le> 2 ^ 20"
    unfolding encode_handoff_def json_encode_def
    by (simp add: entry_size_def demo_handoff_def DefaultTokenURL_def Issuer_def itoa_def nat_digits.simps del: json_print.simps)
  note r = sessionFromHandoff_roundtrip [OF u this, of t]
  have "\<not> blank (lh_Secret demo_handoff)" "trim_space (lh_Secret demo_handoff) = ''s3cret''"
    by (simp_all add: demo_handoff_def string_eval)
  moreover have "pinned_url (lh_TokenEndpoint demo_handoff)"
    using demo_session_inv by (simp add: demo_handoff_def demo_session_def session_inv_def)
  then obtain s where "NewFromLogin (Some (handoffToLoginResult demo_handoff)) t = Inr s \<and> refreshToken s = ''rt''"
    using NewFromLogin_handoff [of demo_handoff t] by (auto simp: demo_handoff_def)
  ultimately show "\<exists>s. sessionFromHandoff (encode_handoff demo_handoff) t = Inr (s, ''s3cret'') \<and> refreshToken s = ''rt''"
    unfolding r by auto
qed

text \<open>
  Property C21. No process starts with a part of a session. Whatever number of bytes of a handoff is lost at its
  end, in the response of the old daemon or in the pipe to the background process, the reader reports an
  error; it never goes on with a token that is cut short or a field that is missing.
\<close>

theorem partial_handoff_refused:
  assumes "handoff_wire d" "n < length (json_print (json_map (handoff_body d)))"
    and "handoff_utf8 h" "m < length (encode_handoff h) - 1"
  shows "parseHandoffResponse t (limit_body (take n (json_print (json_map (handoff_body d))))) = Inl InvalidHandoffJSON
    \<and> sessionFromHandoff (take m (encode_handoff h)) t = Inl ReadHandoff"
proof (intro conjI cut_handoff assms(1,2))
  let ?j = "JObj (handoff_object h)"
  have "m < length (json_print ?j)"
    using assms(4) by (simp add: encode_handoff_object json_encode_def del: json_print.simps)
  then have "json_first (take (min (2 ^ 20) m) (json_encode ?j)) = None"
    by (intro cut_object(2) [OF parse_flat(2) [OF flat_handoff_object [OF assms(3)]]]) simp
  then have "json_decode fs (limit_body (take m (encode_handoff h))) x = (x, True)" for fs :: "loginHandoff field list" and x
    by (simp add: json_decode_def store_json_def limit_body_def encode_handoff_object)
  then show "sessionFromHandoff (take m (encode_handoff h)) t = Inl ReadHandoff"
    by (simp add: sessionFromHandoff_eq)
qed

theorem partial_handoff_refused_witness:
  "parseHandoffResponse 0 (limit_body (take 1 (json_print (json_map (handoff_body (snapshot demo_session)))))) = Inl InvalidHandoffJSON
   \<and> sessionFromHandoff (take 1 (encode_handoff demo_handoff)) 0 = Inl ReadHandoff"
proof (rule partial_handoff_refused)
  show "handoff_wire (snapshot demo_session)"
    using demo_movable by (simp add: movable_def demo_host_simps)
  show "handoff_utf8 demo_handoff"
    by (simp add: handoff_utf8_def demo_handoff_def flat_eval DefaultTokenURL_def Issuer_def)
qed (simp_all add: encode_handoff_def json_encode_def json_map_def)

lemma remaining_bounds:
  assumes "0 < remaining d t0" "ordinary_time t"
  shows "ExpiresAtFromToken tok (remaining d t0) t = (t + remaining d t0 * second, True)"
    "t + remaining d t0 * second \<le> hd_ExpiresAt d + (t - t0)"
    "hd_ExpiresAt d - t0 < 2 ^ 63 - 1 \<Longrightarrow> hd_ExpiresAt d + (t - t0) < t + remaining d t0 * second + 2 * second"
proof -
  let ?e = "hd_ExpiresAt d - hd_ExpiresAt d mod second"
  have r: "remaining d t0 = until_seconds ?e t0" "0 < until_seconds ?e t0"
    using assms(1) by (auto simp: remaining_def max_def split: if_splits)
  note b = until_seconds_bounds [OF r(2)]
  have s: "seconds (remaining d t0) = remaining d t0 * second" "in_i64 (remaining d t0 * second)"
    using b(3) r by (simp_all add: seconds_small in_i64_def second_def)
  with assms show "ExpiresAtFromToken tok (remaining d t0) t = (t + remaining d t0 * second, True)"
    by (simp add: ExpiresAtFromToken_def time_add_ordinary)
  have m: "0 \<le> hd_ExpiresAt d mod second" "hd_ExpiresAt d mod second < second" by (simp_all add: second_def)
  show "t + remaining d t0 * second \<le> hd_ExpiresAt d + (t - t0)"
    using b(1) m r by simp
  assume "hd_ExpiresAt d - t0 < 2 ^ 63 - 1"
  with m(1) have "?e - t0 < 2 ^ 63 - 1" by simp
  from b(2) [OF this] m r show "hd_ExpiresAt d + (t - t0) < t + remaining d t0 * second + 2 * second"
    by (simp add: algebra_simps)
qed

text \<open>
  Property C3. A takeover keeps the login. When a daemon with a ready session is asked with its secret, the
  successor can always make a ready session of the answer, with the same tokens and endpoint; the
  old daemon keeps no token; and the expiry moves by no more than the time between the answer and the
  start of the new session, less at most two seconds.
\<close>

theorem takeover_keeps_session:
  assumes "good_secret sec" "secretEqual sec (srv_Secret srv)" "movable (srv_Session srv)" "state (srv_Session srv) = StateReady"
  shows "\<exists>h srv'. attemptHandoff (daemon refresh now) (\<lambda>sw. now (snd sw)) sec (srv, w) = (Inr (takeoverAcquired h), (srv', w))
    \<and> accessToken (srv_Session srv') = '''' \<and> refreshToken (srv_Session srv') = ''''
    \<and> (\<forall>t. \<exists>s. NewFromLogin (Some (handoffToLoginResult (h\<lparr>lh_Secret := sec\<rparr>))) t = Inr s
        \<and> session_inv s \<and> state s = StateReady
        \<and> accessToken s = accessToken (srv_Session srv) \<and> refreshToken s = refreshToken (srv_Session srv)
        \<and> tokenEndpoint s = tokenEndpoint (srv_Session srv)
        \<and> (ordinary_time t \<and> 0 < lh_ExpiresIn h \<longrightarrow>
             hasExpiry s \<and> expiresAt s \<le> expiresAt (srv_Session srv) + (t - now w)
             \<and> (expiresAt (srv_Session srv) - now w < 2 ^ 63 - 1 \<longrightarrow>
                  expiresAt (srv_Session srv) + (t - now w) < expiresAt s + 2 * second)))"
proof (intro exI conjI allI)
  let ?s = "srv_Session srv" and ?h = "moved (srv_Session srv) (now w)"
  let ?srv' = "srv\<lparr>srv_Session := wipe StateHandedOff ''handed_off'' (srv_Session srv)\<rparr>"
  show "attemptHandoff (daemon refresh now) (\<lambda>sw. now (snd sw)) sec (srv, w) = (Inr (takeoverAcquired ?h), (?srv', w))"
    by (rule attemptHandoff_ready [OF assms])
  show "accessToken (srv_Session ?srv') = ''''" "refreshToken (srv_Session ?srv') = ''''" by (simp_all add: wipe_def)
  fix t
  have inv: "session_inv ?s" using assms(3) by (simp add: movable_def)
  let ?n = "\<lparr>accessToken = accessToken ?s, refreshToken = refreshToken ?s, tokenEndpoint = tokenEndpoint ?s,
     expiresAt = fst (ExpiresAtFromToken (accessToken ?s) (remaining (snapshot ?s) (now w)) t),
     hasExpiry = snd (ExpiresAtFromToken (accessToken ?s) (remaining (snapshot ?s) (now w)) t),
     state = StateReady, lastError = ''''\<rparr>"
  have n: "NewFromLogin (Some (handoffToLoginResult (?h\<lparr>lh_Secret := sec\<rparr>))) t = Inr ?n"
    unfolding NewFromLogin_handoff using session_invD(1) [OF inv assms(4)] by (simp add: moved_def)
  then show "NewFromLogin (Some (handoffToLoginResult (?h\<lparr>lh_Secret := sec\<rparr>))) t = Inr ?n" .
  show "session_inv ?n" using n by (rule inv_NewFromLogin)
  show "state ?n = StateReady" "accessToken ?n = accessToken ?s" "refreshToken ?n = refreshToken ?s" "tokenEndpoint ?n = tokenEndpoint ?s"
    by simp_all
  have e: "hd_ExpiresAt (snapshot ?s) = expiresAt ?s" by (simp add: snapshot_def)
  show "ordinary_time t \<and> 0 < lh_ExpiresIn ?h \<longrightarrow> hasExpiry ?n \<and> expiresAt ?n \<le> expiresAt ?s + (t - now w)
    \<and> (expiresAt ?s - now w < 2 ^ 63 - 1 \<longrightarrow> expiresAt ?s + (t - now w) < expiresAt ?n + 2 * second)"
    using remaining_bounds [where d = "snapshot ?s" and ?t0.0 = "now w" and t = t] by (auto simp: moved_def e)
qed

theorem takeover_keeps_session_witness:
  "\<exists>h srv'. attemptHandoff (daemon (Refresh demo_env) (Now demo_env)) (\<lambda>sw. Now demo_env (snd sw)) ''abc'' (demo_host, stub_world 0)
      = (Inr (takeoverAcquired h), (srv', stub_world 0)) \<and> refreshToken (srv_Session srv') = ''''"
proof -
  have "movable (srv_Session demo_host)" "state (srv_Session demo_host) = StateReady" "secretEqual ''abc'' (srv_Secret demo_host)"
    unfolding demo_host_simps by (rule demo_movable refl secretEqual_abc)+
  from takeover_keeps_session [OF demo_good_secret this(3,1,2), of "Refresh demo_env" "Now demo_env" "stub_world 0"] show ?thesis
    by blast
qed

subsection \<open>The decision\<close>

text \<open>
  A machine whose socket may have a daemon behind it: the daemon is a part of the state of the network, and a call
  on a socket without one is refused.
\<close>

definition put_server :: "Server \<Rightarrow> (Server option \<times> 'm) world \<Rightarrow> (Server option \<times> 'm) world" where
  "put_server srv w = w\<lparr>net := (Some srv, snd (net w))\<rparr>"

definition socket_call ::
  "(Server option \<times> 'm) world refresh_call \<Rightarrow> ((Server option \<times> 'm) world \<Rightarrow> gotime) \<Rightarrow> (Server option \<times> 'm) world unix_call"
where
  "socket_call refresh now rq w =
     (case fst (net w) of
        None \<Rightarrow> (DoErr ''connection refused'', w)
      | Some srv \<Rightarrow> (case daemon refresh now rq (srv, w) of (r, (srv', w')) \<Rightarrow> (r, put_server srv' w')))"

lemma put_server_self: "fst (net w) = Some srv \<Longrightarrow> put_server srv w = w"
  by (cases "net w") (simp add: put_server_def)

lemma socket_call_daemon:
  "fst (net w) = Some srv \<Longrightarrow> daemon refresh now rq (srv, w) = (r, (srv', w)) \<Longrightarrow> socket_call refresh now rq w = (r, put_server srv' w)"
  by (simp add: socket_call_def)

lemma socket_alive:
  "daemonAlive (socket_call refresh now) w = (fst (net w) \<noteq> None, w)"
proof (cases "fst (net w)")
  case None
  then show ?thesis by (simp add: daemonAlive_def socket_call_def)
next
  case (Some srv)
  let ?rq = "\<lparr>ar_Method = ''GET'', ar_Path = ''/health'', ar_Authorization = ''''\<rparr>"
  have "daemon refresh now ?rq (srv, w) = (DoReply 200 (rs_Body handleHealth) False, (srv, w))"
    by (simp add: daemon_def header_ok_def handle_def route_of_def reply_only_def handleHealth_def writeJSON_def)
  from socket_call_daemon [OF Some this] put_server_self [OF Some] Some show ?thesis
    by (simp add: daemonAlive_def)
qed

text \<open>The answer of the socket to an attempted takeover.\<close>

lemma attemptHandoff_socket:
  assumes "fst (net w) = Some srv" "good_secret sec" "movable (srv_Session srv)"
  shows "attemptHandoff (socket_call refresh now) clk sec w =
    (if \<not> secretEqual sec (srv_Secret srv) then (Inl WrongSecret, w)
     else
       (case state (srv_Session srv) of
          StateReady \<Rightarrow>
            (let w' = put_server (srv\<lparr>srv_Session := wipe StateHandedOff ''handed_off'' (srv_Session srv)\<rparr>) w
             in (Inr (takeoverAcquired (moved (srv_Session srv) (clk w'))), w'))
        | StateHandedOff \<Rightarrow> (Inl (TakeoverInProgress ''handed_off''), w)
        | _ \<Rightarrow> (Inr takeoverDeadSession, w)))"
proof (cases "secretEqual sec (srv_Secret srv)")
  case False
  from attemptHandoff_reply(2) [where call = "socket_call refresh now", OF socket_call_daemon [OF assms(1) daemon_refuses [OF assms(2) False]]] False
  show ?thesis by (simp add: put_server_self [OF assms(1)])
next
  case True
  show ?thesis
  proof (cases "state (srv_Session srv) = StateReady")
    case ready: True
    from attemptHandoff_reply(1) [where call = "socket_call refresh now", OF socket_call_daemon [OF assms(1) daemon_handoff(1) [OF assms(2) True ready]]
        parse_moved [OF assms(3) ready]] True ready
    show ?thesis by (simp add: Let_def)
  next
    case False
    from attemptHandoff_reply(3) [where call = "socket_call refresh now", OF socket_call_daemon [OF assms(1) daemon_handoff(2) [OF assms(2) True False]]
        conflict_state_written [OF state_string_ascii(2) state_string_ascii(1)]] True False
    show ?thesis by (cases "state (srv_Session srv)") (simp_all add: put_server_self [OF assms(1)])
  qed
qed

text \<open>
  Property C33. What \<open>serve\<close> decides, for every state of the socket and of the daemon behind it. A secret of the
  operator under 16 bytes is refused before anything is touched. Nobody there: a login, with a random secret if
  there is none. A daemon, and no secret or the wrong one: an error, and the daemon is as it was. With the
  secret: a ready session is taken over whole and drained; a dead one is to be replaced after a login; one that
  is being handed over is left alone with an error.
\<close>

theorem serve_plan_spec:
  assumes "ho_call ho p = socket_call refresh now" "header_ok sec" "sec = trim_space (getenv e EnvSecret)"
    and "\<And>srv. fst (net w) = Some srv \<Longrightarrow> movable (srv_Session srv)"
  shows "serve_plan ho p e w =
    (if sec \<noteq> '''' \<and> length sec < 16 then (Inl (ShortSecret (length sec)), w)
     else
       (case fst (net w) of
          None \<Rightarrow>
            if sec \<noteq> '''' then (Inr (PlanLogin sec False False), w)
            else (case ho_random ho w of
                    (None, w') \<Rightarrow> (Inl RandomFailed, w')
                  | (Some b, w') \<Rightarrow> (Inr (PlanLogin (hex_encode b) True False), w'))
        | Some srv \<Rightarrow>
            if sec = '''' then (Inl (SecretNotSet p), w)
            else if \<not> secretEqual sec (srv_Secret srv) then (Inl (TakeoverErr WrongSecret), w)
            else
              (case state (srv_Session srv) of
                 StateReady \<Rightarrow>
                   (let w' = put_server (srv\<lparr>srv_Session := wipe StateHandedOff ''handed_off'' (srv_Session srv)\<rparr>) w
                    in (Inr (PlanTakeover ((moved (srv_Session srv) (Now (ho_env ho) w'))\<lparr>lh_Secret := sec\<rparr>) sec), w'))
               | StateHandedOff \<Rightarrow> (Inl (TakeoverErr (TakeoverInProgress ''handed_off'')), w)
               | _ \<Rightarrow> (Inr (PlanLogin sec False True), w))))"
proof (cases "fst (net w)")
  case None
  then show ?thesis
    by (simp add: serve_plan_def assms(1,3) socket_alive randomSecret_def minOperatorSecretLen_def split: prod.split option.split)
next
  case (Some srv)
  have "attemptHandoff (ho_call ho p) (Now (ho_env ho)) sec w =
    (if \<not> secretEqual sec (srv_Secret srv) then (Inl WrongSecret, w)
     else
       (case state (srv_Session srv) of
          StateReady \<Rightarrow>
            (let w' = put_server (srv\<lparr>srv_Session := wipe StateHandedOff ''handed_off'' (srv_Session srv)\<rparr>) w
             in (Inr (takeoverAcquired (moved (srv_Session srv) (Now (ho_env ho) w'))), w'))
        | StateHandedOff \<Rightarrow> (Inl (TakeoverInProgress ''handed_off''), w)
        | _ \<Rightarrow> (Inr takeoverDeadSession, w)))" if "sec \<noteq> ''''"
    unfolding assms(1)
    by (rule attemptHandoff_socket [OF Some]) (use assms(2-4) Some that in \<open>simp_all add: good_secret_def trim_space_idem\<close>)
  moreover have "daemonAlive (ho_call ho p) w = (True, w)" unfolding assms(1) socket_alive using Some by simp
  ultimately show ?thesis
    unfolding serve_plan_def assms(3) [symmetric] Let_def
    by (cases "state (srv_Session srv)") (simp_all add: Some minOperatorSecretLen_def)
qed

text \<open>A machine with the demonstration daemon behind its socket and nothing else.\<close>

definition socket_env :: "(Server option \<times> nat) env" where
  "socket_env =
     \<lparr>roundtrip = (\<lambda>rq n. (TransportError, n)), clock = int \<circ> snd, ctx_Err = (\<lambda>_. None),
      sleepCtx = (\<lambda>d n. (None, n)), goos = ''linux'', start_cmd = (\<lambda>argv n. (True, n))\<rparr>"

definition socket_host :: "(Server option \<times> nat) host" where
  "socket_host =
     \<lparr>ho_env = socket_env, ho_call = (\<lambda>p. socket_call (Refresh socket_env) (Now socket_env)),
      ho_sleep = (\<lambda>d w. w), ho_pause = (\<lambda>D w. (True, w)), ho_random = (\<lambda>w. (Some ''0123456789abcdef'', w)),
      ho_listen = (\<lambda>p w. (Inl BindFailed, w)), ho_serve = (\<lambda>c srv w. (ServerClosed, w)), ho_shutdown = (\<lambda>d w. w),
      ho_unlink = (\<lambda>p w. w), ho_prepare = (\<lambda>w. (None, w)), ho_start = (\<lambda>argv env w. (None, w)),
      ho_write = (\<lambda>s w. (False, w)), ho_close = (\<lambda>w. (False, w)), ho_kill = (\<lambda>pid w. w)\<rparr>"

definition socket_world :: "(Server option \<times> nat) world" where
  "socket_world = \<lparr>net = (Some (demo_host\<lparr>srv_Secret := ''sixteen-byte-key''\<rparr>), 0), sent = [], slept = [], spawned = []\<rparr>"

lemma secretEqual_sixteen: "secretEqual ''sixteen-byte-key'' ''sixteen-byte-key''"
  using Sum256_sixteen by (simp add: secretEqual_iff)

theorem serve_plan_spec_witness:
  "\<exists>h w'. serve_plan socket_host ''/run/x/d.sock'' [EnvSecret \<mapsto> '' sixteen-byte-key ''] socket_world
     = (Inr (PlanTakeover h ''sixteen-byte-key''), w') \<and> lh_RefreshToken h = ''rt'' \<and> lh_Secret h = ''sixteen-byte-key''"
proof -
  have t: "''sixteen-byte-key'' = trim_space (getenv [EnvSecret \<mapsto> '' sixteen-byte-key ''] EnvSecret)"
    by (simp add: getenv_def string_eval)
  have h: "header_ok ''sixteen-byte-key''" by (simp add: header_ok_def byte_def)
  have c: "ho_call socket_host p = socket_call (Refresh socket_env) (Now socket_env)" for p by (simp add: socket_host_def)
  have m: "movable (srv_Session srv)" if "fst (net socket_world) = Some srv" for srv
    using that demo_movable by (auto simp: socket_world_def demo_server_def)
  have n: "net socket_world = (Some (demo_host\<lparr>srv_Secret := ''sixteen-byte-key''\<rparr>), 0)" by (simp add: socket_world_def)
  from serve_plan_spec [where ho = socket_host and p = "''/run/x/d.sock''" and w = socket_world, OF c h t m] secretEqual_sixteen
  show ?thesis by (simp add: n demo_server_def demo_session_def moved_def Let_def)
qed

lemma length_hex_encode: "length (hex_encode b) = 2 * length b"
  by (induction b) (simp_all add: hex_encode_def)

subsection \<open>What is left behind\<close>

lemma waitDaemonReady_env: "waitDaemonReady fuel ho p sec d e w = Some (r, e', w') \<Longrightarrow> e' = e"
  by (auto simp: waitDaemonReady_def withSecretEnv_def split: if_splits sum.splits option.splits prod.splits)

lemma spawn_env: "spawnBackgroundDaemon fuel ho el p oh e w = Some (r, e', w') \<Longrightarrow> e' = e"
  by (auto simp: spawnBackgroundDaemon_def dest: waitDaemonReady_env
      split: if_splits option.splits prod.splits bool.splits)

lemma zeroHandoff_empty: "zeroHandoff (Some h) = Some empty_loginHandoff"
  by (simp add: zeroHandoff_def empty_loginHandoff_def)

text \<open>No credentials in the variable, or, in a child that could not decode its input, what \<^verbatim>\<open>Decode\<close> had stored.\<close>

definition handoff_gone :: "string \<Rightarrow> serve_err option \<Rightarrow> moment \<times> loginHandoff option \<Rightarrow> bool" where
  "handoff_gone stdin err entry =
     (case entry of (m, hv) \<Rightarrow>
        m = Spawning \<or> hv = None \<or> hv = Some empty_loginHandoff
        \<or> m = Returning \<and> err = Some ReadHandoff
          \<and> hv = Some (fst (json_decode loginHandoff_fields (limit_body stdin) empty_loginHandoff)))"

definition left_clean :: "string \<Rightarrow> environ \<Rightarrow> 'n served_end \<Rightarrow> bool" where
  "left_clean stdin e r \<longleftrightarrow>
     se_Environ r = e \<and> map fst (se_Held r) \<in> {[Returning], [Serving, Returning], [Spawning, Returning]}
     \<and> list_all (handoff_gone stdin (se_Error r)) (se_Held r)"

lemma left_clean_returning [simp]:
  "left_clean stdin e (returning err [] None printed e w)"
  "left_clean stdin e (returning err [] (zeroHandoff (Some h)) printed e w)"
  "left_clean stdin e (returning err [(Spawning, Some h)] (zeroHandoff (Some h')) printed e w)"
  by (simp_all add: left_clean_def returning_def handoff_gone_def zeroHandoff_empty)

lemma serving_clean: "serving fuel ho p sec sess (zeroHandoff (Some h)) printed e w = Some r \<Longrightarrow> left_clean stdin e r"
  by (auto simp: serving_def left_clean_def returning_def handoff_gone_def zeroHandoff_empty split: option.splits prod.splits)

lemma serve_go_clean: "serve_go fuel ho el fg p sec h printed e w = Some r \<Longrightarrow> left_clean stdin e r"
  by (auto simp: serve_go_def Let_def dest: spawn_env serving_clean split: if_splits sum.splits option.splits prod.splits)

lemma child_clean:
  "sessionFromHandoff_vars stdin t = (Inl err, hv) \<Longrightarrow> left_clean stdin e (returning (Some err) [] hv printed e w)"
  "sessionFromHandoff_vars stdin t = (Inr (sess, sec), hv) \<Longrightarrow> \<exists>h. hv = zeroHandoff (Some h)"
  by (auto simp: sessionFromHandoff_vars_def Let_def left_clean_def returning_def handoff_gone_def zeroHandoff_empty
      split: prod.splits sum.splits if_splits)

text \<open>
  Property C34. The command drops the handoff before it goes on. In the foreground and in the background child the
  variable is zeroed before \<open>runServer\<close> is entered, so that a process that serves holds credentials in its session
  only; in the parent it holds them just while the child is started; and however the command returns it is zeroed or
  was never set, with one exception: a child whose input \<^verbatim>\<open>Decode\<close> rejects returns with the fields stored until
  then. The environment is the one the command was started in, although the secret was put there for a while.
\<close>

theorem cmdServe_leaves_nothing:
  "case cmdServe fuel ho el stdin args e w of
     None \<Rightarrow> True
   | Some r \<Rightarrow> se_Environ r = e
       \<and> map fst (se_Held r) \<in> {[Returning], [Serving, Returning], [Spawning, Returning]}
       \<and> list_all (\<lambda>(m, hv). m = Spawning \<or> hv = None \<or> hv = Some empty_loginHandoff
            \<or> m = Returning \<and> se_Error r = Some ReadHandoff
              \<and> hv = Some (fst (json_decode loginHandoff_fields (limit_body stdin) empty_loginHandoff))) (se_Held r)"
proof (cases "cmdServe fuel ho el stdin args e w")
  case (Some r)
  have child: "left_clean stdin e r'"
    if "sessionFromHandoff_vars stdin t = (Inr (sess, sec), hv)" "serving fuel ho p sec sess hv [] e w = Some r'" for t sess sec hv p r'
    using child_clean(2) [OF that(1)] that(2) serving_clean by blast
  from Some have "left_clean stdin e r"
    by (auto simp: cmdServe_def Let_def dest: serve_go_clean child child_clean(1)
        split: if_splits sum.splits option.splits prod.splits plan.splits)
  then have "list_all (handoff_gone stdin (se_Error r)) (se_Held r)" by (simp add: left_clean_def)
  then have "list_all (\<lambda>(m, hv). m = Spawning \<or> hv = None \<or> hv = Some empty_loginHandoff
      \<or> m = Returning \<and> se_Error r = Some ReadHandoff
        \<and> hv = Some (fst (json_decode loginHandoff_fields (limit_body stdin) empty_loginHandoff))) (se_Held r)"
    by (auto simp: list_all_iff handoff_gone_def)
  with Some \<open>left_clean stdin e r\<close> show ?thesis by (simp add: left_clean_def)
qed simp

subsection \<open>The background process\<close>

text \<open>The value of a variable in a list of \<open>K=V\<close> entries, as the child will see it.\<close>

definition env_lookup :: "string \<Rightarrow> string list \<Rightarrow> string option" where
  "env_lookup k es = map_option (drop (Suc (length k))) (find (\<lambda>kv. has_prefix kv (k @ ''='')) es)"

lemma prefix_keys: "prefix (k @ ''='') kv \<Longrightarrow> prefix (k' @ ''='') kv \<Longrightarrow> CHR ''='' \<notin> set k \<Longrightarrow> CHR ''='' \<notin> set k' \<Longrightarrow> k = k'"
proof (induction k arbitrary: k' kv)
  case Nil
  then show ?case by (cases k') (auto simp: prefix_def)
next
  case (Cons c k)
  then show ?case by (cases k') (auto simp: prefix_def)
qed

lemma find_filter: "(\<And>x. test x \<Longrightarrow> keep x) \<Longrightarrow> find test (filter keep xs) = find test xs"
  by (induction xs) auto

text \<open>
  The child gets the environment of the parent without the secret. Of every entry for
  \<^verbatim>\<open>XAI_OAUTH_SECRET\<close> nothing remains; every other variable has the value it had.
\<close>

theorem daemonEnv_spec:
  assumes "CHR ''='' \<notin> set k"
  shows "env_lookup k (daemonEnv es) = (if k = EnvSecret then None else env_lookup k es)"
proof (cases "k = EnvSecret")
  case True
  have "find (\<lambda>kv. has_prefix kv (EnvSecret @ ''='')) (daemonEnv es) = None"
    by (simp add: daemonEnv_def find_None_iff)
  with True show ?thesis by (simp add: env_lookup_def)
next
  case False
  have "CHR ''='' \<notin> set EnvSecret" by (simp add: EnvSecret_def)
  then have "has_prefix kv (k @ ''='') \<Longrightarrow> \<not> has_prefix kv (EnvSecret @ ''='')" for kv
    using prefix_keys [of k kv EnvSecret] assms False by (auto simp: has_prefix_def)
  then show ?thesis
    unfolding env_lookup_def daemonEnv_def by (subst find_filter) (use False in auto)
qed

theorem daemonEnv_spec_witness:
  "env_lookup ''PATH'' (daemonEnv [''XAI_OAUTH_SECRET=s3cret'', ''PATH=/bin'', ''XAI_OAUTH_SECRET=again'']) = Some ''/bin''"
  by (subst daemonEnv_spec) (simp_all add: EnvSecret_def env_lookup_def has_prefix_def)

text \<open>
  The child understands its command line. The arguments of the background process, read by the same
  flag parser, select the handoff on the standard input and exactly the socket of the parent,
  whatever characters its path has, and no other flag.
\<close>

theorem spawn_argv_roundtrip:
  assumes "trim_space p \<noteq> ''''"
  shows "hd (spawn_argv p) = ''serve'' \<and> parse_serve_args env (tl (spawn_argv p)) =
    Inr \<lparr>sf_socket = trim_space p, sf_no_browser = False, sf_foreground = False, sf_from_login = True\<rparr>"
  using assms
  by (simp add: spawn_argv_def parse_serve_args_def serve_flag_set_def flag_body_def split_flag_def flag_name_def parse_bool_def)

theorem spawn_argv_roundtrip_witness:
  "parse_serve_args (\<lambda>_. '''') (tl (spawn_argv ''--help'')) =
    Inr \<lparr>sf_socket = ''--help'', sf_no_browser = False, sf_foreground = False, sf_from_login = True\<rparr>"
  using spawn_argv_roundtrip [of "''--help''" "\<lambda>_. ''''"] by (simp add: string_eval)

lemma deviceLoginHandoff_ok:
  assumes "DeviceLogin fuel env browser w = Some (Inr lr, printed, w')"
  shows "deviceLoginHandoff fuel env browser w = Some (Inr \<lparr>lh_Secret = '''', lh_AccessToken = AccessToken (Tokens lr),
      lh_RefreshToken = RefreshToken (Tokens lr), lh_TokenEndpoint = TokenEndpoint (lr_Discovery lr),
      lh_ExpiresIn = ExpiresIn (Tokens lr)\<rparr>, printed, w')"
  using DeviceLogin_ok [OF assms] usable_nonempty [of "Tokens lr"]
    pinned_url_iff [of "TokenEndpoint (lr_Discovery lr)" "''token_endpoint''"]
  by (simp add: deviceLoginHandoff_def assms Let_def)

text \<open>
  A login that succeeded is not lost on the way to the daemon. The checks \<open>serve\<close> makes on the
  result of \<open>DeviceLogin\<close> never fail, and the handoff always becomes a ready session with the tokens
  of the login; the only errors are those of the login itself.
\<close>

theorem deviceLoginHandoff_spec:
  "case deviceLoginHandoff fuel env browser w of
     None \<Rightarrow> DeviceLogin fuel env browser w = None
   | Some (Inl err, printed, w') \<Rightarrow> (\<exists>e. err = LoginErr e \<and> DeviceLogin fuel env browser w = Some (Inl e, printed, w'))
   | Some (Inr h, printed, w') \<Rightarrow>
       (\<exists>lr. DeviceLogin fuel env browser w = Some (Inr lr, printed, w')
         \<and> lh_AccessToken h = AccessToken (Tokens lr) \<and> lh_RefreshToken h = RefreshToken (Tokens lr)
         \<and> (\<forall>sec t. \<exists>s. NewFromLogin (Some (handoffToLoginResult (h\<lparr>lh_Secret := sec\<rparr>))) t = Inr s
              \<and> session_inv s \<and> accessToken s = lh_AccessToken h \<and> refreshToken s = lh_RefreshToken h))"
proof (cases "DeviceLogin fuel env browser w")
  case None
  then show ?thesis by (simp add: deviceLoginHandoff_def)
next
  case (Some x)
  then obtain r printed w' where x: "DeviceLogin fuel env browser w = Some (r, printed, w')" by (cases x) auto
  show ?thesis
  proof (cases r)
    case (Inl e)
    with x show ?thesis by (simp add: deviceLoginHandoff_def)
  next
    case (Inr lr)
    note ok = DeviceLogin_ok [OF x [unfolded Inr]]
    then have "AccessToken (Tokens lr) \<noteq> ''''" "RefreshToken (Tokens lr) \<noteq> ''''" using usable_nonempty by blast+
    with ok have "\<exists>s. NewFromLogin (Some (handoffToLoginResult
         \<lparr>lh_Secret = sec, lh_AccessToken = AccessToken (Tokens lr), lh_RefreshToken = RefreshToken (Tokens lr),
          lh_TokenEndpoint = TokenEndpoint (lr_Discovery lr), lh_ExpiresIn = ExpiresIn (Tokens lr)\<rparr>)) t = Inr s
        \<and> session_inv s \<and> accessToken s = AccessToken (Tokens lr) \<and> refreshToken s = RefreshToken (Tokens lr)" for sec t
      by (simp add: NewFromLogin_handoff session_inv_def)
    with x Inr show ?thesis by (simp add: deviceLoginHandoff_ok [OF x [unfolded Inr]])
  qed
qed

subsection \<open>The command ends\<close>

text \<open>
  What is assumed of the time: no call turns the clock back, a sleep lasts at least as long as it was
  asked to, and the pause of \<open>WaitReady\<close> ends with the context once its deadline is reached.
\<close>

definition good_host :: "'n host \<Rightarrow> bool" where
  "good_host ho \<longleftrightarrow>
     good_clock (ho_env ho)
     \<and> (\<forall>p rq w. Now (ho_env ho) w \<le> Now (ho_env ho) (snd (ho_call ho p rq w)))
     \<and> (\<forall>d w. 0 \<le> d \<longrightarrow> Now (ho_env ho) w + d \<le> Now (ho_env ho) (ho_sleep ho d w))
     \<and> (\<forall>p w. Now (ho_env ho) w \<le> Now (ho_env ho) (snd (ho_listen ho p w)))
     \<and> (\<forall>D w w'. ho_pause ho D w = (False, w') \<longrightarrow>
          Now (ho_env ho) w < D \<and> Now (ho_env ho) w + pause_step \<le> Now (ho_env ho) w')"

lemma good_hostD:
  assumes "good_host ho"
  shows "good_clock (ho_env ho)" "0 \<le> Now (ho_env ho) w" "ticking (Now (ho_env ho)) (ho_sleep ho)"
    "ticking.advances (Now (ho_env ho)) (ho_call ho p rq)" "ticking.advances (Now (ho_env ho)) (daemonAlive (ho_call ho p))"
    "ticking.advances (Now (ho_env ho)) (ho_listen ho p)"
proof -
  show t: "ticking (Now (ho_env ho)) (ho_sleep ho)"
    using assms by (intro ticking.intro) (simp add: good_host_def)
  show "good_clock (ho_env ho)" using assms by (simp add: good_host_def)
  then show "0 \<le> Now (ho_env ho) w" by (simp add: good_clock_def Now_def)
  show call: "ticking.advances (Now (ho_env ho)) (ho_call ho p rq)" for rq
    using assms by (simp add: ticking.advances_def [OF t] good_host_def)
  show "ticking.advances (Now (ho_env ho)) (ho_listen ho p)"
    using assms by (simp add: ticking.advances_def [OF t] good_host_def)
  show "ticking.advances (Now (ho_env ho)) (daemonAlive (ho_call ho p))"
    using ticking.advancesD [OF t call] unfolding ticking.advances_def [OF t]
    by (auto simp: daemonAlive_def split: prod.split do_result.split)
qed

text \<open>The pauses left before a deadline bound the rounds of \<open>WaitReady\<close>.\<close>

definition pauses_before :: "'n env \<Rightarrow> gotime \<Rightarrow> 'n world \<Rightarrow> nat" where
  "pauses_before env D w = (if Now env w < D then nat ((D - Now env w) div pause_step) + 1 else 0)"

lemma host_waiting:
  assumes "good_host ho"
  shows "waiting (client_Status (ho_call ho p) oc) (ho_pause ho D) (pauses_before (ho_env ho) D)"
proof
  fix w w' x
  assume x: "client_Status (ho_call ho p) oc w = (x, w')"
  have "Now (ho_env ho) w \<le> Now (ho_env ho) (snd (ho_call ho p rq w))" for rq
    using assms by (simp add: good_host_def)
  then have "Now (ho_env ho) w \<le> Now (ho_env ho) (snd (client_Status (ho_call ho p) oc w))"
    by (auto simp: client_Status_def doJSON_def split: option.split prod.split sum.split do_result.split) (metis snd_conv)+
  with x have "Now (ho_env ho) w \<le> Now (ho_env ho) w'" by simp
  then show "pauses_before (ho_env ho) D w' \<le> pauses_before (ho_env ho) D w"
    by (auto simp: pauses_before_def pause_step_def intro!: nat_mono zdiv_mono1)
next
  fix w w'
  assume "ho_pause ho D w = (False, w')"
  with assms have d: "Now (ho_env ho) w < D" "Now (ho_env ho) w + pause_step \<le> Now (ho_env ho) w'"
    by (simp_all add: good_host_def)
  then have "(D - Now (ho_env ho) w') div pause_step \<le> (D - Now (ho_env ho) w - pause_step) div pause_step"
    by (intro zdiv_mono1) (simp_all add: pause_step_def)
  also have "\<dots> = (D - Now (ho_env ho) w) div pause_step - 1"
    using div_mult_self1 [of pause_step "D - Now (ho_env ho) w" "- 1"] by (simp add: pause_step_def)
  finally show "pauses_before (ho_env ho) D w' < pauses_before (ho_env ho) D w"
    using d(1) zdiv_mono1 [of 0 "D - Now (ho_env ho) w" pause_step] by (auto simp: pauses_before_def pause_step_def)
qed

lemma poll_rounds_enough: "poll_rounds = 1801" "wait_rounds \<le> poll_rounds"
  by (simp_all add: poll_rounds_def wait_rounds_def MaxDeviceAuthWindow_def minute_def second_def)

lemma waitDaemonReady_returns:
  assumes "good_host ho"
  shows "\<exists>r. waitDaemonReady poll_rounds ho p sec (10 * second) e w = Some r"
proof -
  let ?D = "time_add (Now (ho_env ho) w) (10 * second)"
  have "?D \<le> Now (ho_env ho) w + 10 * second"
    using good_hostD(2) [OF assms] by (rule time_add_le) (simp add: in_i64_def second_def)
  then have "(?D - Now (ho_env ho) w) div pause_step \<le> (10 * second) div pause_step"
    by (intro zdiv_mono1) (simp_all add: pause_step_def)
  then have "pauses_before (ho_env ho) ?D w < poll_rounds"
    by (auto simp: pauses_before_def poll_rounds_enough pause_step_def second_def)
  from waiting.wait_returns [OF host_waiting [OF assms] this]
  have ready: "WaitReady poll_rounds (ho_call ho q) (ho_pause ho ?D) oc w = None \<longleftrightarrow> False" for q oc
    by (auto simp: WaitReady_def split: option.splits)
  show ?thesis
    unfolding waitDaemonReady_def withSecretEnv_def by (auto simp: ready split: sum.split option.split)
qed

lemma spawn_returns:
  assumes "good_host ho"
  shows "\<exists>r. spawnBackgroundDaemon poll_rounds ho el p oh e w = Some r"
proof -
  have ready: "waitDaemonReady poll_rounds ho p sec (10 * second) e w' = None \<longleftrightarrow> False" for sec w'
    using waitDaemonReady_returns [OF assms, of p sec e w'] by auto
  show ?thesis
    by (auto simp: ready spawnBackgroundDaemon_def split: option.split prod.split bool.split)
qed

lemma runServer_returns:
  assumes "good_host ho"
  shows "\<exists>r. runServer poll_rounds ho p sec sess w = Some r"
proof -
  note t = good_hostD [OF assms]
  have bound: "listenWithRetry poll_rounds (ho_listen ho p) (Now (ho_env ho)) (ho_sleep ho) (5 * second) w = None \<longleftrightarrow> False"
    using ticking.listenWithRetry_returns [OF t(3) t(6) t(2) poll_rounds_enough(2), of p w] by auto
  show ?thesis
    unfolding runServer_def by (auto simp: bound split: option.split prod.split sum.split serve_end.split)
qed

lemma serve_go_returns:
  assumes "good_host ho"
  shows "\<exists>r. serve_go poll_rounds ho el fg p sec h printed e w = Some r"
proof -
  have parts: "spawnBackgroundDaemon poll_rounds ho el p oh e w = None \<longleftrightarrow> False" "runServer poll_rounds ho p sec sess w = None \<longleftrightarrow> False"
    for oh sess
    using spawn_returns [OF assms, of el p oh e w] runServer_returns [OF assms, of p sec sess w] by auto
  show ?thesis
    by (auto simp: parts serve_go_def serving_def Let_def split: sum.split option.split prod.split)
qed

lemma DeviceLogin_returns:
  assumes "good_clock env"
  shows "\<exists>r. DeviceLogin poll_rounds env openBrowser w = Some r"
proof -
  have poll: "PollDeviceToken poll_rounds env ep dev i j w' = None \<longleftrightarrow> False" for ep dev i j w'
    using PollDeviceToken_total [OF assms] by simp
  show ?thesis
    by (auto simp: poll DeviceLogin_def split: prod.split sum.split option.split)
qed

text \<open>
  Property C24. \<open>serve\<close> never waits forever for others. Whatever the old daemon, the provider, the file system
  and the background process do, as long as time passes the command gets to an end: with 1801 rounds of
  fuel for each of its loops (the polling of the login, the two waits of a takeover, the wait for the
  background daemon) it has a result. In the foreground that end is the one of the HTTP server itself.
\<close>

theorem cmdServe_returns:
  assumes "good_host ho"
  shows "\<exists>r. cmdServe poll_rounds ho el stdin args e w = Some r"
proof -
  note t = good_hostD [OF assms]
  have parts [simp]: "serve_go poll_rounds ho el fg p sec h printed e w1 = None \<longleftrightarrow> False"
      "runServer poll_rounds ho p sec sess w1 = None \<longleftrightarrow> False" for fg p sec h printed sess w1
    using serve_go_returns [OF assms, of el fg p sec h printed e w1] runServer_returns [OF assms, of p sec sess w1] by auto
  have login [simp]: "deviceLoginHandoff poll_rounds (ho_env ho) b w1 = None \<longleftrightarrow> False" for b w1
    using DeviceLogin_returns [OF t(1), of b w1]
    by (auto simp: deviceLoginHandoff_def Let_def split: option.splits sum.splits)
  have old [simp]: "logoutOldDaemon poll_rounds (ho_call ho p) (Now (ho_env ho)) (ho_sleep ho) sec w1 = None \<longleftrightarrow> False" for p sec w1
    using ticking.logoutOldDaemon_returns [OF t(3) t(5) t(4) t(2) poll_rounds_enough(2)] by auto
  have "cmdServe poll_rounds ho el stdin args e w = None \<longleftrightarrow> False"
    unfolding cmdServe_def serving_def Let_def
    by (auto simp del: not_None_eq split: sum.split option.split prod.split plan.split)
  then show ?thesis by simp
qed

text \<open>A host where every call is refused and a sleep takes as long as it should.\<close>

definition lonely_host :: "nat host" where
  "lonely_host =
     \<lparr>ho_env = stub_env (\<lambda>_. TransportError), ho_call = (\<lambda>p rq w. (DoErr ''refused'', w)),
      ho_sleep = (\<lambda>d w. w\<lparr>net := net w + nat d\<rparr>), ho_pause = (\<lambda>D w. (True, w)), ho_random = (\<lambda>w. (Some ''0123456789abcdef'', w)),
      ho_listen = (\<lambda>p w. (Inl BindFailed, w)), ho_serve = (\<lambda>c srv w. (ServerClosed, w)), ho_shutdown = (\<lambda>d w. w),
      ho_unlink = (\<lambda>p w. w), ho_prepare = (\<lambda>w. (None, w)), ho_start = (\<lambda>argv env w. (None, w)),
      ho_write = (\<lambda>s w. (False, w)), ho_close = (\<lambda>w. (False, w)), ho_kill = (\<lambda>pid w. w)\<rparr>"

theorem cmdServe_returns_witness:
  "\<exists>r. cmdServe poll_rounds lonely_host [] '''' [] Map.empty (stub_world 0) = Some r"
proof (rule cmdServe_returns)
  have "good_clock (stub_env (\<lambda>_. TransportError))" by (rule good_clock_stub)
  then show "good_host lonely_host" by (simp add: good_host_def lonely_host_def Now_def)
qed

end
