(* ===== verification/Concurrency.thy ===== *)
theory Concurrency
  imports Typed
begin

text \<open>
  \<^verbatim>\<open>internal/session/session.go\<close> with many goroutines: the mutex \<^verbatim>\<open>mu\<close>, the mutex \<^verbatim>\<open>opMu\<close> that
  serializes refreshes with handoffs, and the \<^verbatim>\<open>singleflight\<close> that lets concurrent token requests
  share one refresh. Each goroutine serves one request (a token, a handoff with its delivery, or a
  logout) and has a program counter. A step of the system is one critical section of \<^verbatim>\<open>mu\<close> (a
  function of theory \<open>Session\<close>), one operation on \<^verbatim>\<open>opMu\<close> or on the map of the singleflight, or the
  return of the call to the identity provider with any result its contract allows, or a panic in it,
  which the singleflight recovers from. Clock readings are arbitrary.

  Two components of the state only observe: \<open>issued\<close> is the refresh token most recently received
  from the provider, \<open>delivered\<close> is the snapshot a successor process has received.
\<close>

subsection \<open>Goroutines\<close>

type_synonym tid = nat
type_synonym call_id = nat

datatype pc =
    Idle
  \<comment> \<open>\<open>GetAccessToken\<close> and the singleflight\<close>
  | GStart
  | GFlight
  | GWait call_id
  | GPublish call_id "go_err + string"
  | GDelete call_id "go_err + string"
  | GDone "go_err + string"
  \<comment> \<open>\<open>refreshIfNeeded\<close>, run by the leader of a call\<close>
  | RLock call_id
  | RCheck call_id
  | RNoToken call_id
  | RCall call_id string string
  | RGot call_id TokenResponse
  | RErr call_id go_err
  | RUnlock call_id "go_err + string"
  \<comment> \<open>\<open>Handoff\<close> and the delivery of the snapshot by the handler\<close>
  | HLock
  | HSnap
  | HUnlock "State + HandoffData"
  | HWrite HandoffData
  | HRestore HandoffData
  | HDone
  \<comment> \<open>\<open>Clear\<close>\<close>
  | CStart
  | CDone

record conf =
  sess :: Session
  opMu :: "tid option"
  sf_m :: "call_id option"
  sf_val :: "call_id \<Rightarrow> (go_err + string) option"
  sf_next :: call_id
  issued :: string
  delivered :: "HandoffData option"
  pcs :: "tid \<Rightarrow> pc"

definition goto :: "tid \<Rightarrow> pc \<Rightarrow> conf \<Rightarrow> conf" where
  "goto i q s = s\<lparr>pcs := (pcs s)(i := q)\<rparr>"

text \<open>What the singleflight makes of a panic of the function it runs; \<open>t\<close> is the text of the panic.\<close>

definition refresh_panic :: "string \<Rightarrow> go_err" where
  "refresh_panic t = Plain (''session refresh panic: '' @ t)"

inductive cstep :: "tid \<Rightarrow> conf \<Rightarrow> conf \<Rightarrow> bool" where
  start: "pcs s i = Idle \<Longrightarrow> q \<in> {GStart, HLock, CStart} \<Longrightarrow> cstep i s (goto i q s)"
| answer: "pcs s i = GStart \<Longrightarrow> check_token t (sess s) = Some r \<Longrightarrow> cstep i s (goto i (GDone r) s)"
| stale: "pcs s i = GStart \<Longrightarrow> check_token t (sess s) = None \<Longrightarrow> cstep i s (goto i GFlight s)"
| follow: "pcs s i = GFlight \<Longrightarrow> sf_m s = Some c \<Longrightarrow> cstep i s (goto i (GWait c) s)"
| lead: "pcs s i = GFlight \<Longrightarrow> sf_m s = None \<Longrightarrow>
    cstep i s (goto i (RLock (sf_next s)) (s\<lparr>sf_m := Some (sf_next s), sf_next := Suc (sf_next s)\<rparr>))"
| share: "pcs s i = GWait c \<Longrightarrow> sf_val s c = Some r \<Longrightarrow> cstep i s (goto i (GDone r) s)"
| r_lock: "pcs s i = RLock c \<Longrightarrow> opMu s = None \<Longrightarrow> cstep i s (goto i (RCheck c) (s\<lparr>opMu := Some i\<rparr>))"
| r_answer: "pcs s i = RCheck c \<Longrightarrow> check_token t (sess s) = Some r \<Longrightarrow> cstep i s (goto i (RUnlock c r) s)"
| r_missing: "pcs s i = RCheck c \<Longrightarrow> check_token t (sess s) = None \<Longrightarrow> refreshToken (sess s) = '''' \<Longrightarrow>
    cstep i s (goto i (RNoToken c) s)"
| r_call: "pcs s i = RCheck c \<Longrightarrow> check_token t (sess s) = None \<Longrightarrow> refreshToken (sess s) \<noteq> '''' \<Longrightarrow>
    cstep i s (goto i (RCall c (tokenEndpoint (sess s)) (refreshToken (sess s))) s)"
| r_no_token: "pcs s i = RNoToken c \<Longrightarrow>
    cstep i s (goto i (RUnlock c (Inl ErrReauthRequired)) (s\<lparr>sess := no_refresh_token ''missing_refresh'' (sess s)\<rparr>))"
| idp_ok: "pcs s i = RCall c ep rt \<Longrightarrow> usable tr \<Longrightarrow> typed_tokens tr \<Longrightarrow>
    cstep i s (goto i (RGot c tr) (s\<lparr>issued := RefreshToken tr\<rparr>))"
| idp_err: "pcs s i = RCall c ep rt \<Longrightarrow> refresh_err e \<Longrightarrow> cstep i s (goto i (RErr c e) s)"
| r_panic: "pcs s i = RCall c ep rt \<Longrightarrow>
    cstep i s (goto i (RUnlock c (Inl (refresh_panic t))) s)"
| r_commit: "pcs s i = RGot c tr \<Longrightarrow> ExpiresAtFromToken (AccessToken tr) (ExpiresIn tr) t = (exp, ok) \<Longrightarrow>
    commit_refresh tr exp ok (sess s) = (r, s') \<Longrightarrow> cstep i s (goto i (RUnlock c r) (s\<lparr>sess := s'\<rparr>))"
| r_fail: "pcs s i = RErr c e \<Longrightarrow> handleRefreshErr e t (sess s) = (r, s') \<Longrightarrow>
    cstep i s (goto i (RUnlock c r) (s\<lparr>sess := s'\<rparr>))"
| r_unlock: "pcs s i = RUnlock c r \<Longrightarrow> cstep i s (goto i (GPublish c r) (s\<lparr>opMu := None\<rparr>))"
| publish: "pcs s i = GPublish c r \<Longrightarrow> cstep i s (goto i (GDelete c r) (s\<lparr>sf_val := (sf_val s)(c \<mapsto> r)\<rparr>))"
| delete: "pcs s i = GDelete c r \<Longrightarrow> cstep i s (goto i (GDone r) (s\<lparr>sf_m := None\<rparr>))"
| h_lock: "pcs s i = HLock \<Longrightarrow> opMu s = None \<Longrightarrow> cstep i s (goto i HSnap (s\<lparr>opMu := Some i\<rparr>))"
| h_snap: "pcs s i = HSnap \<Longrightarrow> Handoff (sess s) = (x, s') \<Longrightarrow> cstep i s (goto i (HUnlock x) (s\<lparr>sess := s'\<rparr>))"
| h_refused: "pcs s i = HUnlock (Inl st) \<Longrightarrow> cstep i s (goto i HDone (s\<lparr>opMu := None\<rparr>))"
| h_unlock: "pcs s i = HUnlock (Inr d) \<Longrightarrow> cstep i s (goto i (HWrite d) (s\<lparr>opMu := None\<rparr>))"
| h_sent: "pcs s i = HWrite d \<Longrightarrow> cstep i s (goto i HDone (s\<lparr>delivered := Some d\<rparr>))"
| h_lost: "pcs s i = HWrite d \<Longrightarrow> cstep i s (goto i (HRestore d) s)"
| h_restore: "pcs s i = HRestore d \<Longrightarrow>
    cstep i s (goto i HDone (s\<lparr>sess := RestoreHandoff (Some d) (sess s)\<rparr>))"
| c_clear: "pcs s i = CStart \<Longrightarrow> cstep i s (goto i CDone (s\<lparr>sess := Clear (sess s)\<rparr>))"

text \<open>A process starts with a session from a login and no request.\<close>

definition cinit :: "conf \<Rightarrow> bool" where
  "cinit s \<longleftrightarrow>
     session_inv (sess s) \<and> typed_session (sess s) \<and> state (sess s) = StateReady \<and> refreshToken (sess s) = issued s
     \<and> opMu s = None \<and> sf_m s = None \<and> sf_val s = Map.empty \<and> delivered s = None \<and> pcs s = (\<lambda>_. Idle)"

subsection \<open>Reachable states\<close>

inductive reach :: "('s \<Rightarrow> bool) \<Rightarrow> ('t \<Rightarrow> 's \<Rightarrow> 's \<Rightarrow> bool) \<Rightarrow> 's \<Rightarrow> bool"
  for init step where
  init: "init s \<Longrightarrow> reach init step s"
| step: "reach init step s \<Longrightarrow> step i s s' \<Longrightarrow> reach init step s'"

locale inductive_invariant =
  fixes init :: "'s \<Rightarrow> bool" and step :: "'t \<Rightarrow> 's \<Rightarrow> 's \<Rightarrow> bool" and inv :: "'s \<Rightarrow> bool"
  assumes init_inv: "init s \<Longrightarrow> inv s"
    and step_inv: "inv s \<Longrightarrow> step i s s' \<Longrightarrow> inv s'"
begin

lemma always: "reach init step s \<Longrightarrow> inv s"
  by (induction rule: reach.induct) (auto intro: init_inv step_inv)

end

subsection \<open>The lock and the tokens\<close>

fun holds_opMu :: "pc \<Rightarrow> bool" where
  "holds_opMu (RCheck c) = True"
| "holds_opMu (RNoToken c) = True"
| "holds_opMu (RCall c ep rt) = True"
| "holds_opMu (RGot c tr) = True"
| "holds_opMu (RErr c e) = True"
| "holds_opMu (RUnlock c r) = True"
| "holds_opMu HSnap = True"
| "holds_opMu (HUnlock x) = True"
| "holds_opMu _ = False"

text \<open>Goroutines that have decided to refresh and not yet stored the outcome.\<close>

fun refreshing :: "pc \<Rightarrow> bool" where
  "refreshing (RNoToken c) = True"
| "refreshing (RCall c ep rt) = True"
| "refreshing (RGot c tr) = True"
| "refreshing (RErr c e) = True"
| "refreshing _ = False"

fun snapshot :: "pc \<Rightarrow> HandoffData option" where
  "snapshot (HUnlock (Inr d)) = Some d"
| "snapshot (HWrite d) = Some d"
| "snapshot (HRestore d) = Some d"
| "snapshot _ = None"

definition one_holder :: "conf \<Rightarrow> bool" where
  "one_holder s \<longleftrightarrow> (\<forall>i. holds_opMu (pcs s i) \<longleftrightarrow> opMu s = Some i)"

text \<open>What a goroutine in the middle of a refresh knows.\<close>

fun refresh_ok_at :: "conf \<Rightarrow> pc \<Rightarrow> bool" where
  "refresh_ok_at s (RCall c ep rt) \<longleftrightarrow> rt = issued s"
| "refresh_ok_at s (RGot c tr) \<longleftrightarrow> RefreshToken tr = issued s \<and> usable tr"
| "refresh_ok_at s (RErr c e) \<longleftrightarrow> refresh_err e"
| "refresh_ok_at s (RNoToken c) \<longleftrightarrow> False"
| "refresh_ok_at s _ \<longleftrightarrow> True"

text \<open>A session that is ready holds the last issued refresh token, unless a newer one is just
  being stored.\<close>

definition current_token :: "conf \<Rightarrow> bool" where
  "current_token s \<longleftrightarrow>
     (state (sess s) = StateReady \<and> (\<forall>i c tr. pcs s i \<noteq> RGot c tr) \<longrightarrow> refreshToken (sess s) = issued s)"

text \<open>While a snapshot is out nobody refreshes, it is the only one and holds the last issued token.\<close>

definition snapshots_ok :: "conf \<Rightarrow> bool" where
  "snapshots_ok s \<longleftrightarrow>
     (\<forall>i d. snapshot (pcs s i) = Some d \<longrightarrow>
        state (sess s) \<noteq> StateReady \<and> delivered s = None \<and> handoff_ok d \<and> hd_RefreshToken d = issued s
        \<and> (\<forall>j. \<not> refreshing (pcs s j)) \<and> (\<forall>j. j \<noteq> i \<longrightarrow> snapshot (pcs s j) = None))"

definition delivered_ok :: "conf \<Rightarrow> bool" where
  "delivered_ok s \<longleftrightarrow>
     (\<forall>d. delivered s = Some d \<longrightarrow>
        state (sess s) \<noteq> StateReady \<and> hd_RefreshToken d = issued s
        \<and> (\<forall>j. \<not> refreshing (pcs s j)) \<and> (\<forall>j. snapshot (pcs s j) = None))"

definition token_inv :: "conf \<Rightarrow> bool" where
  "token_inv s \<longleftrightarrow>
     session_inv (sess s) \<and> one_holder s \<and> (\<forall>i. refresh_ok_at s (pcs s i)) \<and> current_token s
     \<and> (\<forall>i. refreshing (pcs s i) \<longrightarrow> state (sess s) \<noteq> StateHandedOff)
     \<and> snapshots_ok s \<and> delivered_ok s"

lemma goto_simps [simp]:
  "pcs (goto i q s) = (pcs s)(i := q)" "sess (goto i q s) = sess s" "opMu (goto i q s) = opMu s"
  "sf_m (goto i q s) = sf_m s" "sf_val (goto i q s) = sf_val s" "sf_next (goto i q s) = sf_next s"
  "issued (goto i q s) = issued s" "delivered (goto i q s) = delivered s"
  by (simp_all add: goto_def)

lemma check_token_None_ready: "check_token t s = None \<Longrightarrow> state s = StateReady"
  by (auto simp: check_token_def split: option.splits)

lemma commit_effect:
  assumes "commit_refresh tr exp ok s = (r, s')" "session_inv s" "usable tr"
  shows "session_inv s'" "if state s = StateReady then state s' = StateReady \<and> refreshToken s' = RefreshToken tr else s' = s"
  using assms inv_commit [OF assms(2,3), of exp ok] session_invD(1) [OF assms(2)]
  by (auto simp: commit_refresh_def split: option.splits if_splits dest: state_error_ready)

lemma handleRefreshErr_effect:
  assumes "handleRefreshErr e t s = (r, s')" "session_inv s"
  shows "session_inv s'" "state s' = StateReady \<Longrightarrow> state s = StateReady \<and> refreshToken s' = refreshToken s"
    "state s' = StateHandedOff \<Longrightarrow> state s = StateHandedOff"
  using assms inv_handleRefreshErr [OF assms(2), of e t]
  by (auto simp: handleRefreshErr_def Let_def terminate_def split: if_splits)

lemma Handoff_effect:
  assumes "Handoff s = (x, s')" "session_inv s"
  shows "session_inv s'" "state s' \<noteq> StateReady"
    "case x of Inl st \<Rightarrow> s' = s | Inr d \<Rightarrow> state s = StateReady \<and> handoff_ok d \<and> hd_RefreshToken d = refreshToken s"
  using assms inv_Handoff [OF assms(2)] Handoff_ok [OF assms(2)]
  by (auto simp: Handoff_def wipe_def split: if_splits)

lemma Restore_effect:
  assumes "session_inv s" "handoff_ok d"
  shows "session_inv (RestoreHandoff (Some d) s)"
    "state s = StateHandedOff \<Longrightarrow> state (RestoreHandoff (Some d) s) = StateReady
       \<and> refreshToken (RestoreHandoff (Some d) s) = hd_RefreshToken d"
    "state s \<noteq> StateHandedOff \<Longrightarrow> RestoreHandoff (Some d) s = s"
  using assms inv_RestoreHandoff [OF assms(1), of "Some d"] by (auto simp: RestoreHandoff_def)

lemma Clear_effect: "session_inv (Clear s)" "state (Clear s) = StateReauthRequired"
  by (simp_all add: inv_Clear) (simp add: Clear_def wipe_def)

text \<open>A step moves one goroutine, and takes or releases the lock only as its counter says.\<close>

lemma cstep_frame: "cstep i s s' \<Longrightarrow> j \<noteq> i \<Longrightarrow> pcs s' j = pcs s j"
  by (erule cstep.cases) simp_all

lemma cstep_lock:
  "cstep i s s' \<Longrightarrow>
     opMu s' = opMu s \<and> holds_opMu (pcs s' i) = holds_opMu (pcs s i)
     \<or> opMu s = None \<and> opMu s' = Some i \<and> holds_opMu (pcs s' i)
     \<or> holds_opMu (pcs s i) \<and> opMu s' = None \<and> \<not> holds_opMu (pcs s' i)"
  by (erule cstep.cases) auto

lemma one_holder_step:
  assumes "one_holder s" "cstep i s s'"
  shows "one_holder s'"
  unfolding one_holder_def
proof
  fix j
  have old: "holds_opMu (pcs s k) \<longleftrightarrow> opMu s = Some k" for k
    using assms(1) by (simp add: one_holder_def)
  show "holds_opMu (pcs s' j) \<longleftrightarrow> opMu s' = Some j"
  proof (cases "j = i")
    case True
    with cstep_lock [OF assms(2)] old [of i] show ?thesis by auto
  next
    case False
    with cstep_lock [OF assms(2)] old [of i] old [of j] cstep_frame [OF assms(2) False] show ?thesis by auto
  qed
qed

text \<open>
  The steps, seen by what they do to the session and the tokens.
\<close>

lemma cstep_kinds:
  assumes "cstep i s s'"
  obtains (quiet) "sess s' = sess s" "issued s' = issued s" "delivered s' = delivered s"
      "refreshing (pcs s' i) \<longrightarrow> refreshing (pcs s i)" "snapshot (pcs s' i) = None \<or> snapshot (pcs s' i) = snapshot (pcs s i)"
      "refresh_ok_at s (pcs s i) \<longrightarrow> refresh_ok_at s' (pcs s' i)" "\<forall>c tr. pcs s i \<noteq> RGot c tr"
  | (call) c where "pcs s i = RCheck c" "state (sess s) = StateReady"
      "s' = goto i (if refreshToken (sess s) = '''' then RNoToken c
             else RCall c (tokenEndpoint (sess s)) (refreshToken (sess s))) s"
  | (no_token) c where "pcs s i = RNoToken c"
  | (got) c ep rt tr where "pcs s i = RCall c ep rt" "usable tr"
      "s' = goto i (RGot c tr) (s\<lparr>issued := RefreshToken tr\<rparr>)"
  | (commit) c tr exp ok r x where "pcs s i = RGot c tr" "commit_refresh tr exp ok (sess s) = (r, x)"
      "s' = goto i (RUnlock c r) (s\<lparr>sess := x\<rparr>)"
  | (fail) c e t r x where "pcs s i = RErr c e" "handleRefreshErr e t (sess s) = (r, x)"
      "s' = goto i (RUnlock c r) (s\<lparr>sess := x\<rparr>)"
  | (snap) x y where "pcs s i = HSnap" "Handoff (sess s) = (x, y)" "s' = goto i (HUnlock x) (s\<lparr>sess := y\<rparr>)"
  | (sent) d where "pcs s i = HWrite d" "s' = goto i HDone (s\<lparr>delivered := Some d\<rparr>)"
  | (restore) d where "pcs s i = HRestore d"
      "s' = goto i HDone (s\<lparr>sess := RestoreHandoff (Some d) (sess s)\<rparr>)"
  | (clear) "pcs s i = CStart" "s' = goto i CDone (s\<lparr>sess := Clear (sess s)\<rparr>)"
  using assms
proof (cases rule: cstep.cases)
  case start
  then show ?thesis by (intro quiet) auto
next
  case answer
  then show ?thesis by (intro quiet) auto
next
  case stale
  then show ?thesis by (intro quiet) auto
next
  case follow
  then show ?thesis by (intro quiet) auto
next
  case lead
  then show ?thesis by (intro quiet) auto
next
  case share
  then show ?thesis by (intro quiet) auto
next
  case r_lock
  then show ?thesis by (intro quiet) auto
next
  case r_answer
  then show ?thesis by (intro quiet) auto
next
  case r_missing
  then show ?thesis using check_token_None_ready by (intro call) auto
next
  case r_call
  then show ?thesis using check_token_None_ready by (intro call) auto
next
  case r_no_token
  then show ?thesis by (intro no_token)
next
  case idp_ok
  then show ?thesis by (intro got)
next
  case idp_err
  then show ?thesis by (intro quiet) auto
next
  case r_panic
  then show ?thesis by (intro quiet) auto
next
  case r_commit
  then show ?thesis by (intro commit)
next
  case r_fail
  then show ?thesis by (intro fail)
next
  case r_unlock
  then show ?thesis by (intro quiet) auto
next
  case publish
  then show ?thesis by (intro quiet) auto
next
  case delete
  then show ?thesis by (intro quiet) auto
next
  case h_lock
  then show ?thesis by (intro quiet) auto
next
  case h_snap
  then show ?thesis by (intro snap)
next
  case h_refused
  then show ?thesis by (intro quiet) auto
next
  case h_unlock
  then show ?thesis by (intro quiet) auto
next
  case h_sent
  then show ?thesis by (intro sent)
next
  case h_lost
  then show ?thesis by (intro quiet) auto
next
  case h_restore
  then show ?thesis by (intro restore)
next
  case c_clear
  then show ?thesis by (intro clear)
qed

subsection \<open>The invariant is kept\<close>

lemma refreshing_holds: "refreshing q \<Longrightarrow> holds_opMu q"
  by (cases q) auto

lemma refresh_ok_idle: "\<not> refreshing q \<Longrightarrow> refresh_ok_at s q"
  by (cases q) auto

lemma refresh_ok_cong: "issued s' = issued s \<Longrightarrow> refresh_ok_at s' q = refresh_ok_at s q"
  by (cases q) auto

lemma other_not_refreshing: "one_holder s \<Longrightarrow> holds_opMu (pcs s i) \<Longrightarrow> j \<noteq> i \<Longrightarrow> \<not> refreshing (pcs s j)"
  unfolding one_holder_def by (metis option.inject refreshing_holds)

text \<open>The parts of the invariant, and what they say when the lock is held.\<close>

lemma snapshots_okD:
  "snapshots_ok s \<Longrightarrow> snapshot (pcs s i) = Some d \<Longrightarrow>
     state (sess s) \<noteq> StateReady \<and> delivered s = None \<and> handoff_ok d \<and> hd_RefreshToken d = issued s
     \<and> \<not> refreshing (pcs s j) \<and> (j \<noteq> i \<longrightarrow> snapshot (pcs s j) = None)"
  unfolding snapshots_ok_def by blast

lemma delivered_okD:
  "delivered_ok s \<Longrightarrow> delivered s = Some d \<Longrightarrow>
     state (sess s) \<noteq> StateReady \<and> hd_RefreshToken d = issued s \<and> \<not> refreshing (pcs s j) \<and> snapshot (pcs s j) = None"
  unfolding delivered_ok_def by blast

lemma token_invD:
  assumes "token_inv s"
  shows "session_inv (sess s)" "one_holder s" "refresh_ok_at s (pcs s i)"
    "refreshing (pcs s i) \<Longrightarrow> state (sess s) \<noteq> StateHandedOff" "snapshots_ok s" "delivered_ok s"
    "state (sess s) = StateReady \<Longrightarrow> snapshot (pcs s i) = None \<and> delivered s = None"
    "refreshing (pcs s i) \<Longrightarrow> snapshot (pcs s j) = None \<and> delivered s = None"
    "snapshot (pcs s i) = Some d \<Longrightarrow> state (sess s) \<noteq> StateReady \<and> delivered s = None \<and> handoff_ok d
       \<and> hd_RefreshToken d = issued s \<and> \<not> refreshing (pcs s j) \<and> (j \<noteq> i \<longrightarrow> snapshot (pcs s j) = None)"
    "delivered s = Some d \<Longrightarrow> state (sess s) \<noteq> StateReady \<and> hd_RefreshToken d = issued s
       \<and> \<not> refreshing (pcs s j) \<and> snapshot (pcs s j) = None"
proof -
  show parts: "session_inv (sess s)" "one_holder s" "refresh_ok_at s (pcs s i)"
    "refreshing (pcs s i) \<Longrightarrow> state (sess s) \<noteq> StateHandedOff" "snapshots_ok s" "delivered_ok s"
    using assms unfolding token_inv_def by blast+
  note d = snapshots_okD [OF parts(5)] delivered_okD [OF parts(6)]
  show "state (sess s) = StateReady \<Longrightarrow> snapshot (pcs s i) = None \<and> delivered s = None"
    using d(1) [of i _ i] d(2) by (metis option.exhaust)
  show "refreshing (pcs s i) \<Longrightarrow> snapshot (pcs s j) = None \<and> delivered s = None"
    using d(1) [of j _ i] d(2) [of _ i] by (metis option.exhaust)
  show "snapshot (pcs s i) = Some d \<Longrightarrow> state (sess s) \<noteq> StateReady \<and> delivered s = None \<and> handoff_ok d
       \<and> hd_RefreshToken d = issued s \<and> \<not> refreshing (pcs s j) \<and> (j \<noteq> i \<longrightarrow> snapshot (pcs s j) = None)"
    by (rule d(1))
  show "delivered s = Some d \<Longrightarrow> state (sess s) \<noteq> StateReady \<and> hd_RefreshToken d = issued s
       \<and> \<not> refreshing (pcs s j) \<and> snapshot (pcs s j) = None"
    by (rule d(2))
qed

lemma token_inv_current:
  assumes "token_inv s" "state (sess s) = StateReady" "holds_opMu (pcs s i)" "\<forall>c tr. pcs s i \<noteq> RGot c tr"
  shows "refreshToken (sess s) = issued s"
proof -
  have "pcs s j \<noteq> RGot c tr" for j c tr
    using other_not_refreshing [OF token_invD(2) [OF assms(1)] assms(3), of j] assms(4)
    by (cases "j = i") auto
  with assms(1,2) show ?thesis by (auto simp: token_inv_def current_token_def)
qed

lemma step_session:
  assumes "token_inv s" "cstep i s s'"
  shows "session_inv (sess s')"
  using assms(2)
proof (cases rule: cstep_kinds)
  case (no_token c)
  with token_invD(3) [OF assms(1), of i] show ?thesis by simp
next
  case (commit c tr exp ok r x)
  with token_invD(1) [OF assms(1)] token_invD(3) [OF assms(1), of i] commit_effect(1) show ?thesis by simp
next
  case (restore d)
  with token_invD(1) [OF assms(1)] token_invD(9) [OF assms(1), of i d i] Restore_effect(1) show ?thesis by simp
qed (use token_invD(1) [OF assms(1)] handleRefreshErr_effect(1) Handoff_effect(1) Clear_effect(1) in auto)

lemma step_refresh_ok:
  assumes "token_inv s" "cstep i s s'"
  shows "refresh_ok_at s' (pcs s' j)"
proof (cases "j = i")
  case False
  have same: "refresh_ok_at s' (pcs s j)" if "issued s' = issued s"
    using token_invD(3) [OF assms(1), of j] refresh_ok_cong [OF that] by simp
  have idle: "refresh_ok_at s' (pcs s j)" if "holds_opMu (pcs s i)"
    using other_not_refreshing [OF token_invD(2) [OF assms(1)] that False] by (rule refresh_ok_idle)
  from assms(2) have "refresh_ok_at s' (pcs s j)"
    by (cases rule: cstep_kinds) (use same idle in auto)
  with cstep_frame [OF assms(2) False] show ?thesis by simp
next
  case True
  from assms(2) show ?thesis
  proof (cases rule: cstep_kinds)
    case quiet
    with True token_invD(3) [OF assms(1), of i] show ?thesis by simp
  next
    case (call c)
    then have "refreshToken (sess s) = issued s" "refreshToken (sess s) \<noteq> ''''"
      using token_inv_current [OF assms(1), of i] session_invD(1) [OF token_invD(1) [OF assms(1)]] by auto
    with call True show ?thesis by simp
  next
    case (no_token c)
    with token_invD(3) [OF assms(1), of i] show ?thesis by simp
  qed (use True in auto)
qed

lemma step_current:
  assumes "token_inv s" "cstep i s s'"
  shows "current_token s'"
  unfolding current_token_def
proof
  assume a: "state (sess s') = StateReady \<and> (\<forall>i c tr. pcs s' i \<noteq> RGot c tr)"
  have old: "refreshToken (sess s) = issued s" if "state (sess s) = StateReady" "\<forall>c tr. pcs s i \<noteq> RGot c tr"
  proof -
    have "pcs s j \<noteq> RGot c tr" for j c tr
      using a that(2) cstep_frame [OF assms(2), of j] by (cases "j = i") auto
    with assms(1) that(1) show ?thesis by (auto simp: token_inv_def current_token_def)
  qed
  from assms(2) show "refreshToken (sess s') = issued s'"
  proof (cases rule: cstep_kinds)
    case (no_token c)
    with token_invD(3) [OF assms(1), of i] show ?thesis by simp
  next
    case (got c ep rt tr)
    with a show ?thesis by (auto split: if_splits)
  next
    case (commit c tr exp ok r x)
    with commit_effect(2) [OF commit(2)] token_invD(1) [OF assms(1)] token_invD(3) [OF assms(1), of i] a show ?thesis
      by (simp split: if_splits)
  next
    case (fail c e t r x)
    with handleRefreshErr_effect(2) [OF fail(2) token_invD(1) [OF assms(1)]] a old show ?thesis by simp
  next
    case (snap x y)
    with Handoff_effect(2) [OF snap(2) token_invD(1) [OF assms(1)]] a show ?thesis by simp
  next
    case (restore d)
    with Restore_effect(2,3) [OF token_invD(1) [OF assms(1)], of d] token_invD(9) [OF assms(1), of i d i] a old
    show ?thesis by (cases "state (sess s) = StateHandedOff") auto
  next
    case clear
    with Clear_effect(2) a show ?thesis by simp
  qed (use a old in auto)
qed

lemma step_not_handed_off:
  assumes "token_inv s" "cstep i s s'" "refreshing (pcs s' j)"
  shows "state (sess s') \<noteq> StateHandedOff"
proof -
  note handed = token_invD(4) [OF assms(1)]
  have idle: False if "holds_opMu (pcs s i)" "\<not> refreshing (pcs s' i)"
    using other_not_refreshing [OF token_invD(2) [OF assms(1)] that(1), of j] that(2) assms(3)
      cstep_frame [OF assms(2), of j] by (cases "j = i") auto
  have keep: "refreshing (pcs s j)" if "refreshing (pcs s' i) \<longrightarrow> refreshing (pcs s i)"
    using assms(3) cstep_frame [OF assms(2), of j] that by (cases "j = i") auto
  from assms(2) show ?thesis
  proof (cases rule: cstep_kinds)
    case quiet
    with handed keep show ?thesis by metis
  next
    case (no_token c)
    with token_invD(3) [OF assms(1), of i] show ?thesis by simp
  next
    case (got c ep rt tr)
    with handed [of i] show ?thesis by simp
  next
    case (restore d)
    with token_invD(9) [OF assms(1), of i d j] keep show ?thesis by auto
  next
    case (sent d)
    with token_invD(9) [OF assms(1), of i d j] keep show ?thesis by auto
  next
    case clear
    with Clear_effect(2) show ?thesis by simp
  qed (use idle in auto)
qed

lemma step_snapshots:
  assumes "token_inv s" "cstep i s s'"
  shows "snapshots_ok s'"
  unfolding snapshots_ok_def
proof (intro allI impI)
  fix k d
  assume k: "snapshot (pcs s' k) = Some d"
  note frame = cstep_frame [OF assms(2)]
  note inv = token_invD [OF assms(1)]
  have mine: "snapshot (pcs s k) = Some d" if "snapshot (pcs s' i) = None \<or> snapshot (pcs s' i) = snapshot (pcs s i)"
    using k frame [of k] that by (cases "k = i") auto
  have none: False if "refreshing (pcs s i)" "snapshot (pcs s' i) = None"
    using inv(8) [OF that(1), of k] mine that(2) by simp
  let ?goal = "state (sess s') \<noteq> StateReady \<and> delivered s' = None \<and> handoff_ok d \<and> hd_RefreshToken d = issued s'
    \<and> (\<forall>j. \<not> refreshing (pcs s' j)) \<and> (\<forall>j. j \<noteq> k \<longrightarrow> snapshot (pcs s' j) = None)"
  have same: ?goal if "snapshot (pcs s' i) = None \<or> snapshot (pcs s' i) = snapshot (pcs s i)"
    "refreshing (pcs s' i) \<longrightarrow> refreshing (pcs s i)" "issued s' = issued s" "delivered s' = delivered s"
    "state (sess s') = StateReady \<longrightarrow> state (sess s) = StateReady"
  proof -
    note m = inv(9) [OF mine [OF that(1)]]
    have "\<not> refreshing (pcs s' j)" for j
      using m [of j] frame [of j] that(2) by (cases "j = i") auto
    moreover have "j \<noteq> k \<longrightarrow> snapshot (pcs s' j) = None" for j
      using m [of j] frame [of j] that(1) by (cases "j = i") auto
    ultimately show ?thesis using m that(3-5) by metis
  qed
  from assms(2) show ?goal
  proof (cases rule: cstep_kinds)
    case quiet
    with same show ?thesis by simp
  next
    case (call c)
    with mine inv(7) [of k] show ?thesis by (auto split: if_splits)
  next
    case (no_token c)
    with inv(3) [of i] show ?thesis by simp
  next
    case (snap x y)
    note h = Handoff_effect [OF snap(2) inv(1)]
    show ?thesis
    proof (cases x)
      case (Inl st)
      with snap h same show ?thesis by (simp split: if_splits)
    next
      case (Inr d')
      with h have ready: "state (sess s) = StateReady" and d': "handoff_ok d'" "hd_RefreshToken d' = refreshToken (sess s)"
        by auto
      have "k = i"
        using k inv(7) [OF ready, of k] frame [of k] by (cases "k = i") auto
      moreover have "d = d'"
        using k \<open>k = i\<close> snap(3) Inr by simp
      moreover have "refreshToken (sess s) = issued s"
        using token_inv_current [OF assms(1) ready, of i] snap(1) by simp
      moreover have "\<not> refreshing (pcs s' j)" for j
        using other_not_refreshing [OF inv(2), of i j] snap(1,3) by (cases "j = i") auto
      moreover have "j \<noteq> i \<longrightarrow> snapshot (pcs s' j) = None" for j
        using inv(7) [OF ready, of j] frame [of j] by auto
      ultimately show ?thesis
        using h(2) d' inv(7) [OF ready, of i] snap(3) by simp
    qed
  next
    case (sent d0)
    with k inv(9) [of i d0 k] show ?thesis by (auto split: if_splits)
  next
    case (restore d0)
    with k inv(9) [of i d0 k] show ?thesis by (auto split: if_splits)
  next
    case clear
    with same Clear_effect(2) show ?thesis by simp
  qed (use none in auto)
qed

lemma step_delivered:
  assumes "token_inv s" "cstep i s s'"
  shows "delivered_ok s'"
  unfolding delivered_ok_def
proof (intro allI impI)
  fix d
  assume d: "delivered s' = Some d"
  note frame = cstep_frame [OF assms(2)]
  note inv = token_invD [OF assms(1)]
  let ?goal = "state (sess s') \<noteq> StateReady \<and> hd_RefreshToken d = issued s'
    \<and> (\<forall>j. \<not> refreshing (pcs s' j)) \<and> (\<forall>j. snapshot (pcs s' j) = None)"
  have same: ?goal if "delivered s' = delivered s" "issued s' = issued s"
    "state (sess s') = StateReady \<longrightarrow> state (sess s) = StateReady"
    "snapshot (pcs s' i) = None \<or> snapshot (pcs s' i) = snapshot (pcs s i)"
    "refreshing (pcs s' i) \<longrightarrow> refreshing (pcs s i)"
  proof -
    have m: "state (sess s) \<noteq> StateReady \<and> hd_RefreshToken d = issued s \<and> \<not> refreshing (pcs s j)
        \<and> snapshot (pcs s j) = None" for j
      using inv(10) d that(1) by simp
    have "\<not> refreshing (pcs s' j) \<and> snapshot (pcs s' j) = None" for j
      using m [of j] frame [of j] that(4,5) by (cases "j = i") auto
    with m that(2,3) show ?thesis by metis
  qed
  from assms(2) show ?goal
  proof (cases rule: cstep_kinds)
    case quiet
    with same show ?thesis by simp
  next
    case (call c)
    with d inv(7) show ?thesis by auto
  next
    case (no_token c)
    with inv(3) [of i] show ?thesis by simp
  next
    case (snap x y)
    note h = Handoff_effect [OF snap(2) inv(1)]
    from snap(3) d inv(7) h have "x = Inl st \<Longrightarrow> ?goal" for st
      using same by (simp split: if_splits)
    moreover have "x \<noteq> Inr d'" for d'
      using h(3) inv(7) [of i] d snap(3) by auto
    ultimately show ?thesis by (cases x) auto
  next
    case (sent d0)
    note m = inv(9) [of i d0]
    have "\<not> refreshing (pcs s' j) \<and> snapshot (pcs s' j) = None" for j
      using m [of j] sent frame [of j] by (cases "j = i") auto
    with sent d m show ?thesis by simp
  next
    case (restore d0)
    with d inv(9) [of i d0 i] show ?thesis by simp
  next
    case clear
    with same Clear_effect(2) show ?thesis by simp
  qed (use d inv(8) [of i] in auto)
qed

lemma token_inv_step: "token_inv s \<Longrightarrow> cstep i s s' \<Longrightarrow> token_inv s'"
  unfolding token_inv_def [of s']
  using step_session step_refresh_ok step_current step_not_handed_off step_snapshots step_delivered
    one_holder_step [OF token_invD(2)] by (intro conjI allI impI)

lemma token_inv_init: "cinit s \<Longrightarrow> token_inv s"
  by (simp add: cinit_def token_inv_def one_holder_def current_token_def snapshots_ok_def delivered_ok_def)

interpretation tokens: inductive_invariant cinit cstep token_inv
  by unfold_locales (auto intro: token_inv_init token_inv_step)

subsection \<open>The singleflight\<close>

text \<open>The call a goroutine leads.\<close>

fun leads :: "pc \<Rightarrow> call_id option" where
  "leads (RLock c) = Some c"
| "leads (RCheck c) = Some c"
| "leads (RNoToken c) = Some c"
| "leads (RCall c ep rt) = Some c"
| "leads (RGot c tr) = Some c"
| "leads (RErr c e) = Some c"
| "leads (RUnlock c r) = Some c"
| "leads (GPublish c r) = Some c"
| "leads (GDelete c r) = Some c"
| "leads _ = None"

fun published :: "pc \<Rightarrow> (go_err + string) option" where
  "published (GDelete c r) = Some r"
| "published _ = None"

fun follows :: "pc \<Rightarrow> call_id option" where
  "follows (GWait c) = Some c"
| "follows _ = None"

definition flight_inv :: "conf \<Rightarrow> bool" where
  "flight_inv s \<longleftrightarrow>
     (\<forall>i c. leads (pcs s i) = Some c \<longrightarrow> sf_m s = Some c \<and> sf_val s c = published (pcs s i)
        \<and> (\<forall>j. j \<noteq> i \<longrightarrow> leads (pcs s j) = None))
     \<and> (\<forall>c. sf_m s = Some c \<longrightarrow> (\<exists>i. leads (pcs s i) = Some c))
     \<and> (\<forall>i c. follows (pcs s i) = Some c \<longrightarrow> sf_val s c \<noteq> None \<or> sf_m s = Some c)
     \<and> (\<forall>c. sf_val s c \<noteq> None \<or> sf_m s = Some c \<longrightarrow> c < sf_next s)"

lemma flight_invD:
  assumes "flight_inv s"
  shows "leads (pcs s i) = Some c \<Longrightarrow> sf_m s = Some c \<and> sf_val s c = published (pcs s i)"
    "leads (pcs s i) = Some c \<Longrightarrow> j \<noteq> i \<Longrightarrow> leads (pcs s j) = None"
    "sf_m s = Some c \<Longrightarrow> \<exists>i. leads (pcs s i) = Some c"
    "follows (pcs s i) = Some c \<Longrightarrow> sf_val s c \<noteq> None \<or> sf_m s = Some c"
    "sf_val s c \<noteq> None \<or> sf_m s = Some c \<Longrightarrow> c < sf_next s"
  using assms unfolding flight_inv_def by blast+

text \<open>The steps, seen by what they do to the calls.\<close>

lemma cstep_flight_kinds:
  assumes "cstep i s s'"
  obtains (quiet) "sf_m s' = sf_m s" "sf_val s' = sf_val s" "sf_next s' = sf_next s"
      "leads (pcs s' i) = leads (pcs s i)" "published (pcs s' i) = published (pcs s i)"
      "follows (pcs s' i) = None \<or> leads (pcs s i) = None \<and> sf_m s = follows (pcs s' i)"
  | (lead) "pcs s i = GFlight" "sf_m s = None"
      "s' = goto i (RLock (sf_next s)) (s\<lparr>sf_m := Some (sf_next s), sf_next := Suc (sf_next s)\<rparr>)"
  | (publish) c r where "pcs s i = GPublish c r" "s' = goto i (GDelete c r) (s\<lparr>sf_val := (sf_val s)(c \<mapsto> r)\<rparr>)"
  | (delete) c r where "pcs s i = GDelete c r" "s' = goto i (GDone r) (s\<lparr>sf_m := None\<rparr>)"
  using assms
proof (cases rule: cstep.cases)
  case start
  then show ?thesis by (intro quiet) auto
next
  case answer
  then show ?thesis by (intro quiet) auto
next
  case stale
  then show ?thesis by (intro quiet) auto
next
  case follow
  then show ?thesis by (intro quiet) auto
next
  case lead
  then show ?thesis by (intro that(2))
next
  case share
  then show ?thesis by (intro quiet) auto
next
  case r_lock
  then show ?thesis by (intro quiet) auto
next
  case r_answer
  then show ?thesis by (intro quiet) auto
next
  case r_missing
  then show ?thesis by (intro quiet) auto
next
  case r_call
  then show ?thesis by (intro quiet) auto
next
  case r_no_token
  then show ?thesis by (intro quiet) auto
next
  case idp_ok
  then show ?thesis by (intro quiet) auto
next
  case idp_err
  then show ?thesis by (intro quiet) auto
next
  case r_panic
  then show ?thesis by (intro quiet) auto
next
  case r_commit
  then show ?thesis by (intro quiet) auto
next
  case r_fail
  then show ?thesis by (intro quiet) auto
next
  case r_unlock
  then show ?thesis by (intro quiet) auto
next
  case publish
  then show ?thesis by (intro that(3))
next
  case delete
  then show ?thesis by (intro that(4))
next
  case h_lock
  then show ?thesis by (intro quiet) auto
next
  case h_snap
  then show ?thesis by (intro quiet) auto
next
  case h_refused
  then show ?thesis by (intro quiet) auto
next
  case h_unlock
  then show ?thesis by (intro quiet) auto
next
  case h_sent
  then show ?thesis by (intro quiet) auto
next
  case h_lost
  then show ?thesis by (intro quiet) auto
next
  case h_restore
  then show ?thesis by (intro quiet) auto
next
  case c_clear
  then show ?thesis by (intro quiet) auto
qed

lemma flight_invI:
  assumes "\<And>i c. leads (pcs s i) = Some c \<Longrightarrow> sf_m s = Some c \<and> sf_val s c = published (pcs s i)"
    "\<And>i j c. leads (pcs s i) = Some c \<Longrightarrow> j \<noteq> i \<Longrightarrow> leads (pcs s j) = None"
    "\<And>c. sf_m s = Some c \<Longrightarrow> \<exists>i. leads (pcs s i) = Some c"
    "\<And>i c. follows (pcs s i) = Some c \<Longrightarrow> sf_val s c = None \<Longrightarrow> sf_m s = Some c"
    "\<And>c. sf_val s c \<noteq> None \<or> sf_m s = Some c \<Longrightarrow> c < sf_next s"
  shows "flight_inv s"
  using assms unfolding flight_inv_def by blast

lemma flight_inv_step:
  assumes inv: "flight_inv s" and step: "cstep i s s'"
  shows "flight_inv s'"
proof -
  note d = flight_invD [OF inv] and frame = cstep_frame [OF step]
  show ?thesis
    using step
  proof (cases rule: cstep_flight_kinds)
    case quiet
    then have l: "leads (pcs s' k) = leads (pcs s k)" and p: "published (pcs s' k) = published (pcs s k)" for k
      using frame [of k] by (cases "k = i"; simp)+
    have f: "follows (pcs s k) = Some c \<or> sf_m s = Some c" if "follows (pcs s' k) = Some c" for k c
      using quiet(6) frame [of k] that by (cases "k = i") auto
    show ?thesis
    proof (rule flight_invI, unfold l p quiet(1-3))
      show "sf_m s = Some c" if "follows (pcs s' k) = Some c" "sf_val s c = None" for k c
        using f [OF that(1)] d(4) [of k c] that(2) by auto
    qed (use d in blast)+
  next
    case lead
    have none: "leads (pcs s k) = None" for k
      using d(1) [of k] lead(2) by (cases "leads (pcs s k)") auto
    have old: "sf_val s c \<noteq> None \<Longrightarrow> c < sf_next s" for c
      using d(5) [of c] by blast
    then have fresh: "sf_val s (sf_next s) = None" by blast
    have wait: "follows (pcs s k) = Some c \<Longrightarrow> sf_val s c \<noteq> None" for k c
      using d(4) [of k c] lead(2) by simp
    show ?thesis
    proof (rule flight_invI)
      show "sf_m s' = Some c" if "follows (pcs s' k) = Some c" "sf_val s' c = None" for k c
        using wait [of k c] that lead(3) by (auto split: if_splits)
    qed (use none fresh old in \<open>auto simp: lead(3) less_Suc_eq split: if_splits\<close>)
  next
    case (publish c r)
    have l: "leads (pcs s' k) = leads (pcs s k)" for k
      using publish frame [of k] by (cases "k = i") auto
    have f: "follows (pcs s k) = Some c'" if "follows (pcs s' k) = Some c'" for k c'
      using publish frame [of k] that by (cases "k = i") auto
    have me: "leads (pcs s i) = Some c" using publish(1) by simp
    have only: "k = i \<and> c' = c" if "leads (pcs s k) = Some c'" for k c'
      using d(2) [OF me, of k] d(1) [OF that] d(1) [OF me] that by (cases "k = i") auto
    have s': "published (pcs s' i) = Some r" "sf_m s' = sf_m s" "sf_val s' = (sf_val s)(c \<mapsto> r)" "sf_next s' = sf_next s"
      using publish by simp_all
    show ?thesis
    proof (rule flight_invI, unfold l s'(2,4))
      show "sf_m s = Some c' \<and> sf_val s' c' = published (pcs s' k)" if "leads (pcs s k) = Some c'" for k c'
        using only [OF that] d(1) [OF that] s' by auto
      show "sf_m s = Some c'" if "follows (pcs s' k) = Some c'" "sf_val s' c' = None" for k c'
        using d(4) [OF f [OF that(1)]] that(2) s' by (auto split: if_splits)
      show "c' < sf_next s" if "sf_val s' c' \<noteq> None \<or> sf_m s = Some c'" for c'
        using that d(5) [of c'] d(5) [of c] d(1) [OF me] s' by (auto split: if_splits)
    qed (use d in blast)+
  next
    case (delete c r)
    have me: "leads (pcs s i) = Some c" using delete(1) by simp
    have only: "leads (pcs s' k) = None" for k
      using delete frame [of k] d(2) [OF me, of k] by (cases "k = i") auto
    have fin: "sf_val s c = Some r" "sf_m s = Some c"
      using d(1) [OF me] delete(1) by simp_all
    have f: "sf_val s c' \<noteq> None" if "follows (pcs s' k) = Some c'" for k c'
      using delete frame [of k] d(4) [of k c'] fin that by (cases "k = i") auto
    have s': "sf_m s' = None" "sf_val s' = sf_val s" "sf_next s' = sf_next s"
      using delete by simp_all
    show ?thesis
      by (rule flight_invI) (use only f d(5) s' in auto)
  qed
qed

lemma flight_inv_init: "cinit s \<Longrightarrow> flight_inv s"
  by (simp add: cinit_def flight_inv_def)

interpretation flight: inductive_invariant cinit cstep flight_inv
  by unfold_locales (auto intro: flight_inv_init flight_inv_step)

subsection \<open>Progress\<close>

text \<open>Goroutines that can move whatever the others do: neither finished nor waiting.\<close>

fun free :: "pc \<Rightarrow> bool" where
  "free Idle = False"
| "free (GDone r) = False"
| "free HDone = False"
| "free CDone = False"
| "free (GWait c) = False"
| "free (RLock c) = False"
| "free HLock = False"
| "free _ = True"

fun finished :: "pc \<Rightarrow> bool" where
  "finished Idle = True"
| "finished (GDone r) = True"
| "finished HDone = True"
| "finished CDone = True"
| "finished _ = False"

lemma free_moves:
  assumes "free (pcs s i)"
  shows "\<exists>s'. cstep i s s'"
proof (cases "pcs s i")
  case GStart
  then show ?thesis by (cases "check_token 0 (sess s)") (auto intro: answer stale)
next
  case GFlight
  then show ?thesis by (cases "sf_m s") (auto intro: follow lead)
next
  case (RCheck c)
  then show ?thesis
    by (cases "check_token 0 (sess s)"; cases "refreshToken (sess s) = ''''") (auto intro: r_answer r_missing r_call)
next
  case (RCall c ep rt)
  have "refresh_err (ProtoErr tier_error)"
    by (simp add: refresh_err_def tier_error_def refresh_codes_def)
  with RCall show ?thesis by (blast intro: idp_err)
next
  case (RGot c tr)
  then show ?thesis
    by (cases "ExpiresAtFromToken (AccessToken tr) (ExpiresIn tr) 0") (metis r_commit surj_pair)
next
  case (RErr c e)
  then show ?thesis by (metis r_fail surj_pair)
next
  case HSnap
  then show ?thesis by (metis h_snap surj_pair)
next
  case (HUnlock x)
  then show ?thesis by (cases x) (auto intro: h_refused h_unlock)
qed (use assms in \<open>auto intro: r_no_token r_unlock publish delete h_lost h_restore c_clear\<close>)

lemma holds_free: "holds_opMu q \<Longrightarrow> free q"
  by (cases q) auto

lemma free_not_finished: "free q \<Longrightarrow> \<not> finished q"
  by (cases q) auto

lemma lock_moves:
  assumes "token_inv s" "pcs s i = HLock \<or> (\<exists>c. pcs s i = RLock c)"
  shows "\<exists>j s'. \<not> finished (pcs s j) \<and> cstep j s s'"
proof (cases "opMu s")
  case None
  with assms(2) have "\<exists>s'. cstep i s s'" by (auto intro: h_lock r_lock)
  with assms(2) show ?thesis by (intro exI [of _ i]) auto
next
  case (Some k)
  with assms(1) have "holds_opMu (pcs s k)" by (simp add: token_inv_def one_holder_def)
  with holds_free free_moves free_not_finished show ?thesis by metis
qed

subsection \<open>A run\<close>

text \<open>One goroutine finds the token about to expire and is in the middle of the refresh.\<close>

definition demo_conf :: conf where
  "demo_conf = \<lparr>sess = demo_session, opMu = None, sf_m = None, sf_val = Map.empty, sf_next = 0,
     issued = ''rt'', delivered = None, pcs = (\<lambda>_. Idle)\<rparr>"

definition demo_at :: "Session \<Rightarrow> tid option \<Rightarrow> call_id option \<Rightarrow> call_id \<Rightarrow> pc \<Rightarrow> conf" where
  "demo_at x h m n q = demo_conf\<lparr>sess := x, opMu := h, sf_m := m, sf_next := n, pcs := (\<lambda>_. Idle)(0 := q)\<rparr>"

lemma demo_at_simps [simp]:
  "sess (demo_at x h m n q) = x" "opMu (demo_at x h m n q) = h" "sf_m (demo_at x h m n q) = m"
  "sf_next (demo_at x h m n q) = n" "pcs (demo_at x h m n q) 0 = q" "issued (demo_at x h m n q) = ''rt''"
  "sess_update (\<lambda>_. x') (demo_at x h m n q) = demo_at x' h m n q"
  "opMu_update (\<lambda>_. h') (demo_at x h m n q) = demo_at x h' m n q"
  "sf_m_update (\<lambda>_. m') (demo_at x h m n q) = demo_at x h m' n q"
  "sf_next_update (\<lambda>_. n') (demo_at x h m n q) = demo_at x h m n' q"
  "goto 0 q' (demo_at x h m n q) = demo_at x h m n q'"
  "i \<noteq> 0 \<Longrightarrow> pcs (demo_at x h m n q) i = Idle"
  by (simp_all add: demo_at_def demo_conf_def goto_def)

lemma demo_init: "cinit (demo_at demo_session None None 0 Idle)"
  using demo_session_inv demo_session_typed
  by (simp add: cinit_def demo_at_def demo_conf_def) (simp add: demo_session_def fun_eq_iff)

lemma creach_step: "reach cinit cstep s \<Longrightarrow> cstep i s t \<Longrightarrow> t = u \<Longrightarrow> reach cinit cstep u"
  by (auto intro: reach.step)

lemma demo_stale: "check_token (900 * second) demo_session = None"
  by (simp add: check_token_def demo_session_def accessStillFreshLocked_def time_add_def RefreshSkew_def
      minute_def second_def max_sec_def)

abbreviation demo_calling :: conf where
  "demo_calling \<equiv> demo_at demo_session (Some 0) (Some 0) 1 (RCall 0 DefaultTokenURL ''rt'')"

text \<open>A first request on a session that is not fresh gets as far as the call of the provider.\<close>

lemma first_call:
  assumes "\<And>i c c'. Q c \<Longrightarrow> cstep i c c' \<Longrightarrow> Q c'" "Q (demo_at x None None 0 Idle)"
    and "check_token t x = None" "refreshToken x \<noteq> ''''"
  shows "Q (demo_at x (Some 0) (Some 0) 1 (RCall 0 (tokenEndpoint x) (refreshToken x)))"
proof -
  have next_Q: "Q c \<Longrightarrow> cstep 0 c c' \<Longrightarrow> c' = u \<Longrightarrow> Q u" for c c' u using assms(1) by blast
  have "Q (demo_at x None None 0 GStart)"
    by (rule next_Q [OF assms(2) start [of _ 0 GStart]]) simp_all
  then have "Q (demo_at x None None 0 GFlight)"
    by (rule next_Q [OF _ stale [of _ 0 t]]) (simp_all add: assms(3))
  then have "Q (demo_at x None (Some 0) 1 (RLock 0))"
    by (rule next_Q [OF _ lead [of _ 0]]) simp_all
  then have "Q (demo_at x (Some 0) (Some 0) 1 (RCheck 0))"
    by (rule next_Q [OF _ r_lock [of _ 0]]) simp_all
  then show ?thesis
    by (rule next_Q [OF _ r_call [of _ 0 0 t]]) (simp_all add: assms(3,4))
qed

lemma demo_calling_reach: "reach cinit cstep demo_calling"
proof -
  have "reach cinit cstep (demo_at demo_session None None 0 Idle)"
    by (rule reach.init) (rule demo_init)
  moreover have "tokenEndpoint demo_session = DefaultTokenURL" "refreshToken demo_session = ''rt''"
    by (simp_all add: demo_session_def)
  ultimately show ?thesis
    using first_call [of "reach cinit cstep" demo_session "900 * second"] demo_stale
    by (auto intro: reach.step)
qed

text \<open>One goroutine holds the snapshot of the session and is about to deliver it.\<close>

definition demo_data :: HandoffData where
  "demo_data = \<lparr>hd_AccessToken = ''at'', hd_RefreshToken = ''rt'', hd_TokenEndpoint = DefaultTokenURL,
     hd_ExpiresAt = 1000 * second, hd_HasExpiry = True\<rparr>"

abbreviation demo_writing :: conf where
  "demo_writing \<equiv> demo_at (wipe StateHandedOff ''handed_off'' demo_session) None None 0 (HWrite demo_data)"

lemma demo_writing_reach: "reach cinit cstep demo_writing"
proof -
  let ?s = "demo_at demo_session" and ?w = "demo_at (wipe StateHandedOff ''handed_off'' demo_session)"
  have h: "Handoff demo_session = (Inr demo_data, wipe StateHandedOff ''handed_off'' demo_session)"
    by (simp add: Handoff_def demo_session_def demo_data_def)
  have "reach cinit cstep (?s None None 0 Idle)" by (rule reach.init) (rule demo_init)
  then have "reach cinit cstep (?s None None 0 HLock)"
    by (rule creach_step [OF _ start [of _ 0 HLock]]) simp_all
  then have "reach cinit cstep (?s (Some 0) None 0 HSnap)"
    by (rule creach_step [OF _ h_lock [of _ 0]]) simp_all
  then have "reach cinit cstep (?w (Some 0) None 0 (HUnlock (Inr demo_data)))"
    by (rule creach_step [OF _ h_snap [of _ 0]]) (simp_all add: h)
  then show ?thesis
    by (rule creach_step [OF _ h_unlock [of _ 0]]) simp_all
qed

subsection \<open>Properties\<close>

text \<open>
  Property C1. One refresher at a time, with the current token. In every reachable state a call to
  the provider in flight is the only one, no handoff has the lock, and the refresh token it
  presents is the one most recently issued; so a rotated token is never presented twice.
\<close>

theorem single_refresher:
  assumes "reach cinit cstep s" "pcs s i = RCall c ep rt"
  shows "rt = issued s \<and> (\<forall>j. j \<noteq> i \<longrightarrow> \<not> holds_opMu (pcs s j)) \<and> delivered s = None \<and> (\<forall>j. snapshot (pcs s j) = None)"
proof -
  have inv: "token_inv s" using assms(1) by (rule tokens.always)
  have holds: "holds_opMu (pcs s k) \<longleftrightarrow> opMu s = Some k" for k
    using token_invD(2) [OF inv] by (simp add: one_holder_def)
  have "holds_opMu (pcs s i)" "refreshing (pcs s i)" using assms(2) by simp_all
  then have "opMu s = Some i" "snapshot (pcs s j) = None \<and> delivered s = None" for j
    using holds [of i] token_invD(8) [OF inv] by blast+
  moreover have "rt = issued s"
    using token_invD(3) [OF inv, of i] assms(2) by simp
  ultimately show ?thesis using holds by auto
qed

theorem single_refresher_witness:
  "''rt'' = issued demo_calling \<and> \<not> holds_opMu (pcs demo_calling 1)"
  using single_refresher [OF demo_calling_reach, of 0 0 DefaultTokenURL "''rt''"] by simp

text \<open>
  Property C6. A handoff never carries a consumed token. In every reachable state in which a
  snapshot is on its way to a successor, its refresh token is the one most recently issued, it is
  the only snapshot, no refresh is in progress and this process no longer holds a token.
\<close>

theorem handoff_current:
  assumes "reach cinit cstep s" "snapshot (pcs s i) = Some d"
  shows "hd_RefreshToken d = issued s \<and> refreshToken (sess s) = '''' \<and> delivered s = None
    \<and> (\<forall>j. \<not> refreshing (pcs s j)) \<and> (\<forall>j. j \<noteq> i \<longrightarrow> snapshot (pcs s j) = None)"
proof -
  have inv: "token_inv s" using assms(1) by (rule tokens.always)
  from token_invD(9) [OF inv assms(2)] session_invD(2) [OF token_invD(1) [OF inv]] show ?thesis by auto
qed

theorem handoff_current_witness:
  "hd_RefreshToken demo_data = issued demo_writing \<and> refreshToken (sess demo_writing) = ''''"
  using handoff_current [OF demo_writing_reach, of 0 demo_data] by simp

text \<open>What has ended or was delivered stays so, step by step.\<close>

lemma delivered_step:
  assumes inv: "token_inv x" and del: "delivered x = Some d" and step: "cstep i x y"
  shows "delivered y = Some d"
  using step
proof (cases rule: cstep_kinds)
  case (no_token c)
  with token_invD(3) [OF inv, of i] show ?thesis by simp
next
  case (sent d')
  with token_invD(9) [OF inv, of i d' i] del show ?thesis by simp
qed (use del in auto)

lemma ended_step:
  assumes inv: "token_inv x" and ended: "state (sess x) \<in> {StateReauthRequired, StateTierDenied}" and step: "cstep i x y"
  shows "state (sess y) \<in> {StateReauthRequired, StateTierDenied}"
proof -
  have iff: "st \<in> {StateReauthRequired, StateTierDenied} \<longleftrightarrow> st \<noteq> StateReady \<and> st \<noteq> StateHandedOff" for st
    by (cases st) auto
  from step show ?thesis
  proof (cases rule: cstep_kinds)
    case (no_token c)
    with token_invD(3) [OF inv, of i] show ?thesis by simp
  next
    case (commit c tr exp ok r z)
    with commit_effect(2) [OF commit(2) token_invD(1) [OF inv]] token_invD(3) [OF inv, of i] ended
    show ?thesis by (auto split: if_splits)
  next
    case (fail c e t r z)
    have "state z \<noteq> StateReady \<and> state z \<noteq> StateHandedOff"
      using handleRefreshErr_effect(2,3) [OF fail(2) token_invD(1) [OF inv]] ended unfolding iff by blast
    with fail(3) show ?thesis unfolding iff by simp
  next
    case (snap a b)
    with ended show ?thesis by (auto simp: Handoff_def split: if_splits)
  next
    case (restore d)
    with ended show ?thesis by (auto simp: RestoreHandoff_def)
  next
    case clear
    with Clear_effect(2) show ?thesis by simp
  qed (use ended in auto)
qed

text \<open>
  Property C27. A delivered handoff is final. Once the handler has delivered the snapshot, this
  process never again calls the provider, never receives a token from it and never becomes ready:
  in every later state the successor's refresh token is still the one most recently issued.
\<close>

theorem delivered_final:
  assumes "reach cinit cstep s" "delivered s = Some d" "reach (\<lambda>x. x = s) cstep s'"
  shows "delivered s' = Some d \<and> hd_RefreshToken d = issued s' \<and> state (sess s') \<noteq> StateReady
    \<and> (\<forall>j. \<not> refreshing (pcs s' j))"
proof -
  from assms(3) have "token_inv s' \<and> delivered s' = Some d"
  proof induction
    case (init x)
    with assms(1,2) tokens.always show ?case by simp
  next
    case (step x i y)
    with delivered_step token_inv_step show ?case by blast
  qed
  with token_invD(10) [of s' d] show ?thesis by blast
qed

theorem delivered_final_witness:
  "delivered (goto 0 HDone (demo_writing\<lparr>delivered := Some demo_data\<rparr>)) = Some demo_data
   \<and> state (sess (goto 0 HDone (demo_writing\<lparr>delivered := Some demo_data\<rparr>))) \<noteq> StateReady"
proof -
  have "reach cinit cstep (goto 0 HDone (demo_writing\<lparr>delivered := Some demo_data\<rparr>))"
    by (rule reach.step [OF demo_writing_reach h_sent]) simp_all
  from delivered_final [OF this, of demo_data, OF _ reach.init] show ?thesis by simp
qed

text \<open>
  Property C28. A logout cannot be undone. From any state of the system in which the session has
  ended (logged out, login needed, or not entitled), whatever goroutines are still in the middle of
  a refresh or of a handoff, no later state holds a token again.
\<close>

theorem ended_stays_ended:
  assumes "reach cinit cstep s" "state (sess s) \<in> {StateReauthRequired, StateTierDenied}"
    "reach (\<lambda>x. x = s) cstep s'"
  shows "state (sess s') \<in> {StateReauthRequired, StateTierDenied} \<and> accessToken (sess s') = '''' \<and> refreshToken (sess s') = ''''"
proof -
  from assms(3) have "token_inv s' \<and> state (sess s') \<in> {StateReauthRequired, StateTierDenied}"
  proof induction
    case (init x)
    with assms(1,2) tokens.always show ?case by simp
  next
    case (step x i y)
    with ended_step token_inv_step show ?case by blast
  qed
  with session_invD(2) [of "sess s'"] token_invD(1) [of s'] show ?thesis by auto
qed

theorem ended_stays_ended_witness:
  "accessToken (sess (demo_at (Clear demo_session) None None 0 CDone)) = ''''"
proof -
  have "reach cinit cstep (demo_at demo_session None None 0 Idle)" by (rule reach.init) (rule demo_init)
  then have "reach cinit cstep (demo_at demo_session None None 0 CStart)"
    by (rule creach_step [OF _ start [of _ 0 CStart]]) simp_all
  then have "reach cinit cstep (demo_at (Clear demo_session) None None 0 CDone)"
    by (rule creach_step [OF _ c_clear [of _ 0]]) simp_all
  from ended_stays_ended [OF this _ reach.init] show ?thesis by (simp add: Clear_def wipe_def)
qed

text \<open>
  Property C29. The singleflight. When the refresh of the goroutine that leads a call has returned \<open>r\<close>, then in every
  later state, whatever the others do: a goroutine that waits for the call, and joined it before or after, can only
  go on with that same \<open>r\<close>; the leader itself returns \<open>r\<close>; and nobody else leads.
\<close>

theorem singleflight_shares:
  assumes "reach cinit cstep s" "pcs s i = RUnlock c r" "reach (\<lambda>x. x = s) cstep t"
  shows "(\<forall>j t'. pcs t j = GWait c \<and> cstep j t t' \<longrightarrow> pcs t' j = GDone r)
    \<and> (\<forall>x t'. pcs t i = GDelete c x \<and> cstep i t t' \<longrightarrow> pcs t' i = GDone r)
    \<and> (\<forall>j k. leads (pcs t j) \<noteq> None \<and> leads (pcs t k) \<noteq> None \<longrightarrow> j = k)"
proof -
  have "flight_inv t \<and> (pcs t i \<in> {RUnlock c r, GPublish c r} \<or> sf_val t c = Some r)"
    using assms(3)
  proof induction
    case (init x)
    with assms(1,2) flight.always show ?case by simp
  next
    case (step x k y)
    have val: "sf_val y c = Some r" if "sf_val x c = Some r"
      using step(2)
    proof (cases rule: cstep_flight_kinds)
      case (publish c' r')
      with step(3) that flight_invD(1) [of x k c'] show ?thesis by auto
    qed (use that in auto)
    have "pcs y i \<in> {RUnlock c r, GPublish c r} \<or> sf_val y c = Some r" if "pcs x i \<in> {RUnlock c r, GPublish c r}"
    proof (cases "k = i")
      case True
      with step(2) that show ?thesis by (cases rule: cstep.cases) auto
    next
      case False
      with cstep_frame [OF step(2), of i] that show ?thesis by simp
    qed
    with val step(3) flight_inv_step [OF _ step(2)] show ?case by blast
  qed
  then have inv: "flight_inv t" and res: "pcs t i \<in> {RUnlock c r, GPublish c r} \<or> sf_val t c = Some r" by blast+
  have val: "x = r" if "sf_val t c = Some x" for x
    using res that flight_invD(1) [OF inv, of i c] by auto
  have "pcs t' j = GDone r" if "pcs t j = GWait c" "cstep j t t'" for j t'
    using that(2,1) by (cases rule: cstep.cases) (auto dest: val)
  moreover have "pcs t' i = GDone r" if "pcs t i = GDelete c x" "cstep i t t'" for x t'
    using that(2,1) flight_invD(1) [OF inv, of i c] by (cases rule: cstep.cases) (auto dest: val)
  moreover have "j = k" if "leads (pcs t j) \<noteq> None \<and> leads (pcs t k) \<noteq> None" for j k
    using that flight_invD(2) [OF inv] by (metis option.exhaust)
  ultimately show ?thesis by blast
qed

theorem singleflight_shares_witness:
  "\<exists>s t t' r. reach cinit cstep s \<and> pcs s 0 = RUnlock 0 r \<and> reach (\<lambda>x. x = s) cstep t
    \<and> pcs t 1 = GWait 0 \<and> cstep 1 t t' \<and> pcs t' 1 = GDone r"
proof -
  have e: "refresh_err (ProtoErr tier_error)" by (simp add: refresh_err_def refresh_codes_def tier_error_def)
  obtain r x where f: "handleRefreshErr (ProtoErr tier_error) 0 demo_session = (r, x)"
    by (cases "handleRefreshErr (ProtoErr tier_error) 0 demo_session")
  define s1 where "s1 = goto 1 GStart demo_calling"
  define s2 where "s2 = goto 1 GFlight s1"
  define s3 where "s3 = goto 1 (GWait 0) s2"
  define s4 where "s4 = goto 0 (RErr 0 (ProtoErr tier_error)) s3"
  define s5 where "s5 = goto 0 (RUnlock 0 r) (s4\<lparr>sess := x\<rparr>)"
  define s6 where "s6 = goto 0 (GPublish 0 r) (s5\<lparr>opMu := None\<rparr>)"
  define s7 where "s7 = goto 0 (GDelete 0 r) (s6\<lparr>sf_val := (sf_val s6)(0 \<mapsto> r)\<rparr>)"
  note defs = s1_def s2_def s3_def s4_def s5_def s6_def s7_def
  have "reach cinit cstep s1"
    by (rule creach_step [OF demo_calling_reach start [of _ 1 GStart]]) (simp_all add: s1_def)
  then have "reach cinit cstep s2"
    by (rule creach_step [OF _ stale [of _ 1 "900 * second"]]) (simp_all add: defs demo_stale)
  then have "reach cinit cstep s3"
    by (rule creach_step [OF _ follow [of _ 1 0]]) (simp_all add: defs)
  then have "reach cinit cstep s4"
    by (rule creach_step [OF _ idp_err [of _ 0 0 DefaultTokenURL "''rt''" "ProtoErr tier_error"]]) (simp_all add: defs e)
  then have s5: "reach cinit cstep s5"
    by (rule creach_step [OF _ r_fail [of _ 0 0 "ProtoErr tier_error" 0 r x]]) (simp_all add: defs f)
  have own: "pcs s5 0 = RUnlock 0 r" by (simp add: s5_def)
  then have "cstep 0 s5 s6" unfolding s6_def by (rule r_unlock)
  then have s6: "reach (\<lambda>x. x = s5) cstep s6" by (intro reach.step [OF reach.init]) simp_all
  have "pcs s6 0 = GPublish 0 r" by (simp add: s6_def)
  then have "cstep 0 s6 s7" unfolding s7_def by (rule publish)
  with s6 have s7: "reach (\<lambda>x. x = s5) cstep s7" by (rule reach.step)
  have w: "pcs s7 1 = GWait 0" by (simp add: defs)
  have c: "cstep 1 s7 (goto 1 (GDone r) s7)" by (rule share [OF w]) (simp add: s7_def)
  from singleflight_shares [OF s5 own s7] s5 own s7 w c show ?thesis by blast
qed

lemma unfinished_moves:
  assumes "reach cinit cstep s" "\<not> finished (pcs s i)"
  shows "\<exists>j s'. \<not> finished (pcs s j) \<and> cstep j s s'"
proof -
  have inv: "token_inv s" "flight_inv s"
    using assms(1) by (rule tokens.always, rule flight.always)
  have leader: "\<exists>j s'. \<not> finished (pcs s j) \<and> cstep j s s'" if "leads (pcs s k) = Some c" for k c
  proof (cases "free (pcs s k)")
    case True
    with free_moves free_not_finished show ?thesis by blast
  next
    case False
    with that have "\<exists>c. pcs s k = RLock c" by (cases "pcs s k") auto
    with lock_moves [OF inv(1)] show ?thesis by blast
  qed
  consider "free (pcs s i)" | c where "pcs s i = GWait c" | "pcs s i = HLock \<or> (\<exists>c. pcs s i = RLock c)"
    using assms(2) by (cases "pcs s i") auto
  then show ?thesis
  proof cases
    case 1
    with free_moves free_not_finished show ?thesis by blast
  next
    case (2 c)
    then consider r where "sf_val s c = Some r" | "sf_m s = Some c"
      using flight_invD(4) [OF inv(2), of i c] by auto
    then show ?thesis
    proof cases
      case (1 r)
      with 2 have "cstep i s (goto i (GDone r) s)" by (intro share)
      with assms(2) show ?thesis by blast
    next
      case 2
      with flight_invD(3) [OF inv(2)] leader show ?thesis by blast
    qed
  next
    case 3
    with lock_moves [OF inv(1)] show ?thesis by blast
  qed
qed

text \<open>
  No deadlock. In every reachable state in which some request is not finished, some
  unfinished goroutine can take a step: a follower waits for a leader, a leader or a handoff for
  the holder of \<open>opMu\<close>, and the holder is never blocked (the call to the provider returns, if only
  with an error).
\<close>

theorem no_deadlock:
  assumes "reach cinit cstep s" "\<not> finished (pcs s i)"
  shows "\<exists>j s'. \<not> finished (pcs s j) \<and> cstep j s s'"
  by (rule unfinished_moves [OF assms])

theorem no_deadlock_witness: "\<exists>j s'. \<not> finished (pcs demo_calling j) \<and> cstep j demo_calling s'"
  by (rule no_deadlock [OF demo_calling_reach, of 0]) (simp)

end
