(* ===== verification/Daemon.thy ===== *)
theory Daemon
  imports Concurrency
begin

text \<open>
  The daemon process around its goroutines: the \<^verbatim>\<open>select\<close> of \<^verbatim>\<open>runServer\<close>
  (\<^verbatim>\<open>cmd/xai-oauth/serve.go\<close>) and the goroutines \<^verbatim>\<open>go s.OnLogout()\<close> the handlers start
  (\<^verbatim>\<open>internal/server/server.go\<close>), composed with the goroutines of theory \<open>Concurrency\<close>. The channel
  \<^verbatim>\<open>shutdownCh\<close> has room for one message and \<open>OnLogout\<close> drops further ones. Requests go on
  until the process ends, also during the five seconds of \<^verbatim>\<open>Shutdown\<close>.
\<close>

subsection \<open>Data in a running system is typed\<close>

fun typed_pc :: "pc \<Rightarrow> bool" where
  "typed_pc (RGot c tr) = (usable tr \<and> typed_tokens tr)"
| "typed_pc (HUnlock (Inr d)) = typed_handoff d"
| "typed_pc (HWrite d) = typed_handoff d"
| "typed_pc (HRestore d) = typed_handoff d"
| "typed_pc (RUnlock c r) = typed_result r"
| "typed_pc (GPublish c r) = typed_result r"
| "typed_pc (GDelete c r) = typed_result r"
| "typed_pc (GDone r) = typed_result r"
| "typed_pc _ = True"

definition typed_conf :: "conf \<Rightarrow> bool" where
  "typed_conf s \<longleftrightarrow>
     typed_session (sess s) \<and> (\<forall>i. typed_pc (pcs s i)) \<and> (\<forall>c r. sf_val s c = Some r \<longrightarrow> typed_result r)
     \<and> (\<forall>d. delivered s = Some d \<longrightarrow> typed_handoff d)"

lemma typed_confD:
  assumes "typed_conf s"
  shows "typed_session (sess s)" "typed_pc (pcs s i)" "sf_val s c = Some r \<Longrightarrow> typed_result r"
    "delivered s = Some d \<Longrightarrow> typed_handoff d"
  using assms by (simp_all add: typed_conf_def)

lemma handleRefreshErr_typed_inv:
  assumes "typed_session s" "session_inv s"
  shows "typed_result (fst (handleRefreshErr err t s))"
proof (cases "state s = StateReady")
  case True
  with handleRefreshErr_typed assms(1) show ?thesis .
next
  case False
  with session_invD(2) [OF assms(2)] show ?thesis
    by (auto simp: handleRefreshErr_def Let_def hardValidLocked_def typed_result_def)
qed

text \<open>What a step stores is typed: the session, the new counter, the published result, the delivered snapshot.\<close>

lemma cstep_typed_parts:
  assumes "cstep i s s'" "typed_conf s" "session_inv (sess s)"
  shows "typed_session (sess s')" "typed_pc (pcs s' i)"
    "sf_val s' = sf_val s \<or> (\<exists>c r. sf_val s' = (sf_val s)(c \<mapsto> r) \<and> typed_result r)"
    "delivered s' = delivered s \<or> (\<exists>d. delivered s' = Some d \<and> typed_handoff d)"
proof -
  note t = typed_confD [OF assms(2)]
  have pc: "typed_pc (pcs s i)" by (rule t(2))
  have "typed_session (sess s') \<and> typed_pc (pcs s' i)
      \<and> (sf_val s' = sf_val s \<or> (\<exists>c r. sf_val s' = (sf_val s)(c \<mapsto> r) \<and> typed_result r))
      \<and> (delivered s' = delivered s \<or> (\<exists>d. delivered s' = Some d \<and> typed_handoff d))"
    using assms(1)
  proof (cases rule: cstep.cases)
    case (answer t r)
    with t(1) check_token_typed [OF t(1), of t r] show ?thesis by simp
  next
    case (share c r)
    with t(1,3) show ?thesis by simp
  next
    case (r_answer c t r)
    with t(1) check_token_typed [OF t(1), of t r] show ?thesis by simp
  next
    case (r_no_token c)
    with typed_no_refresh_token [OF t(1)] show ?thesis by (simp add: typed_result_def)
  next
    case (r_panic c ep rt t)
    with t(1) show ?thesis by (simp add: typed_result_def)
  next
    case (r_commit c tr t exp ok r x)
    with pc have "usable tr" "typed_tokens tr" by simp_all
    with typed_commit [OF t(1)] commit_refresh_typed r_commit(4) have "typed_session x \<and> typed_result r"
      by (metis fst_conv snd_conv)
    with r_commit(1) show ?thesis by simp
  next
    case (r_fail c e t r x)
    with typed_handleRefreshErr [OF t(1), of e t] handleRefreshErr_typed_inv [OF t(1) assms(3), of e t] show ?thesis by simp
  next
    case (h_snap x y)
    with typed_Handoff [OF t(1)] typed_Handoff_data [OF t(1)] show ?thesis by (cases x) simp_all
  next
    case (h_restore d)
    with pc typed_RestoreHandoff [OF t(1), of "Some d"] show ?thesis by simp
  next
    case c_clear
    with typed_Clear show ?thesis by simp
  qed (use pc t(1) in auto)
  then show "typed_session (sess s')" "typed_pc (pcs s' i)"
    "sf_val s' = sf_val s \<or> (\<exists>c r. sf_val s' = (sf_val s)(c \<mapsto> r) \<and> typed_result r)"
    "delivered s' = delivered s \<or> (\<exists>d. delivered s' = Some d \<and> typed_handoff d)"
    by auto
qed

lemma typed_conf_step:
  assumes "cstep i s s'" "typed_conf s" "session_inv (sess s)"
  shows "typed_conf s'"
  unfolding typed_conf_def
proof (intro conjI allI impI)
  note p = cstep_typed_parts [OF assms] and t = typed_confD [OF assms(2)]
  show "typed_session (sess s')" by (rule p(1))
  show "typed_pc (pcs s' j)" for j
    using p(2) t(2) [of j] cstep_frame [OF assms(1), of j] by (cases "j = i") auto
  show "sf_val s' c = Some r \<Longrightarrow> typed_result r" for c r
    using p(3) t(3) by (auto split: if_splits)
  show "delivered s' = Some d \<Longrightarrow> typed_handoff d" for d
    using p(4) t(4) by auto
qed

definition sound_conf :: "conf \<Rightarrow> bool" where
  "sound_conf s \<longleftrightarrow> token_inv s \<and> typed_conf s"

lemma sound_conf_init: "cinit s \<Longrightarrow> sound_conf s"
  by (simp add: sound_conf_def token_inv_init) (simp add: cinit_def typed_conf_def)

lemma sound_conf_step: "sound_conf s \<Longrightarrow> cstep i s s' \<Longrightarrow> sound_conf s'"
  using token_inv_step typed_conf_step token_invD(1) by (auto simp: sound_conf_def)

interpretation sound: inductive_invariant cinit cstep sound_conf
  by unfold_locales (rule sound_conf_init sound_conf_step, assumption+)+

text \<open>
  Property C26. Well-typed processes stay well typed. In every reachable state, with any number of requests in
  flight, the session, every snapshot on its way to a successor and every token that is about to be
  returned are valid UTF-8 and not blank: what the wire formats carry without loss.
\<close>

theorem reachable_typed:
  assumes "reach cinit cstep s"
  shows "typed_session (sess s)
    \<and> (\<forall>i. (case pcs s i of GDone r \<Rightarrow> typed_result r | HWrite d \<Rightarrow> typed_handoff d | _ \<Rightarrow> True))
    \<and> (case delivered s of None \<Rightarrow> True | Some d \<Rightarrow> typed_handoff d)"
proof -
  have "typed_conf s" using sound.always [OF assms] by (simp add: sound_conf_def)
  from typed_confD [OF this] show ?thesis
    by (auto split: pc.splits option.splits) (metis typed_pc.simps)+
qed

theorem reachable_typed_witness: "typed_handoff demo_data \<and> utf8_ok (hd_RefreshToken demo_data)"
proof -
  from reachable_typed [OF demo_writing_reach]
  have "case pcs demo_writing 0 of GDone r \<Rightarrow> typed_result r | HWrite d \<Rightarrow> typed_handoff d | _ \<Rightarrow> True" by blast
  then show ?thesis by (simp add: typed_handoff_def)
qed

subsection \<open>The process\<close>

datatype stop_reason = BySignal | ByLogout

datatype serve_result = Closed | Failed string

datatype main_pc = Selecting | ShuttingDown stop_reason | Returned "serve_result + stop_reason"

record process =
  gs :: conf
  onlogout :: nat
  shutdownCh :: bool
  sigCh :: bool
  errCh :: "serve_result option"
  main :: main_pc

text \<open>A handler starts \<open>OnLogout\<close> when it has logged out, or delivered a snapshot.\<close>

definition notifies :: "pc \<Rightarrow> pc \<Rightarrow> nat" where
  "notifies q q' =
     (case q of
        CStart \<Rightarrow> if q' = CDone then 1 else 0
      | HWrite d \<Rightarrow> if q' = HDone then 1 else 0
      | _ \<Rightarrow> 0)"

declare notifies_def [simp]

inductive dstep :: "process \<Rightarrow> process \<Rightarrow> bool" where
  request: "(\<forall>r. main p \<noteq> Returned r) \<Longrightarrow> cstep i (gs p) c \<Longrightarrow>
    dstep p (p\<lparr>gs := c, onlogout := onlogout p + notifies (pcs (gs p) i) (pcs c i)\<rparr>)"
| notify: "(\<forall>r. main p \<noteq> Returned r) \<Longrightarrow> onlogout p = Suc n \<Longrightarrow> dstep p (p\<lparr>onlogout := n, shutdownCh := True\<rparr>)"
| signal: "(\<forall>r. main p \<noteq> Returned r) \<Longrightarrow> dstep p (p\<lparr>sigCh := True\<rparr>)"
| serve_ends: "(\<forall>r. main p \<noteq> Returned r) \<Longrightarrow> errCh p = None \<Longrightarrow> dstep p (p\<lparr>errCh := Some e\<rparr>)"
| on_signal: "main p = Selecting \<Longrightarrow> sigCh p \<Longrightarrow> dstep p (p\<lparr>sigCh := False, main := ShuttingDown BySignal\<rparr>)"
| on_logout: "main p = Selecting \<Longrightarrow> shutdownCh p \<Longrightarrow> dstep p (p\<lparr>shutdownCh := False, main := ShuttingDown ByLogout\<rparr>)"
| on_error: "main p = Selecting \<Longrightarrow> errCh p = Some e \<Longrightarrow> dstep p (p\<lparr>errCh := None, main := Returned (Inl e)\<rparr>)"
| shut_down: "main p = ShuttingDown r \<Longrightarrow> dstep p (p\<lparr>main := Returned (Inr r)\<rparr>)"

definition dinit :: "process \<Rightarrow> bool" where
  "dinit p \<longleftrightarrow> cinit (gs p) \<and> onlogout p = 0 \<and> \<not> shutdownCh p \<and> \<not> sigCh p \<and> errCh p = None \<and> main p = Selecting"

subsection \<open>Why a process stops\<close>

text \<open>The credentials are gone for good: logged out, refused by the provider, or delivered to a successor.\<close>

definition spent :: "conf \<Rightarrow> bool" where
  "spent c \<longleftrightarrow> state (sess c) \<in> {StateReauthRequired, StateTierDenied} \<or> delivered c \<noteq> None"

lemma spent_step: "sound_conf c \<Longrightarrow> spent c \<Longrightarrow> cstep i c c' \<Longrightarrow> spent c'"
proof -
  assume a: "sound_conf c" "spent c" "cstep i c c'"
  then have inv: "token_inv c" by (simp add: sound_conf_def)
  from a(2) consider "state (sess c) \<in> {StateReauthRequired, StateTierDenied}" | d where "delivered c = Some d"
    unfolding spent_def by blast
  then show "spent c'"
  proof cases
    case 1
    from ended_step [OF inv this a(3)] show ?thesis unfolding spent_def by blast
  next
    case (2 d)
    from delivered_step [OF inv this a(3)] show ?thesis unfolding spent_def by blast
  qed
qed

lemma spent_empty: "sound_conf c \<Longrightarrow> spent c \<Longrightarrow> accessToken (sess c) = '''' \<and> refreshToken (sess c) = '''' \<and> state (sess c) \<noteq> StateReady"
  using token_invD(10) [of c] session_invD(2) [OF token_invD(1), of c]
  by (auto simp: spent_def sound_conf_def)

lemma notifies_spent:
  assumes "cstep i c c'" "0 < notifies (pcs c i) (pcs c' i)"
  shows "spent c'"
  using assms
  by (cases rule: cstep.cases) (auto simp: spent_def Clear_effect)

text \<open>A finished logout or delivery that the main goroutine has not reacted to is still announced.\<close>

definition announced :: "process \<Rightarrow> bool" where
  "announced p \<longleftrightarrow> 0 < onlogout p \<or> shutdownCh p"

definition done_here :: "conf \<Rightarrow> bool" where
  "done_here c \<longleftrightarrow> (\<exists>i. pcs c i = CDone) \<or> delivered c \<noteq> None"

lemma done_here_step:
  assumes "sound_conf c" "cstep i c c'" "done_here c'"
  shows "done_here c \<or> 0 < notifies (pcs c i) (pcs c' i)"
proof -
  have "pcs c j = CDone" if "pcs c' j = CDone" "j \<noteq> i" for j
    using that cstep_frame [OF assms(2)] by simp
  moreover have "pcs c' i = CDone \<or> delivered c' \<noteq> delivered c \<Longrightarrow> 0 < notifies (pcs c i) (pcs c' i)"
    using assms(2) by (cases rule: cstep.cases) auto
  ultimately show ?thesis
    using assms(3) unfolding done_here_def by metis
qed

definition process_inv :: "process \<Rightarrow> bool" where
  "process_inv p \<longleftrightarrow>
     sound_conf (gs p)
     \<and> (announced p \<or> main p = ShuttingDown ByLogout \<or> main p = Returned (Inr ByLogout) \<longrightarrow> spent (gs p))
     \<and> (main p = Selecting \<and> done_here (gs p) \<longrightarrow> announced p)"

lemma process_inv_step:
  assumes "process_inv p" "dstep p p'"
  shows "process_inv p'"
  using assms(2)
proof (cases rule: dstep.cases)
  case (request i c)
  let ?n = "notifies (pcs (gs p) i) (pcs c i)"
  have old: "sound_conf (gs p)"
      "announced p \<or> main p = ShuttingDown ByLogout \<or> main p = Returned (Inr ByLogout) \<Longrightarrow> spent (gs p)"
      "main p = Selecting \<Longrightarrow> done_here (gs p) \<Longrightarrow> announced p"
    using assms(1) unfolding process_inv_def by blast+
  have ann: "announced p' \<longleftrightarrow> announced p \<or> 0 < ?n" "gs p' = c" "main p' = main p"
    by (auto simp: request(1) announced_def)
  have "sound_conf c" by (rule sound_conf_step [OF old(1) request(3)])
  moreover have "spent c" if "announced p' \<or> main p = ShuttingDown ByLogout \<or> main p = Returned (Inr ByLogout)"
    using that spent_step [OF old(1) old(2) request(3)] notifies_spent [OF request(3)] unfolding ann by blast
  moreover have "announced p'" if "main p = Selecting" "done_here c"
    using that old(3) done_here_step [OF old(1) request(3)] unfolding ann by metis
  ultimately show ?thesis
    unfolding process_inv_def ann(2,3) by blast
qed (use assms(1) in \<open>auto simp: process_inv_def announced_def\<close>)

lemma process_inv_init: "dinit p \<Longrightarrow> process_inv p"
  by (auto simp: dinit_def process_inv_def announced_def done_here_def sound_conf_init) (simp_all add: cinit_def)

interpretation stopping: inductive_invariant dinit "\<lambda>_ :: unit. dstep" process_inv
  by unfold_locales (auto intro: process_inv_init process_inv_step)

text \<open>
  Property C7. A daemon that stops on request has nothing to lose. When the main goroutine has
  reacted to a logout or a handoff, in whatever order requests, signals and errors came and whatever
  is still in flight, the session holds no token and never will again.
\<close>

theorem stops_empty:
  assumes "reach dinit (\<lambda>_ :: unit. dstep) p" "main p = ShuttingDown ByLogout \<or> main p = Returned (Inr ByLogout)"
  shows "accessToken (sess (gs p)) = '''' \<and> refreshToken (sess (gs p)) = '''' \<and> state (sess (gs p)) \<noteq> StateReady
    \<and> (\<forall>c. reach (\<lambda>x. x = gs p) cstep c \<longrightarrow> refreshToken (sess c) = '''')"
proof -
  have inv: "sound_conf (gs p)" "spent (gs p)"
    using stopping.always [OF assms(1)] assms(2) unfolding process_inv_def by blast+
  have "sound_conf c \<and> spent c" if "reach (\<lambda>x. x = gs p) cstep c" for c
    using that
  proof induction
    case (init c)
    with inv show ?case by simp
  next
    case (step c i c')
    with sound_conf_step spent_step show ?case by blast
  qed
  then have "refreshToken (sess c) = ''''" if "reach (\<lambda>x. x = gs p) cstep c" for c
    using that spent_empty by simp
  with spent_empty [OF inv] show ?thesis by simp
qed

text \<open>
  A logout or a delivered handoff is not forgotten. As long as the main goroutine
  waits and a logout has been answered or a snapshot delivered, the shutdown can be taken at once, or after
  one step of the goroutine that announces it; nothing that happens in between withdraws it.
\<close>

theorem shutdown_not_lost:
  assumes "reach dinit (\<lambda>_ :: unit. dstep) p" "main p = Selecting" "pcs (gs p) i = CDone \<or> delivered (gs p) = Some d"
  shows "\<exists>p'. (p' = p \<or> dstep p p') \<and> gs p' = gs p
    \<and> dstep p' (p'\<lparr>shutdownCh := False, main := ShuttingDown ByLogout\<rparr>)"
proof -
  have "done_here (gs p)" using assms(3) by (auto simp: done_here_def)
  then have "announced p" using stopping.always [OF assms(1)] assms(2) by (simp add: process_inv_def)
  then consider "shutdownCh p" | n where "onlogout p = Suc n"
    by (auto simp: announced_def gr0_conv_Suc)
  then show ?thesis
  proof cases
    case 1
    with assms(2) show ?thesis by (blast intro: on_logout)
  next
    case (2 n)
    let ?p = "p\<lparr>onlogout := n, shutdownCh := True\<rparr>"
    have "dstep p ?p" using assms(2) 2 by (intro notify) simp_all
    moreover have "dstep ?p (?p\<lparr>shutdownCh := False, main := ShuttingDown ByLogout\<rparr>)"
      using assms(2) by (intro on_logout) simp_all
    ultimately show ?thesis by (intro exI [of _ ?p]) simp
  qed
qed

text \<open>A process whose one request was a logout.\<close>

definition demo_process :: "conf \<Rightarrow> nat \<Rightarrow> bool \<Rightarrow> main_pc \<Rightarrow> process" where
  "demo_process c n b m = \<lparr>gs = c, onlogout = n, shutdownCh = b, sigCh = False, errCh = None, main = m\<rparr>"

abbreviation demo_logged_out :: conf where
  "demo_logged_out \<equiv> demo_at (Clear demo_session) None None 0 CDone"

lemma demo_logged_out_reach: "reach dinit (\<lambda>_ :: unit. dstep) (demo_process demo_logged_out 1 False Selecting)"
proof -
  let ?r = "reach dinit (\<lambda>_ :: unit. dstep)" and ?p = "\<lambda>c n. demo_process c n False Selecting"
  have "?r (?p (demo_at demo_session None None 0 Idle) 0)"
    by (rule reach.init) (simp add: dinit_def demo_process_def demo_init)
  moreover have "dstep (?p (demo_at demo_session None None 0 Idle) 0) (?p (demo_at demo_session None None 0 CStart) 0)"
    using request [of "?p (demo_at demo_session None None 0 Idle) 0" 0 "demo_at demo_session None None 0 CStart"]
      start [of "demo_at demo_session None None 0 Idle" 0 CStart]
    by (simp add: demo_process_def)
  moreover have "dstep (?p (demo_at demo_session None None 0 CStart) 0) (?p demo_logged_out 1)"
    using request [of "?p (demo_at demo_session None None 0 CStart) 0" 0 demo_logged_out]
      c_clear [of "demo_at demo_session None None 0 CStart" 0]
    by (simp add: demo_process_def)
  ultimately show ?thesis by (blast intro: reach.step)
qed

theorem shutdown_not_lost_witness:
  "\<exists>p'. (p' = demo_process demo_logged_out 1 False Selecting \<or> dstep (demo_process demo_logged_out 1 False Selecting) p')
     \<and> gs p' = demo_logged_out \<and> dstep p' (p'\<lparr>shutdownCh := False, main := ShuttingDown ByLogout\<rparr>)"
  using shutdown_not_lost [OF demo_logged_out_reach, of 0] by (simp add: demo_process_def)

theorem stops_empty_witness:
  "\<exists>p. main p = ShuttingDown ByLogout \<and> reach dinit (\<lambda>_ :: unit. dstep) p \<and> refreshToken (sess (gs p)) = ''''"
proof -
  let ?p = "demo_process demo_logged_out 0 True Selecting"
  have "dstep (demo_process demo_logged_out 1 False Selecting) ?p"
    using notify [of "demo_process demo_logged_out 1 False Selecting" 0] by (simp add: demo_process_def)
  moreover have "dstep ?p (demo_process demo_logged_out 0 False (ShuttingDown ByLogout))"
    using on_logout [of ?p] by (simp add: demo_process_def)
  ultimately have r: "reach dinit (\<lambda>_ :: unit. dstep) (demo_process demo_logged_out 0 False (ShuttingDown ByLogout))"
    using demo_logged_out_reach by (blast intro: reach.step)
  have "refreshToken (sess (gs (demo_process demo_logged_out 0 False (ShuttingDown ByLogout)))) = ''''"
    using stops_empty [OF r] by (simp add: demo_process_def)
  with r show ?thesis by (intro exI [of _ "demo_process demo_logged_out 0 False (ShuttingDown ByLogout)"])
      (simp add: demo_process_def)
qed

end
