(* ===== verification/Succession.thy ===== *)
theory Succession
  imports Serve Daemon
begin

text \<open>
  Several processes in a row: a daemon, the successor that takes its session over, the successor's
  successor, and so on. Each process is a system of goroutines (theory \<open>Concurrency\<close>); a new one starts
  with the session that \<open>serve\<close> makes of the handoff response, in the foreground or through the pipe
  to a background process (theories \<open>Takeover\<close> and \<open>Serve\<close>). All processes go on running in any
  interleaving; an old one may still finish requests, or log out, while the new one serves.
\<close>

subsection \<open>From a snapshot to the next process\<close>

text \<open>A snapshot that the readers do not cut off and whose expiry RFC 3339 can express.\<close>

definition fits_wire :: "HandoffData \<Rightarrow> bool" where
  "fits_wire d \<longleftrightarrow>
     length (hd_AccessToken d) + length (hd_RefreshToken d) + length (hd_TokenEndpoint d) \<le> 170000
     \<and> (hd_HasExpiry d \<longrightarrow> wire_time (hd_ExpiresAt d))"

text \<open>The body of the response, as \<open>attemptHandoff\<close> reads it.\<close>

definition handoff_reply :: "HandoffData \<Rightarrow> string" where
  "handoff_reply d = limit_body (json_print (json_map (handoff_body d)))"

inductive successor :: "HandoffData \<Rightarrow> Session \<Rightarrow> bool" where
  foreground: "parseHandoffResponse t (handoff_reply d) = Inr h \<Longrightarrow>
    NewFromLogin (Some (handoffToLoginResult (h\<lparr>lh_Secret := sec\<rparr>))) t' = Inr x \<Longrightarrow> successor d x"
| background: "parseHandoffResponse t (handoff_reply d) = Inr h \<Longrightarrow>
    utf8_ok sec \<Longrightarrow> length (encode_handoff (h\<lparr>lh_Secret := sec\<rparr>)) \<le> 2 ^ 20 \<Longrightarrow>
    sessionFromHandoff (encode_handoff (h\<lparr>lh_Secret := sec\<rparr>)) t' = Inr (x, sec') \<Longrightarrow> successor d x"

lemma remaining_i64: "in_i64 (remaining d t)"
  using until_seconds_bounds(3) [of "hd_ExpiresAt d - hd_ExpiresAt d mod second" t]
  by (cases "0 < until_seconds (hd_ExpiresAt d - hd_ExpiresAt d mod second) t") (auto simp: remaining_def in_i64_def max_def)

lemma reply_parsed:
  assumes "typed_handoff d" "fits_wire d" "parseHandoffResponse t (handoff_reply d) = Inr h"
  shows "h = \<lparr>lh_Secret = '''', lh_AccessToken = hd_AccessToken d, lh_RefreshToken = hd_RefreshToken d,
      lh_TokenEndpoint = hd_TokenEndpoint d, lh_ExpiresIn = remaining d t\<rparr>"
proof -
  have wire: "handoff_wire d" using assms(1,2) by (simp add: handoff_wire_def typed_handoff_def fits_wire_def)
  have "pinned_url (hd_TokenEndpoint d)"
    using assms(3) unfolding parseHandoffResponse_def handoff_reply_def handoff_body_view [OF wire]
    by (simp add: validate_iff payload_view_def split: if_splits option.splits)
  then have "handoff_ok d" using assms(1) by (auto simp: handoff_ok_def typed_handoff_def)
  from parseHandoff_view [OF wire this, of t] assms(1,3) show ?thesis
    by (simp add: typed_handoff_def handoff_reply_def)
qed

lemma successor_session:
  assumes "successor d x" "typed_handoff d" "fits_wire d"
  shows "session_inv x" "typed_session x" "state x = StateReady" "accessToken x = hd_AccessToken d"
    "refreshToken x = hd_RefreshToken d" "tokenEndpoint x = hd_TokenEndpoint d"
proof -
  have start: "session_inv x \<and> typed_session x \<and> state x = StateReady \<and> accessToken x = hd_AccessToken d
      \<and> refreshToken x = hd_RefreshToken d \<and> tokenEndpoint x = hd_TokenEndpoint d"
    if "parseHandoffResponse t (handoff_reply d) = Inr h"
      "NewFromLogin (Some (handoffToLoginResult (h\<lparr>lh_Secret := sec\<rparr>))) t' = Inr x" for t h sec t'
    using that(2) reply_parsed [OF assms(2,3) that(1)] assms(2)
    by (simp add: NewFromLogin_handoff session_inv_def typed_session_def typed_handoff_def)
  from assms(1) have "session_inv x \<and> typed_session x \<and> state x = StateReady \<and> accessToken x = hd_AccessToken d
      \<and> refreshToken x = hd_RefreshToken d \<and> tokenEndpoint x = hd_TokenEndpoint d"
  proof cases
    case (foreground t h sec t')
    then show ?thesis by (rule start)
  next
    case (background t h sec t' sec')
    note h = reply_parsed [OF assms(2,3) background(1)]
    have "sessionFromHandoff (encode_handoff (h\<lparr>lh_Secret := sec\<rparr>)) t' =
        (if blank sec then Inl HandoffMissingSecret
         else (case NewFromLogin (Some (handoffToLoginResult (h\<lparr>lh_Secret := sec\<rparr>))) t' of
            Inl e \<Rightarrow> Inl (SessionErr e) | Inr s \<Rightarrow> Inr (s, trim_space sec)))"
      using decode_handoff [of "h\<lparr>lh_Secret := sec\<rparr>"] background(2,3) h assms(2) remaining_i64
      by (simp add: sessionFromHandoff_eq typed_handoff_def)
    with background(4) have "NewFromLogin (Some (handoffToLoginResult (h\<lparr>lh_Secret := sec\<rparr>))) t' = Inr x"
      by (auto split: if_splits sum.splits)
    with background(1) show ?thesis by (rule start)
  qed
  then show "session_inv x" "typed_session x" "state x = StateReady" "accessToken x = hd_AccessToken d"
    "refreshToken x = hd_RefreshToken d" "tokenEndpoint x = hd_TokenEndpoint d" by auto
qed

subsection \<open>The chain of processes\<close>

definition fresh_process :: "Session \<Rightarrow> conf" where
  "fresh_process x =
     \<lparr>sess = x, opMu = None, sf_m = None, sf_val = Map.empty, sf_next = 0, issued = refreshToken x,
      delivered = None, pcs = (\<lambda>_. Idle)\<rparr>"

text \<open>The newest process comes first. Only the process that last received the session can hand it on.\<close>

inductive chain_step :: "conf list \<Rightarrow> conf list \<Rightarrow> bool" where
  run: "k < length cs \<Longrightarrow> cstep i (cs ! k) c \<Longrightarrow> chain_step cs (cs[k := c])"
| takeover: "delivered c = Some d \<Longrightarrow> fits_wire d \<Longrightarrow> successor d x \<Longrightarrow> chain_step (c # cs) (fresh_process x # c # cs)"

definition chain_init :: "conf list \<Rightarrow> bool" where
  "chain_init cs \<longleftrightarrow> (\<exists>c. cs = [c] \<and> cinit c)"

definition chain_inv :: "conf list \<Rightarrow> bool" where
  "chain_inv cs \<longleftrightarrow> cs \<noteq> [] \<and> list_all sound_conf cs \<and> list_all (\<lambda>c. delivered c \<noteq> None) (tl cs)"

lemma sound_fresh:
  assumes "successor d x" "typed_handoff d" "fits_wire d"
  shows "sound_conf (fresh_process x)" "issued (fresh_process x) = hd_RefreshToken d"
proof -
  note x = successor_session [OF assms]
  have "cinit (fresh_process x)" using x(1,2,3) by (simp add: cinit_def fresh_process_def)
  then show "sound_conf (fresh_process x)" by (rule sound_conf_init)
  show "issued (fresh_process x) = hd_RefreshToken d" using x(5) by (simp add: fresh_process_def)
qed

lemma tl_nth_pred: "0 < j \<Longrightarrow> j < length xs \<Longrightarrow> tl xs ! (j - 1) = xs ! j"
  by (cases j) (simp_all add: nth_tl)

lemma list_all_update: "list_all Q xs \<Longrightarrow> Q x \<Longrightarrow> list_all Q (xs[k := x])"
  by (induction xs arbitrary: k) (auto split: nat.splits)

lemma chain_inv_init: "chain_init cs \<Longrightarrow> chain_inv cs"
  by (auto simp: chain_init_def chain_inv_def sound_conf_init)

lemma chain_inv_step:
  assumes "chain_inv cs" "chain_step cs cs'"
  shows "chain_inv cs'"
  using assms(2)
proof cases
  case (run k i c)
  have sound: "sound_conf (cs ! k)" using assms(1) run(2) by (simp add: chain_inv_def list_all_length)
  then have "sound_conf c" by (rule sound_conf_step [OF _ run(3)])
  moreover have "delivered c \<noteq> None" if k: "0 < k"
  proof -
    have "delivered (tl cs ! (k - 1)) \<noteq> None"
      using assms(1) run(2) that by (simp add: chain_inv_def list_all_length)
    then obtain d where "delivered (cs ! k) = Some d"
      unfolding tl_nth_pred [OF k run(2)] by blast
    with sound delivered_step [OF _ _ run(3)] show ?thesis by (auto simp: sound_conf_def)
  qed
  ultimately show ?thesis
    using assms(1) run(1)
    by (cases cs; cases k) (auto simp: chain_inv_def intro: list_all_update)
next
  case (takeover c d x cs0)
  have "sound_conf c" using assms(1) takeover(1) by (simp add: chain_inv_def)
  then have "typed_handoff d" using takeover(3) typed_confD(4) by (auto simp: sound_conf_def)
  from sound_fresh(1) [OF takeover(5) this takeover(4)] assms(1) takeover(1,2,3) show ?thesis
    by (simp add: chain_inv_def)
qed

interpretation chain: inductive_invariant chain_init "\<lambda>_ :: unit. chain_step" chain_inv
  by unfold_locales (auto intro: chain_inv_init chain_inv_step)

text \<open>A process that is not the newest is out of the game.\<close>

lemma chain_old:
  assumes "chain_inv cs" "0 < j" "j < length cs"
  shows "accessToken (sess (cs ! j)) = '''' \<and> refreshToken (sess (cs ! j)) = '''' \<and> \<not> refreshing (pcs (cs ! j) i)
    \<and> snapshot (pcs (cs ! j) i) = None"
proof -
  have "delivered (tl cs ! (j - 1)) \<noteq> None" "sound_conf (cs ! j)"
    using assms by (simp_all add: chain_inv_def list_all_length)
  then obtain d where "token_inv (cs ! j)" "delivered (cs ! j) = Some d"
    unfolding tl_nth_pred [OF assms(2,3)] sound_conf_def by blast
  from token_invD(10) [OF this] session_invD(2) [OF token_invD(1) [OF this(1)]] show ?thesis by simp
qed

text \<open>
  Property C2. One owner over all processes. Along every chain of takeovers, a refresh is only made by the newest
  process, with the refresh token that process received last; every earlier process holds no token, has no
  refresh and no snapshot under way, and this while it still runs.
\<close>

theorem chain_single_owner:
  assumes "reach chain_init (\<lambda>_ :: unit. chain_step) cs" "k < length cs" "pcs (cs ! k) i = RCall c ep rt"
  shows "k = 0 \<and> rt = issued (cs ! 0) \<and> delivered (cs ! 0) = None
    \<and> (\<forall>j. 0 < j \<and> j < length cs \<longrightarrow> accessToken (sess (cs ! j)) = '''' \<and> refreshToken (sess (cs ! j)) = ''''
         \<and> (\<forall>i. \<not> refreshing (pcs (cs ! j) i) \<and> snapshot (pcs (cs ! j) i) = None))"
proof -
  have inv: "chain_inv cs" by (rule chain.always [OF assms(1)])
  have k: "k = 0"
    using chain_old [OF inv _ assms(2), of i] assms(3) by (cases k) auto
  have t: "token_inv (cs ! 0)"
    using inv assms(2) k by (simp add: chain_inv_def list_all_length sound_conf_def)
  have "rt = issued (cs ! 0)" using token_invD(3) [OF t, of i] assms(3) k by simp
  moreover have "delivered (cs ! 0) = None" using token_invD(8) [OF t, of i] assms(3) k by simp
  ultimately show ?thesis using k chain_old [OF inv] by blast
qed

text \<open>A chain of one process.\<close>

lemma chain_of_one: "reach cinit cstep c \<Longrightarrow> reach chain_init (\<lambda>_ :: unit. chain_step) [c]"
proof (induction rule: reach.induct)
  case (init c)
  then show ?case by (intro reach.init) (simp add: chain_init_def)
next
  case (step c i c')
  have "chain_step [c] [c']" using run [of 0 "[c]" i c'] step(2) by simp
  with step(3) show ?case by (rule reach.step)
qed

text \<open>A process that has delivered its snapshot, and its successor.\<close>

abbreviation demo_delivered :: conf where
  "demo_delivered \<equiv> goto 0 HDone (demo_writing\<lparr>delivered := Some demo_data\<rparr>)"

lemma demo_delivered_reach: "reach cinit cstep demo_delivered"
  by (rule reach.step [OF demo_writing_reach h_sent]) simp_all

lemma demo_data_fits: "fits_wire demo_data" "typed_handoff demo_data" "handoff_ok demo_data"
proof -
  have "pinned_url DefaultTokenURL" by simp
  moreover have "list_all is_ascii DefaultTokenURL"
    by (simp add: DefaultTokenURL_def Issuer_def is_ascii_def byte_def)
  ultimately show "typed_handoff demo_data" "handoff_ok demo_data"
    by (simp_all add: typed_handoff_def handoff_ok_def demo_data_def utf8_ok_ascii is_ascii_def byte_def)
      (simp add: string_eval)
  show "fits_wire demo_data"
    by (simp add: fits_wire_def demo_data_def DefaultTokenURL_def Issuer_def wire_time_def second_def)
qed

lemma demo_successor: "\<exists>x. successor demo_data x"
proof -
  have "handoff_wire demo_data"
    using demo_data_fits(1,2) by (simp add: handoff_wire_def typed_handoff_def fits_wire_def)
  from parseHandoff_view [OF this demo_data_fits(3), of 0] demo_data_fits(2)
  obtain h where h: "parseHandoffResponse 0 (handoff_reply demo_data) = Inr h" "lh_AccessToken h = ''at''"
      "lh_RefreshToken h = ''rt''" "lh_TokenEndpoint h = DefaultTokenURL"
    by (simp add: typed_handoff_def handoff_reply_def) (simp add: demo_data_def)
  then obtain x where "NewFromLogin (Some (handoffToLoginResult (h\<lparr>lh_Secret := ''s''\<rparr>))) 0 = Inr x"
    by (simp add: NewFromLogin_handoff)
  with foreground [OF h(1)] show ?thesis by blast
qed

lemma demo_chain:
  obtains x where "reach chain_init (\<lambda>_ :: unit. chain_step) [demo_at x None None 0 Idle, demo_delivered]"
    "fresh_process x = demo_at x None None 0 Idle" "state x = StateReady" "refreshToken x = ''rt''"
proof -
  obtain x where x: "successor demo_data x" using demo_successor by blast
  note s = successor_session [OF x demo_data_fits(2,1)]
  have rt: "refreshToken x = ''rt''" using s(5) by (simp add: demo_data_def)
  then have f: "fresh_process x = demo_at x None None 0 Idle"
    by (simp add: fresh_process_def demo_at_def demo_conf_def fun_upd_idem)
  have "chain_step [demo_delivered] [fresh_process x, demo_delivered]"
    using demo_data_fits(1) x by (intro takeover) simp_all
  then have "reach chain_init (\<lambda>_ :: unit. chain_step) [fresh_process x, demo_delivered]"
    by (rule reach.step [OF chain_of_one [OF demo_delivered_reach]])
  with that s(3) rt f show thesis by simp
qed

text \<open>The successor refreshes while the old process still runs.\<close>

theorem chain_single_owner_witness:
  "\<exists>c ep. reach chain_init (\<lambda>_ :: unit. chain_step) [c, demo_delivered] \<and> pcs c 0 = RCall 0 ep ''rt''
     \<and> issued c = ''rt'' \<and> refreshToken (sess demo_delivered) = ''''"
proof -
  obtain x where x: "reach chain_init (\<lambda>_ :: unit. chain_step) [demo_at x None None 0 Idle, demo_delivered]"
    "state x = StateReady" "refreshToken x = ''rt''" by (rule demo_chain)
  let ?Q = "\<lambda>c. reach chain_init (\<lambda>_ :: unit. chain_step) [c, demo_delivered]"
  let ?c = "demo_at x (Some 0) (Some 0) 1 (RCall 0 (tokenEndpoint x) ''rt'')"
  have step: "?Q c'" if "?Q c" "cstep i c c'" for i c c'
    using reach.step [OF that(1)] run [of 0 "[c, demo_delivered]" i c'] that(2) by simp
  have "check_token (time_add (expiresAt x) (- RefreshSkew)) x = None"
    using x(2) by (simp add: check_token_def accessStillFreshLocked_def)
  from first_call [of ?Q, OF step x(1) this] x(3) have r: "?Q ?c" by simp
  have "''rt'' = issued ?c \<and> refreshToken (sess demo_delivered) = ''''"
    using chain_single_owner [OF r, of 0 0 0 "tokenEndpoint x" "''rt''"] by auto
  with r show ?thesis by (intro exI [of _ ?c] exI [of _ "tokenEndpoint x"]) simp
qed

text \<open>
  Property C4. A takeover passes on the current token. The new process starts ready, with the refresh token
  that was received last along the whole chain, unchanged by the JSON of the response and of the pipe,
  and with the access token and the endpoint of the delivered snapshot.
\<close>

theorem chain_takeover:
  assumes "reach chain_init (\<lambda>_ :: unit. chain_step) cs" "chain_step cs cs'" "length cs < length cs'"
  shows "state (sess (hd cs')) = StateReady \<and> refreshToken (sess (hd cs')) = issued (hd cs) \<and> issued (hd cs') = issued (hd cs)
    \<and> (\<exists>d. delivered (hd cs) = Some d \<and> accessToken (sess (hd cs')) = hd_AccessToken d
         \<and> tokenEndpoint (sess (hd cs')) = hd_TokenEndpoint d)
    \<and> refreshToken (sess (hd cs)) = ''''"
  using assms(2)
proof cases
  case (run k i c)
  with assms(3) show ?thesis by simp
next
  case (takeover c d x cs0)
  have "sound_conf c" using chain.always [OF assms(1)] takeover(1) by (simp add: chain_inv_def)
  then have c: "token_inv c" "typed_handoff d" using takeover(3) typed_confD(4) by (auto simp: sound_conf_def)
  note x = successor_session [OF takeover(5) c(2) takeover(4)]
  have "hd_RefreshToken d = issued c" "state (sess c) \<noteq> StateReady"
    using token_invD(10) [OF c(1) takeover(3)] by blast+
  with x takeover(1,2,3) session_invD(2) [OF token_invD(1) [OF c(1)]] show ?thesis
    by (simp add: fresh_process_def)
qed

theorem chain_takeover_witness:
  "\<exists>x. reach chain_init (\<lambda>_ :: unit. chain_step) [fresh_process x, demo_delivered]
     \<and> state x = StateReady \<and> refreshToken x = ''rt'' \<and> refreshToken (sess demo_delivered) = ''''"
proof -
  obtain x where x: "successor demo_data x" using demo_successor by blast
  have step: "chain_step [demo_delivered] [fresh_process x, demo_delivered]"
    by (rule takeover [OF _ demo_data_fits(1) x]) simp
  note one = chain_of_one [OF demo_delivered_reach]
  have s: "sess (fresh_process x) = x" by (simp add: fresh_process_def)
  have "length [demo_delivered] < length [fresh_process x, demo_delivered]" by simp
  note t = chain_takeover [OF one step this, unfolded list.sel s]
  have "issued demo_delivered = ''rt''" by simp
  with t have "state x = StateReady" "refreshToken x = ''rt''" by simp_all
  moreover have "refreshToken (sess demo_delivered) = ''''" using t by (elim conjE)
  moreover have "reach chain_init (\<lambda>_ :: unit. chain_step) [fresh_process x, demo_delivered]"
    by (rule reach.step [OF one]) (rule step)
  ultimately show ?thesis by blast
qed

end
