(* ===== verification/Cli.thy ===== *)
theory Cli
  imports Serve
begin

text \<open>
  \<^verbatim>\<open>cmd/xai-oauth/remote.go\<close>, \<^verbatim>\<open>flags.go\<close> and \<^verbatim>\<open>main.go\<close>: the control commands on top of the SDK, and
  the dispatch of the command line. The timeout of a command is part of the socket call.
\<close>

datatype cli_out = Stdout string | Stderr string | StderrQuoted string string | StderrErr client_err

datatype cli_err =
    CliFlag flag_error | CliArgs "string list" | SecretRequired | CliClient client_err | DaemonNotReachable
  | CliServe serve_err | MissingCommand | UnknownCommand string

definition requireSecret :: "environ \<Rightarrow> cli_err + string" where
  "requireSecret e =
     (let secret = trim_space (getenv e EnvSecret) in if secret = '''' then Inl SecretRequired else Inr secret)"

text \<open>The flags common to the control commands: the socket only.\<close>

definition parse_common :: "environ \<Rightarrow> string list \<Rightarrow> cli_err + string" where
  "parse_common e args =
     (case flag_parse [Inl (''socket'', \<lambda>v s. v)] args (defaultSocket (getenv e)) of
        Inl err \<Rightarrow> Inl (CliFlag err)
      | Inr (sock, rest) \<Rightarrow> if rest \<noteq> [] then Inl (CliArgs rest) else Inr sock)"

definition daemonClient :: "environ \<Rightarrow> string \<Rightarrow> cli_err + Client" where
  "daemonClient e socket =
     (case New (getenv e) (trim_space socket) of Inl err \<Rightarrow> Inl (CliClient err) | Inr c \<Rightarrow> Inr c)"

text \<open>What the three commands begin with.\<close>

definition command_client :: "environ \<Rightarrow> string list \<Rightarrow> cli_err + Client" where
  "command_client e args =
     (case parse_common e args of
        Inl err \<Rightarrow> Inl err
      | Inr sock \<Rightarrow> (case requireSecret e of Inl err \<Rightarrow> Inl err | Inr _ \<Rightarrow> daemonClient e sock))"

definition status_lines :: "ClientStatus \<Rightarrow> cli_out list" where
  "status_lines st =
     [Stdout (''state:  '' @ cs_State st)]
     @ (if cs_HasExpiry st \<and> cs_ExpiresAt st \<noteq> 0 then [Stdout (''expires_at: '' @ rfc3339_format (cs_ExpiresAt st))] else [])
     @ (if cs_LastError st \<noteq> '''' then [Stdout (''last_error: '' @ cs_LastError st)] else [])"

definition cmdStatus ::
  "(string \<Rightarrow> 'w unix_call) \<Rightarrow> environ \<Rightarrow> string list \<Rightarrow> 'w \<Rightarrow> cli_err option \<times> cli_out list \<times> 'w" where
  "cmdStatus call e args w =
     (case command_client e args of
        Inl err \<Rightarrow> (Some err, [], w)
      | Inr c \<Rightarrow>
          (case Health (call (cl_socket c)) (Some c) w of
             (Some err, w1) \<Rightarrow>
               (Some DaemonNotReachable,
                [Stdout ''daemon: down'', Stderr (''  socket: '' @ SocketPath (Some c)), StderrErr err], w1)
           | (None, w1) \<Rightarrow>
               (let up = [Stdout ''daemon: up'', Stdout (''socket: '' @ SocketPath (Some c))] in
                (case client_Ready (call (cl_socket c)) (Some c) w1 of
                   (Inl err, w2) \<Rightarrow> (Some (CliClient err), up, w2)
                 | (Inr (ready, st), w2) \<Rightarrow>
                     (let said = up @ [Stdout (if ready then ''ready:  true'' else ''ready:  false ('' @ st @ '')'')] in
                      (case client_Status (call (cl_socket c)) (Some c) w2 of
                         (Inl err, w3) \<Rightarrow> (Some (CliClient err), said, w3)
                       | (Inr s, w3) \<Rightarrow> (None, said @ status_lines s, w3)))))))"

definition cmdToken ::
  "(string \<Rightarrow> 'w unix_call) \<Rightarrow> environ \<Rightarrow> string list \<Rightarrow> 'w \<Rightarrow> cli_err option \<times> cli_out list \<times> 'w" where
  "cmdToken call e args w =
     (case command_client e args of
        Inl err \<Rightarrow> (Some err, [], w)
      | Inr c \<Rightarrow>
          (case Get (call (cl_socket c)) (Some c) w of
             (Inl err, w1) \<Rightarrow> (Some (CliClient err), [], w1)
           | (Inr tok, w1) \<Rightarrow> (None, [Stdout tok], w1)))"

definition cmdLogout ::
  "(string \<Rightarrow> 'w unix_call) \<Rightarrow> environ \<Rightarrow> string list \<Rightarrow> 'w \<Rightarrow> cli_err option \<times> cli_out list \<times> 'w" where
  "cmdLogout call e args w =
     (case command_client e args of
        Inl err \<Rightarrow> (Some err, [], w)
      | Inr c \<Rightarrow>
          (case client_Logout (call (cl_socket c)) (Some c) w of
             (Some err, w1) \<Rightarrow> (Some (CliClient err), [], w1)
           | (None, w1) \<Rightarrow> (None, [Stderr ''logged out; daemon is shutting down''], w1)))"

definition version :: string where
  "version = ''dev''"

definition serve_out :: "out list \<Rightarrow> cli_out list" where
  "serve_out os = map (\<lambda>l. case l of Line s \<Rightarrow> Stderr s | QLine p s \<Rightarrow> StderrQuoted p s) os"

text \<open>
  The usage text, line by line as it is printed: \<^verbatim>\<open>Fprintf\<close> makes one percent sign of two. The bytes in
  hexadecimal are a dash, an ellipsis and a backslash.
\<close>

definition usage_lines :: "string list" where
  "usage_lines =
    [''xai-oauth '' @ [CHR 0xE2, CHR 0x80, CHR 0x94] @ '' local xAI OAuth2 personal token daemon (Unix socket + HTTP)'',
     '''',
     ''Usage:'',
     ''  xai-oauth serve   [flags]   take over a running daemon (no re-login) or'',
     ''                              device login, then daemonize (background by default)'',
     ''  xai-oauth status  [flags]   query running daemon (needs XAI_OAUTH_SECRET)'',
     ''  xai-oauth token   [flags]   print access_token (needs XAI_OAUTH_SECRET)'',
     ''  xai-oauth logout  [flags]   clear session and stop daemon (needs XAI_OAUTH_SECRET)'',
     ''  xai-oauth version'',
     '''',
     ''Credentials live only in the serve process (memory). After successful login,'',
     ''serve detaches so the terminal is free. Control commands talk over'',
     ''HTTP-on-Unix-socket. Restart serve after logout/reauth.'',
     '''',
     ''Local API secret is env-only: XAI_OAUTH_SECRET (no --secret flag).'',
     ''serve generates one if unset and prints it once '' @ [CHR 0xE2, CHR 0x80, CHR 0x94] @ '' export it for status/token/logout.'',
     ''Operator-provided secrets must be at least 16 characters.'',
     '''',
     ''Flags (per command):'',
     ''  --socket  path (default: $XDG_RUNTIME_DIR/'' @ [CHR 0xE2, CHR 0x80, CHR 0xA6] @ '', else ~/.xai-oauth/'' @ [CHR 0xE2, CHR 0x80, CHR 0xA6] @ '', else $TMPDIR/'' @ [CHR 0xE2, CHR 0x80, CHR 0xA6] @ '';'',
     ''            Windows: %LOCALAPPDATA%'' @ [CHR 0x5C] @ ''xai-oauth'' @ [CHR 0x5C] @ ''daemon.sock)'',
     ''            env: XAI_OAUTH_SOCKET'',
     ''  --no-browser   serve: do not open the device-login browser (default: try open)'',
     ''  --foreground   serve: stay in the terminal after login (do not background)'',
     '''',
     ''SDK: github.com/fun7257/xai-oauth/client'',
     ''  // export XAI_OAUTH_SECRET='' @ [CHR 0xE2, CHR 0x80, CHR 0xA6] @ ''  (required; only source for secret)'',
     ''  c, _ := client.New(client.Config{})'',
     ''  tok, _ := c.Get(ctx)'']"

definition printUsage :: cli_out where
  "printUsage = Stderr (concat (map (\<lambda>l. l @ [CHR 0x0A]) usage_lines))"

text \<open>The whole command line; the exit status is 0 exactly when there is no error.\<close>

definition run ::
  "nat \<Rightarrow> 'n host \<Rightarrow> string list \<Rightarrow> string \<Rightarrow> environ \<Rightarrow> string list \<Rightarrow> 'n world
     \<Rightarrow> (cli_err option \<times> cli_out list \<times> 'n world) option"
where
  "run fuel ho environ_list stdin e args w =
     (case args of
        [] \<Rightarrow> Some (Some MissingCommand, [printUsage], w)
      | cmd # rest \<Rightarrow>
          if cmd = ''serve'' then
            (case cmdServe fuel ho environ_list stdin rest e w of
               None \<Rightarrow> None
             | Some r \<Rightarrow> Some (map_option CliServe (se_Error r), serve_out (se_Out r), se_World r))
          else if cmd = ''status'' then Some (cmdStatus (ho_call ho) e rest w)
          else if cmd = ''token'' then Some (cmdToken (ho_call ho) e rest w)
          else if cmd = ''logout'' then Some (cmdLogout (ho_call ho) e rest w)
          else if cmd \<in> {''version'', ''-version'', ''--version''} then Some (None, [Stdout version], w)
          else if cmd \<in> {''help'', ''-h'', ''--help''} then Some (None, [printUsage], w)
          else Some (Some (UnknownCommand cmd), [printUsage], w))"

definition exit_status :: "cli_err option \<Rightarrow> int" where
  "exit_status r = (if r = None then 0 else 1)"

lemma command_client_secret:
  "command_client e args = Inr c \<Longrightarrow> cl_secret c = trim_space (getenv e EnvSecret) \<and> cl_secret c \<noteq> ''''"
  by (auto simp: command_client_def daemonClient_def New_def Let_def split: sum.splits if_splits)

text \<open>
  Property C38. \<open>xai-oauth token\<close> from end to end. With the daemon's secret in the environment the command prints
  exactly the token that the daemon's session gives, and nothing else, or prints nothing and fails
  with the error that stands for the session's; without a secret it does not even call the daemon.
\<close>

theorem cmdToken_end_to_end:
  assumes "good_secret (trim_space (getenv e EnvSecret))" "secretEqual (trim_space (getenv e EnvSecret)) (srv_Secret srv)"
    and "command_client e args = Inr c"
    and "GetAccessToken refresh now (srv_Session srv) w = (r, s, w')"
    and "\<And>tok. r = Inr tok \<Longrightarrow> utf8_ok tok \<and> \<not> blank tok \<and> length tok \<le> 170000"
  shows "cmdToken (\<lambda>_. daemon refresh now) e args (srv, w) =
      (case r of
         Inr tok \<Rightarrow> (None, [Stdout tok], (srv\<lparr>srv_Session := s\<rparr>, w'))
       | Inl err \<Rightarrow> (Some (CliClient (client_view err)), [], (srv\<lparr>srv_Session := s\<rparr>, w')))
    \<and> cmdToken (\<lambda>_. daemon refresh now) (e(EnvSecret := None)) args (srv, w) \<in> {(Some SecretRequired, [], (srv, w))}
        \<union> {(Some err, [], (srv, w)) | err. parse_common (e(EnvSecret := None)) args = Inl err}"
proof
  have a: "authentic c srv"
    using command_client_secret [OF assms(3)] assms(1,2) by (simp add: authentic_def good_secret_def)
  show "cmdToken (\<lambda>_. daemon refresh now) e args (srv, w) =
      (case r of
         Inr tok \<Rightarrow> (None, [Stdout tok], (srv\<lparr>srv_Session := s\<rparr>, w'))
       | Inl err \<Rightarrow> (Some (CliClient (client_view err)), [], (srv\<lparr>srv_Session := s\<rparr>, w')))"
  proof (cases r)
    case (Inl err)
    with Get_daemon_err [OF a assms(4) [unfolded Inl]] assms(3) show ?thesis by (simp add: cmdToken_def)
  next
    case (Inr tok)
    with Get_daemon_ok [OF a assms(4) [unfolded Inr]] assms(3) assms(5) [OF Inr] show ?thesis by (simp add: cmdToken_def)
  qed
  show "cmdToken (\<lambda>_. daemon refresh now) (e(EnvSecret := None)) args (srv, w) \<in> {(Some SecretRequired, [], (srv, w))}
        \<union> {(Some err, [], (srv, w)) | err. parse_common (e(EnvSecret := None)) args = Inl err}"
    by (auto simp: cmdToken_def command_client_def requireSecret_def getenv_def split: sum.splits)
qed

definition demo_environ :: environ where
  "demo_environ = [EnvSecret \<mapsto> '' abc '', EnvSocket \<mapsto> ''/run/x/d.sock'']"

lemma demo_command_client:
  "trim_space (getenv demo_environ EnvSecret) = ''abc''"
  "command_client demo_environ [] = Inr \<lparr>cl_secret = ''abc'', cl_socket = ''/run/x/d.sock''\<rparr>"
proof -
  have s: "trim_space '' abc '' = ''abc''" "trim_space ''/run/x/d.sock'' = ''/run/x/d.sock''" by (simp_all add: string_eval)
  have n: "EnvSecret \<noteq> EnvSocket" by (simp add: EnvSecret_def EnvSocket_def)
  have g: "getenv demo_environ EnvSecret = '' abc ''" "getenv demo_environ EnvSocket = ''/run/x/d.sock''"
    using n by (simp_all add: getenv_def demo_environ_def)
  show "trim_space (getenv demo_environ EnvSecret) = ''abc''" by (simp only: g s)
  have p: "path_clean ''/run/x/d.sock'' = ''/run/x/d.sock''" using demo_path(1) by (simp only: s)
  show "command_client demo_environ [] = Inr \<lparr>cl_secret = ''abc'', cl_socket = ''/run/x/d.sock''\<rparr>"
    by (simp add: command_client_def parse_common_def defaultSocket_def requireSecret_def daemonClient_def New_def g s p)
qed

theorem cmdToken_end_to_end_witness:
  "cmdToken (\<lambda>_. daemon (Refresh demo_env) (Now demo_env)) demo_environ [] (demo_host, stub_world 0)
    = (None, [Stdout ''at''], (demo_host\<lparr>srv_Session := demo_session\<rparr>, stub_world 0))"
proof -
  have s: "good_secret (trim_space (getenv demo_environ EnvSecret))" "secretEqual (trim_space (getenv demo_environ EnvSecret)) (srv_Secret demo_host)"
    unfolding demo_command_client demo_host_simps by (rule demo_good_secret secretEqual_abc)+
  have "utf8_ok ''at'' \<and> \<not> blank ''at'' \<and> length ''at'' \<le> 170000" by (simp add: flat_eval string_eval)
  then show ?thesis
    using cmdToken_end_to_end [OF s demo_command_client(2) demo_token] by simp
qed

end
