(* ===== verification/End_to_End.thy ===== *)
theory End_to_End
  imports Local_API
begin

text \<open>
  From the identity provider to a caller of the SDK: the login, the session it makes, the requests to the
  daemon and the JSON in between, with no assumption about what the provider sends. That the data
  survives every encoding follows from its type (theory \<open>Typed\<close>).
\<close>

subsection \<open>Tokens\<close>

text \<open>
  Property C11. A call of \<open>Get\<close> is a call of the daemon's \<open>GetAccessToken\<close>. With the right secret, and
  against the real refresh with any provider behind it, the SDK returns exactly the token the session
  returned, through JSON and HTTP, or the sentinel that stands for the error of the session; and the
  daemon's session and world are those after that one call, with the session still well-typed. The only
  bound is the megabyte that a client reads.
\<close>

theorem Get_from_daemon:
  assumes "authentic c srv" "typed_session (srv_Session srv)"
    and "GetAccessToken (Refresh env) (Now env) (srv_Session srv) w = (r, s, w')"
    and "\<And>tok. r = Inr tok \<Longrightarrow> length tok \<le> 170000"
  shows "Get (daemon (Refresh env) (Now env)) (Some c) (srv, w)
      = ((case r of Inr tok \<Rightarrow> Inr tok | Inl e \<Rightarrow> Inl (client_view e)), (srv\<lparr>srv_Session := s\<rparr>, w'))
    \<and> typed_session s"
proof -
  from typed_idp.GetAccessToken_typed [OF assms(2,3)] have t: "typed_session s" "typed_result r" by simp_all
  show ?thesis
  proof (cases r)
    case (Inl e)
    with Get_daemon_err [OF assms(1) assms(3) [unfolded Inl]] t show ?thesis by simp
  next
    case (Inr tok)
    with t have "utf8_ok tok" "\<not> blank tok" by (simp_all add: typed_result_def)
    with Get_daemon_ok [OF assms(1) assms(3) [unfolded Inr]] assms(4) [OF Inr] t Inr show ?thesis by simp
  qed
qed

subsection \<open>A login\<close>

lemma login_session:
  assumes "DeviceLogin fuel env openBrowser w = Some (Inr lr, printed, w1)"
  obtains s where "NewFromLogin (Some lr) t = Inr s" "session_inv s" "typed_session s" "state s = StateReady"
    "accessToken s = AccessToken (Tokens lr)" "refreshToken s = RefreshToken (Tokens lr)"
proof -
  have "usable (Tokens lr)" "pinned_url (TokenEndpoint (lr_Discovery lr))"
    using DeviceLogin_ok [OF assms] by simp_all
  then obtain s where s: "NewFromLogin (Some lr) t = Inr s"
    using usable_nonempty by (simp add: NewFromLogin_Inr)
  then show thesis
    using that [OF s] inv_NewFromLogin [OF s] typed_NewFromLogin [OF s DeviceLogin_typed [OF assms]]
    by (simp add: NewFromLogin_Inr)
qed

lemma GetAccessToken_fresh:
  "state s = StateReady \<Longrightarrow> accessStillFreshLocked (now w) s \<Longrightarrow>
     GetAccessToken refresh now s w = (Inr (accessToken s), s, w)"
  by (simp add: GetAccessToken_def check_token_def)

text \<open>
  Property C13. From the provider to the caller. Whatever the identity provider sent and however the login
  went, a login that succeeds makes a session that satisfies the invariant and is well-typed, and while its
  token is fresh a client of that daemon gets exactly the access token the provider issued, without any
  request to the provider and with the session unchanged.
\<close>

theorem login_to_client:
  assumes "DeviceLogin fuel env openBrowser w = Some (Inr lr, printed, w1)" "authentic c srv"
    and "length (AccessToken (Tokens lr)) \<le> 170000"
  shows "\<exists>s. NewFromLogin (Some lr) (Now env w1) = Inr s \<and> session_inv s \<and> typed_session s
    \<and> (accessStillFreshLocked (Now env w2) s \<longrightarrow>
         Get (daemon (Refresh env) (Now env)) (Some c) (srv\<lparr>srv_Session := s\<rparr>, w2)
         = (Inr (AccessToken (Tokens lr)), (srv\<lparr>srv_Session := s\<rparr>, w2)))"
proof -
  obtain s where s: "NewFromLogin (Some lr) (Now env w1) = Inr s" "session_inv s" "typed_session s" "state s = StateReady"
    "accessToken s = AccessToken (Tokens lr)"
    using login_session [OF assms(1)] by metis
  have tok: "utf8_ok (accessToken s)" "\<not> blank (accessToken s)"
    using s(3,4) by (simp_all add: typed_session_def)
  have "Get (daemon (Refresh env) (Now env)) (Some c) (srv\<lparr>srv_Session := s\<rparr>, w2)
      = (Inr (AccessToken (Tokens lr)), (srv\<lparr>srv_Session := s\<rparr>, w2))"
    if "accessStillFreshLocked (Now env w2) s"
    using Get_daemon_ok [of c "srv\<lparr>srv_Session := s\<rparr>" "Refresh env" "Now env" w2 "accessToken s" s w2]
      GetAccessToken_fresh [of s "Now env" w2 "Refresh env"] that tok assms(2,3) s(4,5)
    by (simp add: authentic_def)
  with s(1-3) show ?thesis by blast
qed

subsection \<open>A concrete run\<close>

text \<open>A provider that grants the device code at once.\<close>

definition demo_body :: "(string \<times> json) list \<Rightarrow> reply" where
  "demo_body kvs = Reply 200 NoLocation (json_print (json_map kvs))"

definition demo_idp :: "http_request \<Rightarrow> reply" where
  "demo_idp rq =
     (if rq_URL rq = DiscoveryURL then demo_body [(''token_endpoint'', JStr DefaultTokenURL)]
      else if rq_URL rq = DeviceCodeURL then
        demo_body [(''device_code'', JStr ''dev''), (''user_code'', JStr ''ABCD-EFGH''),
          (''verification_uri'', JStr ''https://accounts.x.ai/device''), (''expires_in'', JNum ''600''),
          (''interval'', JNum ''5'')]
      else
        demo_body [(''access_token'', JStr ''at''), (''refresh_token'', JStr ''rt''), (''expires_in'', JNum ''3600'')])"

lemma unmarshal_demo:
  assumes "flat kvs" "sum_list (map entry_size kvs) \<le> 10000"
  shows "json_unmarshal fs (limit_body (json_print (json_map kvs))) s = fold (store_field fs) (sort_key fst kvs) (s, False)"
proof -
  have "length (json_print (json_map kvs)) \<le> 2 ^ 20"
    using json_map_length [OF assms(1)] assms(2) by simp
  then show ?thesis using unmarshal_map [OF assms(1)] by (simp add: limit_body_def)
qed

lemma demo_urls:
  "trim_space DiscoveryURL = DiscoveryURL" "trim_space DeviceCodeURL = DeviceCodeURL" "trim_space DefaultTokenURL = DefaultTokenURL"
  "DeviceCodeURL \<noteq> DiscoveryURL" "DefaultTokenURL \<noteq> DiscoveryURL" "DefaultTokenURL \<noteq> DeviceCodeURL"
  by (simp_all add: DiscoveryURL_def DeviceCodeURL_def DefaultTokenURL_def Issuer_def string_eval)

lemma demo_flat:
  "flat [(''token_endpoint'', JStr DefaultTokenURL)]"
  "flat [(''device_code'', JStr ''dev''), (''user_code'', JStr ''ABCD-EFGH''),
     (''verification_uri'', JStr ''https://accounts.x.ai/device''), (''expires_in'', JNum ''600''), (''interval'', JNum ''5'')]"
  "flat [(''access_token'', JStr ''at''), (''refresh_token'', JStr ''rt''), (''expires_in'', JNum ''3600'')]"
  by (simp_all add: flat_eval DefaultTokenURL_def Issuer_def json_number_def json_fraction_def json_exponent_def is_digit_def)

lemma demo_numbers: "parse_int64 ''600'' = Some 600" "parse_int64 ''5'' = Some 5" "parse_int64 ''3600'' = Some 3600"
  by code_simp+

lemma demo_exchange:
  assumes "pinned_url url" "trim_space url = url" "demo_idp \<lparr>rq_Method = m, rq_URL = url, rq_Body = b\<rparr> = demo_body kvs"
  shows "exchange (stub_env demo_idp) m url b w
    = (Got 200 (limit_body (json_print (json_map kvs))), w\<lparr>sent := sent w @ [\<lparr>rq_Method = m, rq_URL = url, rq_Body = b\<rparr>]\<rparr>)"
proof -
  have "url_parse url \<noteq> None"
    using assms(1,2) by (auto simp: pinned_url_def ValidateXAIURL_def Let_def split: option.splits if_splits)
  then show ?thesis
    using assms(3)
    by (auto simp: exchange_def new_request_def client_Do_def do_hops.simps send_def demo_body_def redirect_status_def)
qed

lemma demo_discovery: "read_discovery (limit_body (json_print (json_map [(''token_endpoint'', JStr DefaultTokenURL)])))
    = Inr \<lparr>AuthorizationEndpoint = '''', TokenEndpoint = DefaultTokenURL\<rparr>"
proof -
  have "DefaultTokenURL \<noteq> ''''" by (simp add: DefaultTokenURL_def Issuer_def)
  moreover have "ValidateXAIURL DefaultTokenURL ''token_endpoint'' = None"
    using pinned_constants(3) by (simp add: pinned_url_iff [of _ "''token_endpoint''"])
  moreover have "length DefaultTokenURL \<le> 100" by (simp add: DefaultTokenURL_def Issuer_def)
  ultimately show ?thesis
    by (simp add: read_discovery_def unmarshal_demo [OF demo_flat(1)] entry_size_def store_eval Discovery_fields_def
        empty_Discovery_def)
qed

lemma demo_device_code:
  "read_device_code (limit_body (json_print (json_map [(''device_code'', JStr ''dev''), (''user_code'', JStr ''ABCD-EFGH''),
      (''verification_uri'', JStr ''https://accounts.x.ai/device''), (''expires_in'', JNum ''600''), (''interval'', JNum ''5'')])))
    = Inr \<lparr>DeviceCode = ''dev'', UserCode = ''ABCD-EFGH'', VerificationURI = ''https://accounts.x.ai/device'',
        VerificationURIComplete = '''', dc_ExpiresIn = 600, Interval = 5\<rparr>"
proof -
  have u: "ValidateUserCode ''ABCD-EFGH'' = None"
    by (simp add: ValidateUserCode_def string_eval runes_ascii user_code_rune_def rune_control_def MaxUserCodeLen_def)
  have "list_all dns_char ''accounts.x.ai''" "list_all path_char ''device''"
    by (simp_all add: char_class_defs)
  moreover have "IsXAIHost ''accounts.x.ai''"
    by (simp add: IsXAIHost_def pin_normal_def string_eval)
  ultimately have "ValidateXAIURL ''https://accounts.x.ai/device'' '''' = None"
    using validate_plain [of "''accounts.x.ai''" "''device''" "''''"] by simp
  then have v: "ValidateVerificationURI ''https://accounts.x.ai/device'' = None"
    by (simp add: ValidateVerificationURI_iff [of _ "''''"] string_eval runes_ascii)
  show ?thesis
    using u v
    by (simp add: read_device_code_def unmarshal_demo [OF demo_flat(2)] entry_size_def store_eval DeviceCodeResponse_fields_def
        empty_DeviceCodeResponse_def demo_numbers)
qed

lemma demo_tokens:
  "read_poll 200 (limit_body (json_print (json_map [(''access_token'', JStr ''at''), (''refresh_token'', JStr ''rt''), (''expires_in'', JNum ''3600'')])))
    = PollDone (Inr \<lparr>AccessToken = ''at'', RefreshToken = ''rt'', IDToken = '''', ExpiresIn = 3600, TokenType = ''Bearer''\<rparr>)"
  by (simp add: read_poll_def read_device_token_def unmarshal_demo [OF demo_flat(3)] entry_size_def store_eval TokenResponse_fields_def
      empty_TokenResponse_def string_eval default_token_type_def demo_numbers)

definition demo_device :: DeviceCodeResponse where
  "demo_device = \<lparr>DeviceCode = ''dev'', UserCode = ''ABCD-EFGH'', VerificationURI = ''https://accounts.x.ai/device'',
     VerificationURIComplete = '''', dc_ExpiresIn = 600, Interval = 5\<rparr>"

definition demo_login :: LoginResult where
  "demo_login = \<lparr>Tokens = \<lparr>AccessToken = ''at'', RefreshToken = ''rt'', IDToken = '''', ExpiresIn = 3600, TokenType = ''Bearer''\<rparr>,
     lr_Discovery = \<lparr>AuthorizationEndpoint = '''', TokenEndpoint = DefaultTokenURL\<rparr>\<rparr>"

definition demo_start :: gotime where
  "demo_start = 63900000000 * second"

text \<open>The world after the three requests and the start of the browser.\<close>

definition demo_after :: "nat world" where
  "demo_after =
     \<lparr>net = nat demo_start,
      sent = [\<lparr>rq_Method = GET, rq_URL = DiscoveryURL, rq_Body = ''''\<rparr>,
        \<lparr>rq_Method = POST, rq_URL = DeviceCodeURL, rq_Body = device_code_form\<rparr>,
        \<lparr>rq_Method = POST, rq_URL = DefaultTokenURL, rq_Body = device_token_form ''dev''\<rparr>],
      slept = [], spawned = [[''xdg-open'', ''https://accounts.x.ai/device'']]\<rparr>"

lemma demo_time: "0 \<le> demo_start" "time_add demo_start (deviceAuthWindow 600) = demo_start + 600 * second"
  by (simp_all add: demo_start_def second_def deviceAuthWindow_def seconds_def MaxDeviceAuthWindow_def minute_def
      i64_def time_add_def max_sec_def)

lemma demo_run:
  "DeviceLogin poll_rounds (stub_env demo_idp) True (stub_world (nat demo_start))
    = Some (Inr demo_login, login_lines True True demo_device, demo_after)"
proof -
  let ?env = "stub_env demo_idp"
  let ?w0 = "stub_world (nat demo_start)"
  define w1 where "w1 = ?w0\<lparr>sent := [\<lparr>rq_Method = GET, rq_URL = DiscoveryURL, rq_Body = ''''\<rparr>]\<rparr>"
  define w2 where "w2 = w1\<lparr>sent := sent w1 @ [\<lparr>rq_Method = POST, rq_URL = DeviceCodeURL, rq_Body = device_code_form\<rparr>]\<rparr>"
  define w3 where "w3 = w2\<lparr>spawned := [[''xdg-open'', ''https://accounts.x.ai/device'']]\<rparr>"
  have d: "Discover ?env ?w0 = (Inr (lr_Discovery demo_login), w1)"
    using demo_exchange [OF pinned_constants(1) demo_urls(1), of GET "''''", OF _] demo_discovery
    by (simp add: Discover_def demo_idp_def demo_body_def demo_login_def w1_def stub_world_def)
  have c: "RequestDeviceCode ?env w1 = (Inr demo_device, w2)"
    using demo_exchange [OF pinned_constants(2) demo_urls(2), of POST device_code_form, OF _] demo_device_code
    by (simp add: RequestDeviceCode_def demo_idp_def demo_urls demo_body_def demo_device_def w2_def)
  have b: "tryOpenBrowser ?env (verify_url demo_device) w2 = (True, w3)"
    by (simp add: tryOpenBrowser_def verify_url_def demo_device_def browser_command_def w3_def w2_def w1_def stub_world_def)
  have net3: "net w3 = nat demo_start" by (simp add: w3_def w2_def w1_def stub_world_def)
  have now3: "Now ?env w3 = demo_start" using demo_time(1) by (simp add: Now_def net3)
  have "ValidateXAIURL DefaultTokenURL ''token_endpoint'' = None"
    using pinned_constants(3) by (simp add: pinned_url_iff [of _ "''token_endpoint''"])
  moreover have "exchange ?env POST DefaultTokenURL (device_token_form ''dev'') w3
      = (Got 200 (limit_body (json_print (json_map [(''access_token'', JStr ''at''), (''refresh_token'', JStr ''rt''),
          (''expires_in'', JNum ''3600'')]))), demo_after)"
    by (subst demo_exchange [OF pinned_constants(3) demo_urls(3)])
      (simp_all add: demo_idp_def demo_urls demo_after_def w3_def w2_def w1_def stub_world_def)
  moreover obtain m where pr: "poll_rounds = Suc m" by (simp add: poll_rounds_def)
  ultimately have "PollDeviceToken poll_rounds ?env DefaultTokenURL ''dev'' 600 5 w3 = Some (Inr (Tokens demo_login), demo_after)"
    using demo_tokens by (simp add: PollDeviceToken_def pr now3 demo_time demo_login_def second_def)
  then show ?thesis
    using d c b by (simp add: DeviceLogin_def demo_login_def demo_device_def)
qed

text \<open>The daemon that this login starts, and a client with its secret.\<close>

lemma demo_tokens_simps [simp]:
  "AccessToken (Tokens demo_login) = ''at''" "RefreshToken (Tokens demo_login) = ''rt''"
  "ExpiresIn (Tokens demo_login) = 3600" "TokenEndpoint (lr_Discovery demo_login) = DefaultTokenURL"
  by (simp_all add: demo_login_def)

definition demo_logged_in :: Session where
  "demo_logged_in = \<lparr>accessToken = ''at'', refreshToken = ''rt'', tokenEndpoint = DefaultTokenURL,
     expiresAt = demo_start + 3600 * second, hasExpiry = True, state = StateReady, lastError = ''''\<rparr>"

lemma demo_new_session: "NewFromLogin (Some demo_login) (Now (stub_env demo_idp) demo_after) = Inr demo_logged_in"
proof -
  have "ExpiresAtFromToken tok 3600 demo_start = (demo_start + 3600 * second, True)" for tok
    by (simp add: ExpiresAtFromToken_def demo_start_def seconds_def second_def i64_def time_add_def max_sec_def)
  moreover have "Now (stub_env demo_idp) demo_after = demo_start"
    using demo_time(1) by (simp add: Now_def demo_after_def)
  ultimately show ?thesis
    by (simp add: NewFromLogin_Inr demo_logged_in_def)
qed

lemma demo_still_fresh: "accessStillFreshLocked (Now (stub_env demo_idp) demo_after) demo_logged_in"
  by (simp add: accessStillFreshLocked_def demo_logged_in_def Now_def demo_after_def demo_start_def RefreshSkew_def
      minute_def second_def time_add_def max_sec_def)

theorem login_to_client_witness:
  "Get (daemon (Refresh (stub_env demo_idp)) (Now (stub_env demo_idp))) (Some demo_client)
      (demo_host\<lparr>srv_Session := demo_logged_in\<rparr>, demo_after)
    = (Inr ''at'', (demo_host\<lparr>srv_Session := demo_logged_in\<rparr>, demo_after))"
  using login_to_client [OF demo_run demo_authentic, of demo_after] demo_new_session demo_still_fresh by simp

theorem Get_from_daemon_witness:
  "Get (daemon (Refresh (stub_env demo_idp)) (Now (stub_env demo_idp))) (Some demo_client)
      (demo_host\<lparr>srv_Session := demo_logged_in\<rparr>, demo_after)
    = (Inr ''at'', (demo_host\<lparr>srv_Session := demo_logged_in\<rparr>, demo_after)) \<and> typed_session demo_logged_in"
proof -
  have "typed_session demo_logged_in"
    using demo_session_typed by (simp add: typed_session_def demo_logged_in_def demo_session_def)
  moreover have "GetAccessToken (Refresh (stub_env demo_idp)) (Now (stub_env demo_idp)) demo_logged_in demo_after
      = (Inr ''at'', demo_logged_in, demo_after)"
    using GetAccessToken_fresh [of demo_logged_in "Now (stub_env demo_idp)" demo_after] demo_still_fresh
    by (simp add: demo_logged_in_def)
  moreover have "authentic demo_client (demo_host\<lparr>srv_Session := demo_logged_in\<rparr>)"
    using demo_authentic by (simp add: authentic_def)
  ultimately show ?thesis
    using Get_from_daemon [of demo_client "demo_host\<lparr>srv_Session := demo_logged_in\<rparr>" "stub_env demo_idp" demo_after
        "Inr ''at''" demo_logged_in demo_after] by simp
qed

text \<open>What the login of the concrete run returns is typed.\<close>

theorem DeviceLogin_typed_run: "typed_login demo_login"
  by (rule DeviceLogin_typed [OF demo_run])

end
