(* ===== verification/Bearer_Client.thy ===== *)
theory Bearer_Client
  imports Client
begin

text \<open>
  The \<^verbatim>\<open>http.Client\<close> of \<^verbatim>\<open>Client.HTTPClient\<close>: the bearer transport (\<open>RoundTrip\<close> of theory \<open>Client\<close>) below
  the redirect loop of \<^verbatim>\<open>net/http\<close> with its default policy. The servers choose where the redirects go, and
  the loop calls the transport for every hop.

  The transport below is an argument, and so is what \<^verbatim>\<open>net/http\<close> decides about the caller's own
  \<^verbatim>\<open>Authorization\<close> header: whether it is copied to a hop (\<open>carry\<close>, of the URLs visited so far). User info in
  a URL becomes a \<^verbatim>\<open>Basic\<close> header if there is no other; its encoding comes with the URL. Request bodies are
  not modelled, so a hop that \<^verbatim>\<open>net/http\<close> cannot repeat does not occur.
\<close>

subsection \<open>The loop\<close>

datatype target = NoTarget | BadTarget | Target url "string option"

record out_response =
  rp_Status :: int
  rp_Target :: target
  rp_Body :: string

type_synonym 'w round_trip = "out_request option \<Rightarrow> 'w \<Rightarrow> (client_err + out_response) \<times> 'w"

definition with_user :: "string option \<Rightarrow> out_request \<Rightarrow> out_request" where
  "with_user user req =
     (case user of
        None \<Rightarrow> req
      | Some cred \<Rightarrow> if or_Authorization req \<noteq> '''' then req else req\<lparr>or_Authorization := ''Basic '' @ cred\<rparr>)"

definition hop_request :: "(url list \<Rightarrow> bool) \<Rightarrow> out_request \<Rightarrow> url list \<Rightarrow> url \<Rightarrow> out_request" where
  "hop_request carry first visited u =
     first\<lparr>or_URL := Some u, or_Authorization := (if carry (visited @ [u]) then or_Authorization first else '''')\<rparr>"

function http_hops ::
  "'w round_trip \<Rightarrow> (url list \<Rightarrow> bool) \<Rightarrow> out_request \<Rightarrow> string option \<Rightarrow> url list \<Rightarrow> out_request \<Rightarrow> 'w
     \<Rightarrow> (client_err + out_response) \<times> 'w"
where
  "http_hops rt carry first user visited req w =
     (case rt (Some (with_user user req)) w of
        (Inl e, w') \<Rightarrow> (Inl e, w')
      | (Inr resp, w') \<Rightarrow>
          if \<not> redirect_status (rp_Status resp) then (Inr resp, w')
          else
            (case rp_Target resp of
               NoTarget \<Rightarrow> (Inr resp, w')
             | BadTarget \<Rightarrow> (Inl (CPlain ''failed to parse Location header''), w')
             | Target u user' \<Rightarrow>
                 if 10 \<le> length visited then (Inl (CPlain ''stopped after 10 redirects''), w')
                 else http_hops rt carry first user' (visited @ [u]) (hop_request carry first visited u) w'))"
  by pat_completeness auto
termination
  by (relation "measure (\<lambda>(rt, carry, first, user, visited, req, w). 10 - length visited)") auto

declare http_hops.simps [simp del]

definition http_Do ::
  "'w round_trip \<Rightarrow> (url list \<Rightarrow> bool) \<Rightarrow> out_request \<Rightarrow> string option \<Rightarrow> 'w \<Rightarrow> (client_err + out_response) \<times> 'w"
where
  "http_Do rt carry req user w =
     (case or_URL req of
        None \<Rightarrow> (Inl (CPlain ''http: nil Request.URL''), w)
      | Some u \<Rightarrow> http_hops rt carry req user [u] req w)"

text \<open>
  \<^verbatim>\<open>Client.Transport\<close> with the base it falls back to, and \<^verbatim>\<open>Client.HTTPClient\<close>, as the operation its
  \<^verbatim>\<open>Do\<close> performs.
\<close>

definition Transport :: "'w round_trip \<Rightarrow> 'w unix_call \<Rightarrow> Client option \<Rightarrow> 'w round_trip option \<Rightarrow> 'w round_trip" where
  "Transport DefaultTransport call oc base =
     RoundTrip call (case base of None \<Rightarrow> DefaultTransport | Some b \<Rightarrow> b) oc"

definition HTTPClient ::
  "'w round_trip \<Rightarrow> 'w unix_call \<Rightarrow> Client option \<Rightarrow> (url list \<Rightarrow> bool) \<Rightarrow> out_request \<Rightarrow> string option \<Rightarrow> 'w
     \<Rightarrow> (client_err + out_response) \<times> 'w"
where
  "HTTPClient DefaultTransport call oc carry req user w =
     http_Do (Transport DefaultTransport call oc None) carry req user w"

subsection \<open>What reaches the wire\<close>

text \<open>A base transport that records the requests it is given, beside any state.\<close>

definition logged :: "'w round_trip \<Rightarrow> ('w \<times> out_request list) round_trip" where
  "logged base oreq wl =
     (let (r, w) = base oreq (fst wl) in (r, w, snd wl @ (case oreq of None \<Rightarrow> [] | Some req \<Rightarrow> [req])))"

definition beside :: "'w unix_call \<Rightarrow> ('w \<times> 'l) unix_call" where
  "beside call rq wl = (let (r, w) = call rq (fst wl) in (r, w, snd wl))"

text \<open>
  An \<^verbatim>\<open>Authorization\<close> header that is the caller's or a server's choice, or a request for https on a pinned
  host.
\<close>

definition harmless :: "string \<Rightarrow> out_request \<Rightarrow> bool" where
  "harmless own req \<longleftrightarrow>
     or_Authorization req \<in> {'''', own} \<or> prefix ''Basic '' (or_Authorization req)
     \<or> (\<exists>u. or_URL req = Some u \<and> u_Scheme u = ''https'' \<and> IsXAIHost (hostname u))"

lemma with_user_harmless: "or_Authorization req \<in> {'''', own} \<Longrightarrow> harmless own (with_user user req)"
  by (cases user) (auto simp: with_user_def harmless_def)

lemma with_user_URL [simp]: "or_URL (with_user user req) = or_URL req"
  by (simp add: with_user_def split: option.splits)

lemma hop_request_own: "or_Authorization (hop_request carry first visited u) \<in> {'''', or_Authorization first}"
  by (simp add: hop_request_def)

lemma beside_log: "snd (snd (beside call rq wl)) = snd wl"
  by (simp add: beside_def split: prod.splits)

lemma doJSON_beside: "snd (snd (doJSON (beside call) c m p wl)) = snd wl"
proof -
  obtain x w l where "beside call \<lparr>ar_Method = m, ar_Path = p, ar_Authorization = ''Bearer '' @ cl_secret c\<rparr> wl = (x, w, l)"
    by (cases "beside call \<lparr>ar_Method = m, ar_Path = p, ar_Authorization = ''Bearer '' @ cl_secret c\<rparr> wl") auto
  then show ?thesis
    using beside_log [of call "\<lparr>ar_Method = m, ar_Path = p, ar_Authorization = ''Bearer '' @ cl_secret c\<rparr>" wl]
    by (auto simp: doJSON_def simp del: append_Cons split: option.splits do_result.splits)
qed

lemma Get_beside: "snd (snd (Get (beside call) oc wl)) = snd wl"
proof (cases oc)
  case (Some c)
  obtain x w l where "doJSON (beside call) c ''GET'' ''/token'' wl = (x, w, l)"
    by (cases "doJSON (beside call) c ''GET'' ''/token'' wl") auto
  with Some doJSON_beside [of call c "''GET''" "''/token''" wl] show ?thesis
    by (auto simp: Get_def require_def Let_def split: sum.splits prod.splits if_splits)
qed (simp add: Get_def require_def)

lemma RoundTrip_logged:
  assumes "harmless own req" "RoundTrip (beside call) (logged base) oc (Some req) wl = (x, wl')"
  shows "\<exists>rqs. snd wl' = snd wl @ rqs \<and> list_all (harmless own) rqs \<and> length rqs \<le> 1"
proof (cases "bearerEligible (Some req)")
  case False
  with assms show ?thesis by (auto simp: RoundTrip_def logged_def split: prod.splits)
next
  case True
  then obtain u where u: "or_URL req = Some u" "u_Scheme u = ''https''" "IsXAIHost (hostname u)"
    unfolding bearerEligible_iff by auto
  then have h: "harmless own (req\<lparr>or_Authorization := a\<rparr>)" for a
    by (simp add: harmless_def)
  obtain g wl1 where g: "Get (beside call) oc wl = (g, wl1)"
    by (cases "Get (beside call) oc wl")
  have "snd wl1 = snd wl"
    using Get_beside [of call oc wl] g by simp
  with True g h assms(2) show ?thesis
    by (cases g) (auto simp: RoundTrip_def logged_def simp del: append_Cons split: prod.splits)
qed

lemma http_hops_log:
  assumes "or_Authorization req \<in> {'''', or_Authorization first}" "visited \<noteq> []" "length visited \<le> 10"
    and "http_hops (RoundTrip (beside call) (logged base) oc) carry first user visited req wl = (x, wl')"
  shows "\<exists>rqs. snd wl' = snd wl @ rqs \<and> list_all (harmless (or_Authorization first)) rqs
    \<and> length rqs + length visited \<le> 11"
  using assms
proof (induction "RoundTrip (beside call) (logged base) oc" carry first user visited req wl arbitrary: x wl' rule: http_hops.induct)
  case (1 carry first user visited req wl)
  let ?rt = "RoundTrip (beside call) (logged base) oc"
  obtain y wl1 where y: "?rt (Some (with_user user req)) wl = (y, wl1)"
    by (cases "?rt (Some (with_user user req)) wl")
  obtain rqs where rqs: "snd wl1 = snd wl @ rqs" "list_all (harmless (or_Authorization first)) rqs" "length rqs \<le> 1"
    using RoundTrip_logged [OF with_user_harmless [OF "1.prems"(1)] y] by blast
  from "1.prems"(4) y consider "wl' = wl1"
    | resp u user' where "y = Inr resp" "redirect_status (rp_Status resp)" "rp_Target resp = Target u user'" "\<not> 10 \<le> length visited"
        "http_hops ?rt carry first user' (visited @ [u]) (hop_request carry first visited u) wl1 = (x, wl')"
    by (subst (asm) http_hops.simps) (auto split: sum.splits target.splits if_splits)
  then show ?case
  proof cases
    case 1
    with rqs "1.prems"(3) show ?thesis by auto
  next
    case 2
    then have "\<exists>rqs'. snd wl' = snd wl1 @ rqs' \<and> list_all (harmless (or_Authorization first)) rqs'
        \<and> length rqs' + length (visited @ [u]) \<le> 11"
      using "1.hyps" [OF y [symmetric]] hop_request_own by auto
    then obtain rqs' where "snd wl' = snd wl1 @ rqs'" "list_all (harmless (or_Authorization first)) rqs'"
        "length rqs' + length visited \<le> 10"
      by auto
    with rqs show ?thesis
      by (intro exI [of _ "rqs @ rqs'"]) auto
  qed
qed

text \<open>
  Property C16. No chain of redirects carries the daemon's token away. Whatever servers answer and whatever
  \<^verbatim>\<open>net/http\<close> decides about headers, every request a call of the SDK's HTTP client sends is one for https
  on a pinned host, or one whose \<^verbatim>\<open>Authorization\<close> header is the caller's own, a server's \<^verbatim>\<open>Basic\<close> user
  info, or absent; and there are at most ten.
\<close>

theorem HTTPClient_pins_bearer:
  "\<exists>rqs. snd (snd (HTTPClient (logged base) (beside call) oc carry req user (w, l))) = l @ rqs
     \<and> list_all (harmless (or_Authorization req)) rqs \<and> length rqs \<le> 10"
proof (cases "or_URL req")
  case None
  then show ?thesis by (simp add: HTTPClient_def http_Do_def)
next
  case (Some u)
  obtain x wl' where x: "http_hops (RoundTrip (beside call) (logged base) oc) carry req user [u] req (w, l) = (x, wl')"
    by (cases "http_hops (RoundTrip (beside call) (logged base) oc) carry req user [u] req (w, l)")
  from http_hops_log [OF _ _ _ x] Some x show ?thesis
    by (auto simp: HTTPClient_def http_Do_def Transport_def)
qed

end
