(* ===== verification/Windows.thy ===== *)
theory Windows
  imports Listen
begin

text \<open>
  What differs on Windows: \<^verbatim>\<open>internal/server/listen_windows.go\<close> and \<^verbatim>\<open>client/socketpath_windows.go\<close>. The steps
  of binding are those of theory \<open>Listen\<close>. \<^verbatim>\<open>path/filepath\<close> for Windows paths is an argument: \<open>clean\<close>,
  \<open>dirname\<close> and \<open>join\<close> stand for \<^verbatim>\<open>Clean\<close>, \<^verbatim>\<open>Dir\<close> and \<^verbatim>\<open>Join\<close>.
\<close>

definition DefaultSocketPath_windows :: "(string list \<Rightarrow> string) \<Rightarrow> string option \<Rightarrow> string \<Rightarrow> string" where
  "DefaultSocketPath_windows join UserCacheDir TempDir =
     (case UserCacheDir of
        Some dir \<Rightarrow>
          if dir \<noteq> '''' then join [dir, ''xai-oauth'', ''daemon.sock''] else join [TempDir, ''xai-oauth'', ''daemon.sock'']
      | None \<Rightarrow> join [TempDir, ''xai-oauth'', ''daemon.sock''])"

definition ensurePrivateDir_windows :: "'n os \<Rightarrow> 'n path_check" where
  "ensurePrivateDir_windows os dir m =
     (case Lstat os dir m of
        (Info fi, m1) \<Rightarrow>
          (if fi_symlink fi then Some ParentSymlink else if \<not> fi_dir fi then Some NotADirectory else None, m1)
      | (_, m1) \<Rightarrow> (Some StatDirFailed, m1))"

definition restrictSocketFile_windows :: "'n path_check" where
  "restrictSocketFile_windows path m = (None, m)"

definition removableSocketFile_windows :: "file_info \<Rightarrow> bool" where
  "removableSocketFile_windows fi \<longleftrightarrow> fi_socket fi \<or> fi_irregular fi"

definition ListenUnix_windows ::
  "(string \<Rightarrow> string) \<Rightarrow> (string \<Rightarrow> string) \<Rightarrow> 'n os \<Rightarrow> string \<Rightarrow> 'n machine \<Rightarrow> (listen_err + string) \<times> 'n machine"
where
  "ListenUnix_windows clean dirname os path0 m =
     (let path1 = trim_space path0; path = clean path1; dir = dirname path in
      if path1 = '''' then (Inl EmptyPath, m)
      else if path = ''.'' \<or> path = [CHR 0x5C] then (Inl (InvalidPath path), m)
      else listen_at (ensurePrivateDir_windows os) removableSocketFile_windows restrictSocketFile_windows os dir path m)"

definition trusted_windows :: "file_info \<Rightarrow> bool" where
  "trusted_windows fi \<longleftrightarrow> fi_dir fi \<and> \<not> fi_symlink fi"

interpretation win: listen_platform "ensurePrivateDir_windows os" restrictSocketFile_windows trusted_windows "\<lambda>p. []"
  by unfold_locales
    (auto simp: ensurePrivateDir_windows_def restrictSocketFile_windows_def socket_events_def os_call_defs trusted_windows_def
      split: prod.splits bool.splits lstat_answer.splits if_splits)

text \<open>
  On Windows \<open>ListenUnix\<close> keeps the same order: whatever the file system and the path functions
  answer, a file is removed only at the socket path, and only a socket or reparse point nobody answered on or
  the one this call bound; the socket is bound only after its parent was seen as a directory and not a link,
  and after the path was free; and no mode is changed. A live listener is reported as in use and left alone.
\<close>

theorem ListenUnix_windows_safe:
  assumes "ListenUnix_windows clean dirname os path0 m = (r, m')"
  shows "\<exists>es. events m' = events m @ es
    \<and> (\<forall>a e b. es = a @ e # b \<longrightarrow>
         may_do trusted_windows removableSocketFile_windows (dirname (clean (trim_space path0))) (clean (trim_space path0)) a e)
    \<and> (\<forall>p. r = Inr p \<longrightarrow> p = clean (trim_space path0) \<and> (\<exists>a. es = a @ [EListen p True]))
    \<and> (EDial (clean (trim_space path0)) True \<in> set es \<longleftrightarrow> r = Inl (ErrSocketInUse (clean (trim_space path0))))"
proof (cases "m' = m \<and> r \<in> {Inl EmptyPath, Inl (InvalidPath (clean (trim_space path0)))}")
  case True
  then show ?thesis by (intro exI [of _ "[]"]) auto
next
  case False
  from False assms have "listen_at (ensurePrivateDir_windows os) removableSocketFile_windows restrictSocketFile_windows os
      (dirname (clean (trim_space path0))) (clean (trim_space path0)) m = (r, m')"
    by (auto simp: ListenUnix_windows_def Let_def split: if_splits)
  from win.listen_at_trace [OF this] show ?thesis
    unfolding justified_iff append_Nil .
qed

text \<open>A stale reparse point in the way: it does not answer, is removed, and the socket is bound.\<close>

definition demo_dir :: file_info where
  "demo_dir = \<lparr>fi_dir = True, fi_symlink = False, fi_socket = False, fi_irregular = False, fi_perm = 511, fi_uid = None\<rparr>"

definition demo_reparse :: file_info where
  "demo_reparse = \<lparr>fi_dir = False, fi_symlink = False, fi_socket = False, fi_irregular = True, fi_perm = 438, fi_uid = None\<rparr>"

definition demo_windows_os :: "unit os" where
  "demo_windows_os = demo_os\<lparr>lstat := (\<lambda>p n. (if p = ''x'' then Info demo_dir else Info demo_reparse, n))\<rparr>"

lemma demo_windows_listen:
  "ListenUnix_windows id (\<lambda>_. ''x'') demo_windows_os ''d.sock'' \<lparr>os_state = (), events = []\<rparr> = (Inr ''d.sock'',
     \<lparr>os_state = (), events =
       [EMkdirAll ''x'' True, ELstat ''x'' (Info demo_dir), ELstat ''d.sock'' (Info demo_reparse), EDial ''d.sock'' False,
        ERemove ''d.sock'', EListen ''d.sock'' True]\<rparr>)"
proof -
  have t: "trim_space ''d.sock'' = ''d.sock''" by (simp add: string_eval)
  show ?thesis
    unfolding ListenUnix_windows_def Let_def t
    by (simp add: listen_at_def ensurePrivateDir_windows_def clear_path_def bind_socket_def restrictSocketFile_windows_def
        removableSocketFile_windows_def os_call_defs demo_windows_os_def demo_os_def demo_dir_def demo_reparse_def)
qed

theorem ListenUnix_windows_safe_witness:
  "\<exists>a. events (snd (ListenUnix_windows id (\<lambda>_. ''x'') demo_windows_os ''d.sock'' \<lparr>os_state = (), events = []\<rparr>))
     = a @ [EListen ''d.sock'' True]"
  using ListenUnix_windows_safe [OF demo_windows_listen] demo_windows_listen by auto

text \<open>The default socket is the same file, below the cache directory of the user if there is one.\<close>

lemma DefaultSocketPath_windows_cases:
  "DefaultSocketPath_windows join cache tmp
    = join [if cache = None \<or> cache = Some '''' then tmp else the cache, ''xai-oauth'', ''daemon.sock'']"
  by (auto simp: DefaultSocketPath_windows_def split: option.splits)

end
