(* ===== verification/Progress.thy ===== *)
theory Progress
  imports Daemon
begin

text \<open>
  Everything that was begun comes to an end. Theory \<open>Concurrency\<close> shows that some goroutine can always
  move, theory \<open>Daemon\<close> that a shutdown is not forgotten; here a measure bounds the number of steps, so that
  under every schedule all requests finish, and a process that was asked to stop returns.
\<close>

subsection \<open>Steps that use something up\<close>

text \<open>
  A step relation on which a natural number decreases, and that is stuck only where a goal is reached.
\<close>

locale progressing =
  fixes inv :: "'s \<Rightarrow> bool" and step :: "'s \<Rightarrow> 's \<Rightarrow> bool" and left :: "'s \<Rightarrow> nat" and goal :: "'s \<Rightarrow> bool"
  assumes step_keeps: "inv s \<Longrightarrow> step s s' \<Longrightarrow> inv s'"
    and step_uses: "inv s \<Longrightarrow> step s s' \<Longrightarrow> left s' < left s"
    and stuck_goal: "inv s \<Longrightarrow> \<not> goal s \<Longrightarrow> \<exists>s'. step s s'"
begin

lemma run_uses: "(step ^^ n) s s' \<Longrightarrow> inv s \<Longrightarrow> inv s' \<and> n + left s' \<le> left s"
proof (induction n arbitrary: s')
  case (Suc n)
  then obtain s1 where s1: "(step ^^ n) s s1" "step s1 s'" by auto
  with Suc have "inv s1 \<and> n + left s1 \<le> left s" by blast
  with step_keeps [OF _ s1(2)] step_uses [OF _ s1(2)] show ?case by fastforce
qed simp

lemma reaches: "inv s \<Longrightarrow> \<exists>n s'. (step ^^ n) s s' \<and> goal s'"
proof (induction "left s" arbitrary: s rule: less_induct)
  case less
  show ?case
  proof (cases "goal s")
    case True
    then show ?thesis by (intro exI [of _ 0] exI [of _ s]) simp
  next
    case False
    then obtain s1 where s1: "step s s1" using stuck_goal less.prems by blast
    with less step_uses step_keeps obtain n s' where run: "(step ^^ n) s1 s'" "goal s'" by blast
    from relpowp_Suc_I2 [OF s1 run(1)] run(2) show ?thesis by blast
  qed
qed

text \<open>Every run is short, can be completed, and has reached the goal when it cannot go on.\<close>

lemma run_ends:
  assumes "inv s" "(step ^^ n) s s'"
  shows "n \<le> left s \<and> (\<exists>m s''. (step ^^ m) s' s'' \<and> goal s'') \<and> ((\<nexists>s''. step s' s'') \<longrightarrow> goal s')"
  using run_uses [OF assms(2,1)] reaches stuck_goal by (metis add_leD1)

end

subsection \<open>Requests\<close>

text \<open>The steps a goroutine has before it at most.\<close>

fun steps_left :: "pc \<Rightarrow> nat" where
  "steps_left GStart = 10"
| "steps_left GFlight = 9"
| "steps_left (RLock c) = 8"
| "steps_left (RCheck c) = 7"
| "steps_left (RNoToken c) = 6"
| "steps_left (RCall c ep rt) = 6"
| "steps_left (RGot c tr) = 5"
| "steps_left (RErr c e) = 5"
| "steps_left (RUnlock c r) = 3"
| "steps_left (GPublish c r) = 2"
| "steps_left (GDelete c r) = 1"
| "steps_left (GWait c) = 1"
| "steps_left HLock = 5"
| "steps_left HSnap = 4"
| "steps_left (HUnlock x) = 3"
| "steps_left (HWrite d) = 2"
| "steps_left (HRestore d) = 1"
| "steps_left CStart = 1"
| "steps_left _ = 0"

lemma steps_left_bounds: "steps_left q \<le> 10" "finished q \<Longrightarrow> steps_left q = 0"
  by (cases q; simp)+

lemma cstep_uses: "cstep i s s' \<Longrightarrow> \<not> finished (pcs s i) \<Longrightarrow> steps_left (pcs s' i) < steps_left (pcs s i)"
  by (erule cstep.cases) auto

text \<open>A goroutine that has finished, or not begun, only moves by beginning a request.\<close>

lemma cstep_begins: "cstep i s s' \<Longrightarrow> finished (pcs s i) \<Longrightarrow> \<not> finished (pcs s' i)"
  by (erule cstep.cases) auto

definition busy :: "conf \<Rightarrow> tid set" where
  "busy s = {i. \<not> finished (pcs s i)}"

lemma busy_step: "cstep i s s' \<Longrightarrow> busy s' \<subseteq> insert i (busy s)"
  using cstep_frame by (auto simp: busy_def)

lemma finite_busy: "reach cinit cstep s \<Longrightarrow> finite (busy s)"
proof (induction rule: reach.induct)
  case (init s)
  then show ?case by (simp add: cinit_def busy_def)
next
  case (step s i s')
  with busy_step show ?case by (meson finite.insertI finite_subset)
qed

definition work :: "conf \<Rightarrow> nat" where
  "work s = (\<Sum>i\<in>busy s. steps_left (pcs s i))"

lemma work_uses:
  assumes "finite (busy s)" "i \<in> busy s" "cstep i s s'"
  shows "work s' < work s" "busy s' \<subseteq> busy s"
proof -
  show sub: "busy s' \<subseteq> busy s" using busy_step [OF assms(3)] assms(2) by auto
  have "steps_left (pcs s' j) = 0" if "j \<in> busy s - busy s'" for j
    using that by (simp add: busy_def steps_left_bounds)
  then have "work s' = (\<Sum>j\<in>busy s. steps_left (pcs s' j))"
    unfolding work_def by (intro sum.mono_neutral_left assms(1) sub) simp
  also have "\<dots> < work s"
    unfolding work_def
  proof (rule sum_strict_mono_ex1)
    show "\<forall>j\<in>busy s. steps_left (pcs s' j) \<le> steps_left (pcs s j)"
    proof
      fix j
      show "steps_left (pcs s' j) \<le> steps_left (pcs s j)"
        using cstep_uses [OF assms(3)] cstep_frame [OF assms(3)] assms(2) by (cases "j = i") (auto simp: busy_def)
    qed
    show "\<exists>j\<in>busy s. steps_left (pcs s' j) < steps_left (pcs s j)"
      using cstep_uses [OF assms(3)] assms(2) by (auto simp: busy_def)
  qed (rule assms(1))
  finally show "work s' < work s" .
qed

text \<open>A step of a request that was begun, in any order of the goroutines.\<close>

definition work_step :: "conf \<Rightarrow> conf \<Rightarrow> bool" where
  "work_step s s' \<longleftrightarrow> (\<exists>i \<in> busy s. cstep i s s')"

interpretation requests: progressing "reach cinit cstep" work_step work "\<lambda>s. busy s = {}"
proof unfold_locales
  show "reach cinit cstep s \<Longrightarrow> work_step s s' \<Longrightarrow> reach cinit cstep s'" for s s'
    by (auto simp: work_step_def intro: reach.step)
  show "reach cinit cstep s \<Longrightarrow> work_step s s' \<Longrightarrow> work s' < work s" for s s'
    using work_uses(1) finite_busy by (auto simp: work_step_def)
  show "reach cinit cstep s \<Longrightarrow> busy s \<noteq> {} \<Longrightarrow> \<exists>s'. work_step s s'" for s
    using unfinished_moves by (fastforce simp: work_step_def busy_def)
qed

subsection \<open>Schedules\<close>

text \<open>A run is given by the goroutines that move, one after the other; requests may begin in it at any time.\<close>

fun scheduled :: "tid list \<Rightarrow> conf \<Rightarrow> conf \<Rightarrow> bool" where
  "scheduled [] s s' \<longleftrightarrow> s' = s"
| "scheduled (i # js) s s' \<longleftrightarrow> (\<exists>s1. cstep i s s1 \<and> scheduled js s1 s')"

text \<open>The steps of one goroutine, the first one of its request included.\<close>

fun all_steps_left :: "pc \<Rightarrow> nat" where
  "all_steps_left Idle = 11"
| "all_steps_left q = steps_left q"

lemma all_steps_left_bounds: "finished q \<Longrightarrow> all_steps_left q = (if q = Idle then 11 else 0)" "q \<noteq> Idle \<Longrightarrow> all_steps_left q = steps_left q"
  by (cases q; simp)+

lemma cstep_uses_all: "cstep i s s' \<Longrightarrow> all_steps_left (pcs s' i) < all_steps_left (pcs s i)"
  by (erule cstep.cases) auto

lemma scheduled_count: "scheduled js s s' \<Longrightarrow> count_list js i + all_steps_left (pcs s' i) \<le> all_steps_left (pcs s i)"
proof (induction js arbitrary: s)
  case (Cons j js)
  then obtain s1 where s1: "cstep j s s1" "scheduled js s1 s'" by auto
  with Cons.IH [OF s1(2)] cstep_uses_all [OF s1(1)] cstep_frame [OF s1(1), of i] show ?case
    by (cases "j = i") fastforce+
qed simp

lemma scheduled_reach: "scheduled js s s' \<Longrightarrow> reach cinit cstep s \<Longrightarrow> reach cinit cstep s'"
  by (induction js arbitrary: s) (auto intro: reach.step)

lemma work_scheduled:
  "(work_step ^^ n) s s' \<Longrightarrow> \<exists>js. length js = n \<and> set js \<subseteq> busy s \<and> scheduled js s s'"
proof (induction n arbitrary: s)
  case (Suc n)
  then obtain s1 where s1: "work_step s s1" "(work_step ^^ n) s1 s'" by (meson relpowp_Suc_E2)
  then obtain i where i: "i \<in> busy s" "cstep i s s1" by (auto simp: work_step_def)
  from Suc.IH [OF s1(2)] obtain js where "length js = n" "set js \<subseteq> busy s1" "scheduled js s1 s'" by blast
  with i busy_step [OF i(2)] show ?case by (intro exI [of _ "i # js"]) auto
qed simp

text \<open>
  Property C25. Every request is answered. In any run from a reachable state, whatever the schedule and
  whatever requests begin meanwhile, each request that was not finished takes at most ten more steps, and one
  that begins in the run at most eleven; so without new requests a run has at most ten steps for each that was
  open. From where the run has got to, the open requests can all be finished without new ones; and where none of
  them can move, all are.
\<close>

theorem requests_finish:
  assumes "reach cinit cstep s" "scheduled js s s'"
  shows "(\<forall>i. count_list js i \<le> (if i \<in> busy s then 10 else if pcs s i = Idle then 11 else 0))
    \<and> (set js \<subseteq> busy s \<longrightarrow> length js \<le> 10 * card (busy s))
    \<and> (\<exists>ks s''. set ks \<subseteq> busy s' \<and> scheduled ks s' s'' \<and> (\<forall>i. finished (pcs s'' i)))
    \<and> ((\<nexists>i s''. i \<in> busy s' \<and> cstep i s' s'') \<longrightarrow> (\<forall>i. finished (pcs s' i)))"
proof -
  have each: "count_list js i \<le> (if i \<in> busy s then 10 else if pcs s i = Idle then 11 else 0)" for i
    using scheduled_count [OF assms(2), of i] all_steps_left_bounds [of "pcs s i"] steps_left_bounds(1) [of "pcs s i"]
    by (cases "pcs s i = Idle") (auto simp: busy_def)
  have "length js \<le> 10 * card (busy s)" if "set js \<subseteq> busy s"
  proof -
    have "length js = (\<Sum>i\<in>busy s. count_list js i)"
      using sum_count_set [OF that finite_busy [OF assms(1)]] by simp
    also have "\<dots> \<le> (\<Sum>i\<in>busy s. 10)" using each by (intro sum_mono) (metis (full_types))
    finally show ?thesis by simp
  qed
  moreover note reached = scheduled_reach [OF assms(2,1)]
  have "\<exists>ks s''. set ks \<subseteq> busy s' \<and> scheduled ks s' s'' \<and> (\<forall>i. finished (pcs s'' i))"
    using requests.reaches [OF reached] work_scheduled by (fastforce simp: busy_def)
  moreover have "\<forall>i. finished (pcs s' i)" if "\<nexists>i s''. i \<in> busy s' \<and> cstep i s' s''"
    using that unfinished_moves [OF reached] unfolding busy_def by blast
  ultimately show ?thesis using each by blast
qed

theorem requests_finish_witness:
  "\<exists>ks s. scheduled ks demo_calling s \<and> (\<forall>i. finished (pcs s i)) \<and> count_list ks 0 \<le> 10"
proof -
  have none: "scheduled [] demo_calling demo_calling" by simp
  from requests_finish [OF demo_calling_reach none] obtain ks s
    where ks: "scheduled ks demo_calling s" "\<forall>i. finished (pcs s i)" by blast
  moreover have "0 \<in> busy demo_calling" by (simp add: busy_def)
  moreover have "count_list ks 0 \<le> (if 0 \<in> busy demo_calling then 10 else if pcs demo_calling 0 = Idle then 11 else 0)"
    using requests_finish [OF demo_calling_reach ks(1)] by blast
  ultimately show ?thesis by auto
qed

subsection \<open>The end of the process\<close>

text \<open>A step of the process itself: not a new request, and not a signal or an error from outside.\<close>

definition own_step :: "process \<Rightarrow> process \<Rightarrow> bool" where
  "own_step p p' \<longleftrightarrow>
     dstep p p' \<and> p' \<noteq> p \<and> busy (gs p') \<subseteq> busy (gs p) \<and> (sigCh p' \<longrightarrow> sigCh p) \<and> (errCh p = None \<longrightarrow> errCh p' = None)"

fun main_left :: "main_pc \<Rightarrow> nat" where
  "main_left Selecting = 2"
| "main_left (ShuttingDown r) = 1"
| "main_left (Returned r) = 0"

definition process_left :: "process \<Rightarrow> nat" where
  "process_left p = 2 * work (gs p) + onlogout p + main_left (main p)"

lemma own_step_uses:
  assumes "finite (busy (gs p))" "own_step p p'"
  shows "process_left p' < process_left p"
proof -
  from assms(2) have d: "dstep p p'" and "p' \<noteq> p" "busy (gs p') \<subseteq> busy (gs p)" "sigCh p' \<longrightarrow> sigCh p"
    "errCh p = None \<longrightarrow> errCh p' = None" by (simp_all add: own_step_def)
  from d show ?thesis
  proof cases
    case (request i c)
    have "i \<in> busy (gs p)"
      using \<open>busy (gs p') \<subseteq> busy (gs p)\<close> cstep_begins [OF request(3)] request(1) by (auto simp: busy_def)
    from work_uses(1) [OF assms(1) this request(3)] have "work c < work (gs p)" .
    moreover have "notifies (pcs (gs p) i) (pcs c i) \<le> 1" by (simp split: pc.splits)
    ultimately show ?thesis by (simp add: process_left_def request(1) del: notifies_def)
  next
    case signal
    with \<open>p' \<noteq> p\<close> \<open>sigCh p' \<longrightarrow> sigCh p\<close> show ?thesis by simp
  next
    case (serve_ends e)
    with \<open>errCh p = None \<longrightarrow> errCh p' = None\<close> show ?thesis by simp
  qed (simp_all add: process_left_def)
qed

lemma done_here_keeps: "token_inv c \<Longrightarrow> done_here c \<Longrightarrow> cstep i c c' \<Longrightarrow> done_here c'"
proof -
  assume a: "token_inv c" "done_here c" "cstep i c c'"
  have "pcs c' j = CDone" if "pcs c j = CDone" for j
    using that a(3) cstep_frame [OF a(3), of j] by (cases "j = i") (auto elim: cstep.cases)
  with a delivered_step show ?thesis unfolding done_here_def by (metis not_None_eq)
qed

lemma finite_busy_process: "reach dinit (\<lambda>_ :: unit. dstep) p \<Longrightarrow> finite (busy (gs p))"
proof (induction rule: reach.induct)
  case (init p)
  then show ?case by (auto simp: dinit_def intro: finite_busy reach.init)
next
  case (step p u p')
  from step(2) show ?case
  proof cases
    case (request i c)
    with busy_step [OF request(3)] step(3) show ?thesis by (auto intro: finite_subset)
  qed (use step(3) in simp_all)
qed

interpretation stopping_runs: progressing
  "\<lambda>p. reach dinit (\<lambda>_ :: unit. dstep) p \<and> done_here (gs p)" own_step process_left "\<lambda>p. \<exists>r. main p = Returned r"
proof unfold_locales
  fix p p'
  assume a: "reach dinit (\<lambda>_ :: unit. dstep) p \<and> done_here (gs p)" "own_step p p'"
  then have d: "dstep p p'" by (simp add: own_step_def)
  have inv: "token_inv (gs p)" using stopping.always [of p] a(1) by (simp add: process_inv_def sound_conf_def)
  from d have "done_here (gs p')"
  proof cases
    case (request i c)
    with done_here_keeps [OF inv] a(1) show ?thesis by simp
  qed (use a(1) in simp_all)
  with a(1) d show "reach dinit (\<lambda>_ :: unit. dstep) p' \<and> done_here (gs p')" by (blast intro: reach.step)
  show "process_left p' < process_left p" using own_step_uses finite_busy_process a by blast
next
  fix p
  assume a: "reach dinit (\<lambda>_ :: unit. dstep) p \<and> done_here (gs p)" "\<not> (\<exists>r. main p = Returned r)"
  show "\<exists>p'. own_step p p'"
  proof (cases "main p")
    case Selecting
    with a(1) stopping.always [of p] have "announced p" by (simp add: process_inv_def)
    then consider "shutdownCh p" | n where "onlogout p = Suc n" by (auto simp: announced_def gr0_conv_Suc)
    then show ?thesis
    proof cases
      case 1
      have "p\<lparr>shutdownCh := False, main := ShuttingDown ByLogout\<rparr> \<noteq> p" using Selecting by (cases p) simp
      with on_logout [OF Selecting 1] show ?thesis
        by (intro exI [of _ "p\<lparr>shutdownCh := False, main := ShuttingDown ByLogout\<rparr>"]) (simp add: own_step_def)
    next
      case (2 n)
      have "p\<lparr>onlogout := n, shutdownCh := True\<rparr> \<noteq> p" using 2 by (cases p) simp
      with notify [OF _ 2] Selecting show ?thesis
        by (intro exI [of _ "p\<lparr>onlogout := n, shutdownCh := True\<rparr>"]) (simp add: own_step_def)
    qed
  next
    case (ShuttingDown r)
    have "p\<lparr>main := Returned (Inr r)\<rparr> \<noteq> p" using ShuttingDown by (cases p) simp
    with shut_down [OF ShuttingDown] show ?thesis
      by (intro exI [of _ "p\<lparr>main := Returned (Inr r)\<rparr>"]) (simp add: own_step_def)
  next
    case (Returned r)
    with a(2) show ?thesis by blast
  qed
qed

text \<open>
  Property C8. A daemon that was told to stop does. Once a logout was answered or a handoff delivered, every run of
  the process without new arrivals is bounded, can go on until the main goroutine has returned, and when
  nothing is left to do it has returned: the notification is neither lost nor waited for in vain.
\<close>

theorem process_stops:
  assumes "reach dinit (\<lambda>_ :: unit. dstep) p" "pcs (gs p) i = CDone \<or> delivered (gs p) = Some d" "(own_step ^^ n) p p'"
  shows "n \<le> process_left p
    \<and> (\<exists>m p'' r. (own_step ^^ m) p' p'' \<and> main p'' = Returned r)
    \<and> ((\<nexists>p''. own_step p' p'') \<longrightarrow> (\<exists>r. main p' = Returned r))"
proof -
  have "done_here (gs p)" using assms(2) by (auto simp: done_here_def)
  with assms(1) stopping_runs.run_ends [OF _ assms(3)] show ?thesis by blast
qed

theorem process_stops_witness:
  "\<exists>m p r. (own_step ^^ m) (demo_process demo_logged_out 1 False Selecting) p \<and> main p = Returned r"
  using process_stops [OF demo_logged_out_reach, of 0 demo_data 0 "demo_process demo_logged_out 1 False Selecting"]
  by (simp add: demo_process_def)

end
