(* ===== verification/Spec2Isabelle.thy ===== *)
theory Spec2Isabelle
  imports Succession Cli End_to_End Bearer_Client Windows Progress
begin

text \<open>
  A verification development for xai-oauth, a local daemon that logs in to x.ai with the OAuth 2
  device flow, keeps the tokens in memory, refreshes them, and serves them over HTTP on a Unix
  socket to command-line tools and to programs that use its Go SDK. The model is of the Unix build
  (theory \<open>Windows\<close> has what differs); every definition is translated from the Go source, and named
  after it where that is possible.

  The parts of the program, and the theories that model them.

  \<^item> \<^verbatim>\<open>internal/protocol\<close>, the OAuth client. \<open>Pin\<close> is \<^verbatim>\<open>pin.go\<close>: which hosts, endpoints, user codes and
    verification URIs are accepted. \<open>Errors\<close> is \<^verbatim>\<open>errors.go\<close>. \<open>Http\<close> is \<^verbatim>\<open>httpclient.go\<close>: requests, the
    redirect policy and the redirect loop. \<open>Jwt\<close> is \<^verbatim>\<open>jwt.go\<close>. \<open>Discovery\<close> is \<^verbatim>\<open>discovery.go\<close> and
    \<^verbatim>\<open>constants.go\<close>. \<open>Device\<close> is \<^verbatim>\<open>device.go\<close>: the device code, the polling loop, the browser, the login.
    \<open>Refresh\<close> is \<^verbatim>\<open>refresh.go\<close>.
  \<^item> \<^verbatim>\<open>internal/session/session.go\<close>, the credentials of the process. \<open>Session\<close> has one function for each
    critical section and the operations one goroutine runs; \<open>Typed\<close> is the type of the data it holds;
    \<open>Concurrency\<close> interleaves any number of goroutines over the same functions, with the two mutexes and
    the singleflight.
  \<^item> \<^verbatim>\<open>internal/server\<close>, the daemon's HTTP API. \<open>Server\<close> is \<^verbatim>\<open>server.go\<close>: secrets, routes, handlers. \<open>Listen\<close>
    is \<^verbatim>\<open>listen.go\<close> and \<^verbatim>\<open>listen_unix.go\<close>: binding the socket; \<open>Windows\<close> is \<^verbatim>\<open>listen_windows.go\<close> and the
    client's \<^verbatim>\<open>socketpath_windows.go\<close>.
  \<^item> \<^verbatim>\<open>client\<close>, the SDK. \<open>Client\<close> is \<^verbatim>\<open>client.go\<close>, \<^verbatim>\<open>transport.go\<close>, \<^verbatim>\<open>errors.go\<close> and \<^verbatim>\<open>socketpath_unix.go\<close>.
    \<open>Bearer_Client\<close> puts the bearer transport below the redirect loop of \<^verbatim>\<open>net/http\<close>. \<open>Local_API\<close> connects
    the client to \<open>Server\<close>, and \<open>End_to_End\<close> goes from the provider through the login and the daemon to the
    caller of the SDK.
  \<^item> \<^verbatim>\<open>cmd/xai-oauth\<close>, the commands. \<open>Takeover\<close> is \<^verbatim>\<open>takeover.go\<close>, \<open>Serve\<close> is \<^verbatim>\<open>serve.go\<close>, \<open>Cli\<close> is \<^verbatim>\<open>remote.go\<close>,
    \<^verbatim>\<open>flags.go\<close> and \<^verbatim>\<open>main.go\<close>. \<open>Daemon\<close> is the process of \<^verbatim>\<open>runServer\<close> with its goroutines and channels:
    the requests of \<open>Concurrency\<close>, the \<^verbatim>\<open>OnLogout\<close> hook, signals and the select. \<open>Progress\<close> bounds the steps of
    its requests and of its end. \<open>Succession\<close> is a chain of such processes, each of which got its session from
    the one before.
  \<^item> The part of Go's standard library the source uses: \<open>Go_Unicode\<close> and \<open>Go_Strings\<close> (UTF-8, trimming,
    case, splitting), \<open>Go_URL\<close> (\<^verbatim>\<open>net/url\<close>), \<open>Go_JSON\<close> (\<^verbatim>\<open>encoding/json\<close>; \<open>Go_JSON_Types\<close> is the type of what it
    decodes, \<open>Go_JSON_Prefix\<close> what it makes of texts that break off), \<open>Go_Time\<close> and \<open>Go_RFC3339\<close>
    (\<^verbatim>\<open>time\<close>), \<open>Go_Path\<close> (\<^verbatim>\<open>path/filepath\<close>), \<open>Go_Flag\<close> (\<^verbatim>\<open>flag\<close>), \<open>Sha256\<close> (\<^verbatim>\<open>crypto/sha256\<close>). \<open>Prelude\<close> has
    the collections of hints and the generic lemmas.

  Conventions. A Go string is a list of bytes. A call that returns a value or an error is a sum with
  the error on the left; a call that returns only an error is an option. A Go \<^verbatim>\<open>int\<close> is an integer,
  reduced by \<open>i64\<close> where the code can leave the 64-bit range. State is passed and returned. What the
  program does not compute itself is an argument: the network, clock, timer and context (record
  \<open>env\<close> of \<open>Http\<close>), the system calls on the socket file (record \<open>os\<close> of \<open>Listen\<close>), the HTTP call over the
  socket (\<open>unix_call\<close> of \<open>Client\<close>), processes and signals (record \<open>host\<close> of \<open>Serve\<close>). The theorems hold for
  all values of these arguments, and the requests sent, the pauses and the system calls are logged
  in the state so that theorems can speak about them.

  Interfaces. The locale \<open>refresher\<close> (\<open>Refresh\<close>) is what the session may assume of a refresh, and is
  interpreted on \<open>Refresh\<close> itself; \<open>typed_refresher\<close> (\<open>Typed\<close>) extends it by the type of the tokens.
  \<open>inductive_invariant\<close> (\<open>Concurrency\<close>) is invariance under a step relation, interpreted for the tokens, for
  the singleflight, for the types, for the process and for the chain of processes. \<open>session_service\<close>
  (\<open>Server\<close>) is what the handlers need of the session, interpreted for the session invariant and for the
  types. \<open>listen_platform\<close> (\<open>Listen\<close>) is what binding a socket needs of the platform, interpreted for Unix and
  for Windows. \<open>waiting\<close> (\<open>Client\<close>) and \<open>ticking\<close> (\<open>Takeover\<close>) are what the polling loops need of the clock. \<open>progressing\<close>
  (\<open>Progress\<close>) is a step relation that uses up a measure, interpreted for the requests and for the process.

  What is shown.

  \<^item> Secrets stay where they belong. Every request to the provider, redirects included, goes over https to
    a host the pin accepts (\<open>Refresh_pinned\<close>, \<open>DeviceLogin_spec\<close>, \<open>handle_keeps_invariant\<close>, \<open>client_Do_pinned\<close>), the
    SDK adds the bearer only there (\<open>RoundTrip_pins_bearer\<close>), along any redirects
    (\<open>HTTPClient_pins_bearer\<close>); the browser is started with a validated URL or not at all
    (\<open>DeviceLogin_spec\<close>); no response without the secret, and none but \<^verbatim>\<open>/token\<close> and \<^verbatim>\<open>/handoff\<close>, depends on the tokens; \<^verbatim>\<open>last_error\<close> never holds text from the wire.
  \<^item> The refresh token, which works once, is used by one owner at a time: in every interleaving
    (\<open>single_refresher\<close>, \<open>handoff_current\<close>, \<open>delivered_final\<close>), across a takeover
    (\<open>takeover_keeps_session\<close>), and over any chain of processes that run at the same time
    (\<open>chain_single_owner\<close>, \<open>chain_takeover\<close>). A part of a handoff is never taken for the whole
    (\<open>partial_handoff_refused\<close>); \<open>handoff_outcomes\<close> says who has the session when a handoff breaks off.
    \<open>serve\<close> takes over, replaces or leaves alone a daemon according to its state (\<open>serve_plan_spec\<close>), and has
    dropped its own copy of the credentials before it serves (\<open>cmdServe_leaves_nothing\<close>).
  \<^item> The process stops when it was asked to and has nothing left to lose then (\<open>stops_empty\<close>): the
    notification is not lost (\<open>shutdown_not_lost\<close>), and every run returns (\<open>process_stops\<close>).
  \<^item> Data is typed: whatever the servers send, what the program stores and passes on is valid UTF-8 and not
    blank (\<open>json_decoded\<close>, \<open>DeviceLogin_typed\<close>, \<open>reachable_typed\<close>, \<open>handle_keeps_typed\<close>), so that no encoding on the
    way changes it.
  \<^item> The session implements its abstract specification (\<open>GetAccessToken_refines\<close>) and only the provider
    or the user ends it: what each answer of the token endpoint means (\<open>read_refresh_spec\<close>) and does to the session
    (\<open>GetAccessToken_keeps_credentials\<close>), for good (\<open>ended_stays_ended\<close>).
  \<^item> The composition of client, JSON, HTTP, handler and session does what the session does
    (\<open>Get_from_daemon\<close>, \<open>login_to_client\<close>, \<open>Status_end_to_end\<close>, \<open>Logout_end_to_end\<close>, \<open>cmdToken_end_to_end\<close>, \<open>WaitReady_daemon\<close>),
    and the formats round-trip (\<open>json_parse_print\<close>, \<open>rfc3339_roundtrip\<close>, \<open>JWTExp_roundtrip\<close>,
    \<open>sessionFromHandoff_roundtrip\<close>).
  \<^item> Loops end (\<open>PollDeviceToken_returns\<close>, \<open>WaitReady_returns\<close>, \<open>takeover_waits_end\<close>), and so does the
    whole \<^verbatim>\<open>serve\<close> command until it serves (\<open>cmdServe_returns\<close>). The goroutines do not block each other
    (\<open>no_deadlock\<close>): under every schedule each open request takes at most ten more steps (\<open>requests_finish\<close>).
  \<^item> Where the code does not do what it means to, a theorem shows it:
    \<open>ValidateXAIURL_accepts_ip6_zone\<close>, \<open>IsXAIHost_accepts_dotted_I\<close>, \<open>deviceAuthWindow_wraps\<close>,
    \<open>ExpiresAtFromToken_wraps\<close>, \<open>takeover_can_lose_socket\<close>, \<open>handoff_can_be_lost\<close>.

  Fuel. Loops whose length depends on the clock take a bound on their rounds, and \<open>None\<close> means that
  it was too small: \<open>poll_rounds\<close> (1801) suffices for the device login, because its window is at most
  30 minutes and its pauses at least one second; \<open>wait_rounds\<close> (102) for the waits of a takeover,
  which last five seconds and pause 50 ms, so 1801 for the whole of \<^verbatim>\<open>serve\<close>; for \<open>WaitReady\<close> the bound follows from the deadline. The
  redirect loop needs none: it ends after five requests.

  Bounds. The SDK and a successor read at most a megabyte, so theorems about tokens on the wire bound their
  length by 170000 bytes, which fits even if every byte is escaped (\<open>fits_wire\<close>, \<open>handoff_wire\<close>); an expiry on
  the wire lies in the years 1 to 9999 (\<open>wire_time\<close>).

  Assumptions of the chain of processes. A daemon whose \<^verbatim>\<open>Write\<close> of the handoff response failed takes its
  session back, and its successor then did not get the whole response; of a part it makes no session
  (\<open>partial_handoff_refused\<close>). Only \<^verbatim>\<open>serve\<close> processes that know the secret ask for a handoff.

  Not modelled. Detaching a process; the redirect of \<^verbatim>\<open>ServeMux\<close> for paths that are not clean; the error of
  \<^verbatim>\<open>json.Marshal\<close>, which cannot occur for strings and booleans; the connection pool and timeouts of \<^verbatim>\<open>net/http\<close>, which
  appear only as a failing call, and \<^verbatim>\<open>httpSrv.Shutdown\<close>, after which the process returns; Windows paths
  (arguments of theory \<open>Windows\<close>); the monotonic clock reading that Go keeps beside the wall clock; the
  rounding of \<^verbatim>\<open>Duration.Seconds\<close> to a \<^verbatim>\<open>float64\<close> (exact below 194 days); escapes inside the JSON string of a
  time, which Go's decoder does not resolve; a response of the provider that is lost after the provider
  rotated the token, which no client can detect; request bodies of the SDK's HTTP client.
\<close>

end
